(* ===== verification/Worker_Prelude.thy ===== *)
theory Worker_Prelude
  imports Main "HOL-Library.Word" "HOL-Library.AList" "HOL-Library.Monad_Syntax" "HOL-Library.Multiset"
begin

text \<open>
  The vocabulary the component theories share: machine integers and hashes, results, hash maps
  and hash sets, and the generic facts on them.

  \<^item> \<^emph>\<open>Integers.\<close> u64 is a 64 bit word, so \<open>+\<close> and \<open>-\<close> wrap as in a release build;
    lengths and indices (usize) are natural numbers.
  \<^item> \<^emph>\<open>Results.\<close> A Rust Result is the type \<open>('e, 'a) result\<close>. An operation that may panic
    returns an \<open>option\<close>, with \<^term>\<open>None\<close> for the panic.
  \<^item> \<^emph>\<open>Hash maps.\<close> A HashMap is an association list with distinct keys. A theorem that holds for
    every such list holds for every iteration order.
\<close>

section \<open>Machine integers and hashes\<close>

type_synonym u8 = "8 word"
type_synonym u32 = "32 word"
type_synonym u64 = "64 word"
type_synonym h256 = "256 word"
type_synonym shard_identifier = h256

definition u64_max :: u64 where
  "u64_max = 18446744073709551615"

definition saturating_add :: "u64 \<Rightarrow> u64 \<Rightarrow> u64" where
  "saturating_add a b = (if unat a + unat b < 2 ^ 64 then a + b else u64_max)"

lemma unat_saturating_add: "unat (saturating_add a b) = min (unat a + unat b) (2 ^ 64 - 1)"
proof (cases "unat a + unat b < 2 ^ 64")
  case True
  then have "unat (a + b) = unat a + unat b"
    by (subst unat_add_lem [symmetric]) simp
  with True show ?thesis by (simp add: saturating_add_def)
next
  case False
  then show ?thesis by (simp add: saturating_add_def u64_max_def)
qed

lemma unat_of_nat_u64: "n < 2 ^ 64 \<Longrightarrow> unat (of_nat n :: u64) = n"
  by (simp add: unsigned_of_nat take_bit_nat_eq_self)

lemma unat_plus_u64: "unat ((a::u64) + b) = (unat a + unat b) mod 2 ^ 64"
  by (simp add: unat_word_ariths)

lemma unat_minus_u64: "(b::u64) \<le> a \<Longrightarrow> unat (a - b) = unat a - unat b"
  by unat_arith

lemma unat_plus_one_u64: "unat (a::u64) < 2 ^ 64 - 1 \<Longrightarrow> unat (a + 1) = Suc (unat a)"
  by (simp add: unat_plus_u64)

lemma unat_u64_less: "unat (a::u64) < 2 ^ 64"
  using unsigned_less [of a] by simp

lemma unat_mod_of_nat: "n < 2 ^ 64 \<Longrightarrow> unat ((s::u64) mod of_nat n) = unat s mod n"
  by (simp add: unat_mod_distrib unat_of_nat_u64)

lemma succ_no_wrap: "(a::u64) < b \<and> a + 1 = b \<longleftrightarrow> unat b = Suc (unat a)"
  by unat_arith

section \<open>Results\<close>

datatype ('e, 'a) result = Err 'e | Ok 'a

primrec is_ok :: "('e, 'a) result \<Rightarrow> bool" where
  "is_ok (Err e) = False"
| "is_ok (Ok a) = True"

primrec map_err :: "('e \<Rightarrow> 'f) \<Rightarrow> ('e, 'a) result \<Rightarrow> ('f, 'a) result" where
  "map_err f (Err e) = Err (f e)"
| "map_err f (Ok a) = Ok a"

primrec map_ok :: "('a \<Rightarrow> 'b) \<Rightarrow> ('e, 'a) result \<Rightarrow> ('e, 'b) result" where
  "map_ok f (Err e) = Err e"
| "map_ok f (Ok a) = Ok (f a)"

lemma map_ok_Ok_iff: "map_ok f r = Ok b \<longleftrightarrow> (\<exists>a. r = Ok a \<and> b = f a)"
  by (cases r) auto

lemma is_ok_map_err [simp]: "is_ok (map_err f r) = is_ok r"
  by (cases r) simp_all

lemma map_err_Ok_iff [simp]: "map_err f r = Ok a \<longleftrightarrow> r = Ok a"
  by (cases r) simp_all

lemma map_err_Err_iff: "map_err f r = Err e \<longleftrightarrow> (\<exists>e'. r = Err e' \<and> e = f e')"
  by (cases r) auto

section \<open>Hash maps\<close>

type_synonym ('k, 'v) hmap = "('k \<times> 'v) list"

abbreviation hget :: "('k, 'v) hmap \<Rightarrow> 'k \<Rightarrow> 'v option" where
  "hget m k \<equiv> map_of m k"

abbreviation hput :: "'k \<Rightarrow> 'v \<Rightarrow> ('k, 'v) hmap \<Rightarrow> ('k, 'v) hmap" where
  "hput k v m \<equiv> AList.update k v m"

abbreviation hdel :: "'k \<Rightarrow> ('k, 'v) hmap \<Rightarrow> ('k, 'v) hmap" where
  "hdel k m \<equiv> AList.delete k m"

abbreviation hwf :: "('k, 'v) hmap \<Rightarrow> bool" where
  "hwf m \<equiv> distinct (map fst m)"

lemma hget_put [simp]: "hget (hput k v m) k' = (if k' = k then Some v else hget m k')"
  by (simp add: update_conv')

lemma hget_del [simp]: "hget (hdel k m) k' = (if k' = k then None else hget m k')"
  by (simp add: delete_conv')

lemma hwf_put [simp, intro]: "hwf m \<Longrightarrow> hwf (hput k v m)"
  by (rule distinct_update)

lemma hwf_del [simp, intro]: "hwf m \<Longrightarrow> hwf (hdel k m)"
  by (rule distinct_delete)

lemma hdel_absent: "hget m k = None \<Longrightarrow> hdel k m = m"
  by (simp add: delete_idem map_of_eq_None_iff)

lemma length_hdel: "hwf m \<Longrightarrow> hget m k = Some v \<Longrightarrow> Suc (length (hdel k m)) = length m"
proof (induction m)
  case Nil
  then show ?case by simp
next
  case (Cons p m)
  then show ?case
    by (cases p) (auto split: if_splits simp: hdel_absent map_of_eq_None_iff)
qed

lemma length_hdel_less: "hget m k = Some v \<Longrightarrow> length (hdel k m) < length m"
proof (induction m)
  case Nil
  then show ?case by simp
next
  case (Cons p m)
  then show ?case
    by (cases p) (auto split: if_splits intro: le_imp_less_Suc length_delete_le)
qed

lemma length_hput:
  "length (hput k v m) = (if hget m k = None then Suc (length m) else length m)"
  by (induction m) auto

lemma hget_fold_hdel [simp]: "hget (fold hdel ts m) t = (if t \<in> set ts then None else hget m t)"
  by (induction ts arbitrary: m) auto

lemma hget_fold_hput [simp]: "hget (fold (\<lambda>t. hput t h) ts m) t = (if t \<in> set ts then Some h else hget m t)"
  by (induction ts arbitrary: m) auto

lemma hwf_fold_hput [simp]: "hwf m \<Longrightarrow> hwf (fold (\<lambda>t. hput t h) ts m)"
  by (induction ts arbitrary: m) auto

section \<open>Vectors\<close>

text \<open>Iterator::position and Vec::swap_remove.\<close>

fun position :: "('a \<Rightarrow> bool) \<Rightarrow> 'a list \<Rightarrow> nat option" where
  "position P [] = None"
| "position P (x # xs) = (if P x then Some 0 else map_option Suc (position P xs))"

definition swap_remove :: "nat \<Rightarrow> 'a list \<Rightarrow> 'a list" where
  "swap_remove i xs = butlast (xs[i := last xs])"

lemma position_None: "position P xs = None \<longleftrightarrow> (\<forall>x\<in>set xs. \<not> P x)"
  by (induction xs) auto

lemma position_Some:
  "position P xs = Some p \<longleftrightarrow> p < length xs \<and> P (xs ! p) \<and> (\<forall>i<p. \<not> P (xs ! i))"
proof (induction xs arbitrary: p)
  case Nil
  then show ?case by simp
next
  case (Cons x xs)
  then show ?case by (cases p) (auto simp: All_less_Suc2)
qed

lemma position_take_last:
  "position P xs = Some p \<Longrightarrow> last (take (Suc p) xs) = xs ! p"
  by (simp add: position_Some take_Suc_conv_app_nth)

lemma position_find: "List.find P xs = map_option (\<lambda>p. xs ! p) (position P xs)"
  by (induction xs) (auto simp: option.map_comp comp_def)

lemma mset_swap_remove:
  assumes "i < length xs"
  shows "mset (swap_remove i xs) = mset xs - {#xs ! i#}"
proof -
  have ne: "xs \<noteq> []" using assms by auto
  have m: "mset (xs[i := last xs]) = add_mset (last xs) (mset xs - {#xs ! i#})" using assms by (rule mset_update)
  have "xs[i := last xs] \<noteq> []" using ne by simp
  moreover have "last (xs[i := last xs]) = last xs"
    using assms ne by (cases "i = length xs - 1") (simp_all add: last_conv_nth nth_list_update)
  ultimately have "mset (xs[i := last xs]) = add_mset (last xs) (mset (butlast (xs[i := last xs])))"
    by (metis append_butlast_last_id mset.simps(2) mset_append mset.simps(1) union_mset_add_mset_right add.right_neutral)
  with m show ?thesis by (simp add: swap_remove_def)
qed

end
