(* ===== verification/Ordered_Map.thy ===== *)
theory Ordered_Map
  imports Worker_Prelude "HOL-Library.List_Lexorder"
begin

text \<open>
  BTreeMap as an association list sorted strictly by its keys: insertion and removal keep the order,
  lookups follow the map laws, and two maps with the same lookups are the same list. Keys are byte
  vectors in most uses, ordered lexicographically as Rust orders a Vec of u8.
\<close>

type_synonym bytes = "u8 list"
type_synonym ('k, 'v) btree_map = "('k \<times> 'v) list"

fun bt_insert :: "'k::linorder \<Rightarrow> 'v \<Rightarrow> ('k, 'v) btree_map \<Rightarrow> ('k, 'v) btree_map" where
  "bt_insert k v [] = [(k, v)]"
| "bt_insert k v (p # m) =
     (if k < fst p then (k, v) # p # m
      else if k = fst p then (k, v) # m
      else p # bt_insert k v m)"

definition bt_remove :: "'k::linorder \<Rightarrow> ('k, 'v) btree_map \<Rightarrow> ('k, 'v) btree_map" where
  "bt_remove k m = filter (\<lambda>p. fst p \<noteq> k) m"

abbreviation bt_get :: "('k, 'v) btree_map \<Rightarrow> 'k \<Rightarrow> 'v option" where
  "bt_get m k \<equiv> map_of m k"

definition bt_wf :: "('k::linorder, 'v) btree_map \<Rightarrow> bool" where
  "bt_wf m \<longleftrightarrow> sorted_wrt (<) (map fst m)"

lemma bt_wf_Nil [simp]: "bt_wf []"
  by (simp add: bt_wf_def)

lemma bt_wf_Cons: "bt_wf (p # m) \<longleftrightarrow> (\<forall>k\<in>fst ` set m. fst p < k) \<and> bt_wf m"
  by (auto simp: bt_wf_def)

lemma bt_wf_distinct: "bt_wf m \<Longrightarrow> distinct (map fst m)"
  unfolding bt_wf_def by (simp add: strict_sorted_iff)

lemma keys_bt_insert: "fst ` set (bt_insert k v m) = insert k (fst ` set m)"
  by (induction m) auto

lemma bt_wf_insert [simp, intro]: "bt_wf m \<Longrightarrow> bt_wf (bt_insert k v m)"
  by (induction m) (auto simp: bt_wf_Cons keys_bt_insert simp flip: image_iff)

lemma bt_wf_filter [simp, intro]: "bt_wf m \<Longrightarrow> bt_wf (filter P m)"
  by (induction m) (auto simp: bt_wf_Cons)

lemma bt_wf_remove [simp, intro]: "bt_wf m \<Longrightarrow> bt_wf (bt_remove k m)"
  by (simp add: bt_remove_def)

lemma bt_get_above: "\<forall>k\<in>fst ` set m. (k0::'k::linorder) < k \<Longrightarrow> k' \<le> k0 \<Longrightarrow> bt_get m k' = None"
  by (meson leD map_of_eq_None_iff)

lemma bt_get_insert [simp]: "bt_wf m \<Longrightarrow> bt_get (bt_insert k v m) k' = (if k' = k then Some v else bt_get m k')"
proof (induction m)
  case Nil
  then show ?case by simp
next
  case (Cons p m)
  then show ?case by (cases p) (auto simp: bt_wf_Cons)
qed

lemma bt_get_remove [simp]: "bt_get (bt_remove k m) k' = (if k' = k then None else bt_get m k')"
  by (induction m) (auto simp: bt_remove_def)

text \<open>Two ordered maps with the same lookups are equal.\<close>

lemma bt_ext:
  assumes "bt_wf m" "bt_wf n" "\<And>k. bt_get m k = bt_get n k"
  shows "m = n"
  using assms
proof (induction m arbitrary: n)
  case Nil
  show ?case
  proof (cases n)
    case (Cons q n')
    then show ?thesis using Nil.prems(3) [of "fst q"] by simp
  qed simp
next
  case (Cons p m)
  obtain k v where p: "p = (k, v)" by (cases p)
  show ?case
  proof (cases n)
    case Nil
    then show ?thesis using Cons.prems(3) [of k] p by simp
  next
    case (Cons q n')
    obtain k' v' where q: "q = (k', v')" by (cases q)
    have above: "\<forall>x\<in>fst ` set m. k < x" "\<forall>x\<in>fst ` set n'. k' < x" and wf: "bt_wf m" "bt_wf n'"
      using Cons.prems(1,2) p q Cons by (simp_all add: bt_wf_Cons)
    have eq: "bt_get ((k, v) # m) x = bt_get ((k', v') # n') x" for x
      using Cons.prems(3) [of x] p q Cons by simp
    have "k = k'"
    proof (rule ccontr)
      assume "k \<noteq> k'"
      then consider "k < k'" | "k' < k" by fastforce
      then show False
        using eq [of k] eq [of k'] above by cases (auto simp: bt_get_above split: if_splits)
    qed
    moreover have "v = v'" using eq [of k] \<open>k = k'\<close> by simp
    moreover have "bt_get m x = bt_get n' x" for x
      using eq [of x] above \<open>k = k'\<close> by (cases "x = k") (simp_all add: bt_get_above)
    ultimately show ?thesis using Cons.IH [OF wf] Cons p q by simp
  qed
qed

lemma bt_get_fold_insert_remove:
  assumes "bt_wf m" "distinct (map fst d)"
  shows "bt_wf (fold (\<lambda>(k, v). case v of Some x \<Rightarrow> bt_insert k x | None \<Rightarrow> bt_remove k) d m)
    \<and> bt_get (fold (\<lambda>(k, v). case v of Some x \<Rightarrow> bt_insert k x | None \<Rightarrow> bt_remove k) d m) k'
      = (case map_of d k' of None \<Rightarrow> bt_get m k' | Some v \<Rightarrow> v)"
  using assms
proof (induction d arbitrary: m)
  case Nil
  then show ?case by simp
next
  case (Cons p d)
  obtain k v where p: "p = (k, v)" by (cases p)
  then have "map_of d k = None" using Cons.prems(2) by (simp add: map_of_eq_None_iff)
  with Cons p show ?case by (cases v) (auto split: option.split)
qed

section \<open>Prefixes in the lexicographic order\<close>

definition starts_with :: "'a list \<Rightarrow> 'a list \<Rightarrow> bool" where
  "starts_with p xs \<longleftrightarrow> take (length p) xs = p"

lemma starts_with_simps [simp]:
  "starts_with [] xs" "\<not> starts_with (a # p) []"
  "starts_with (a # p) (x # xs) \<longleftrightarrow> x = a \<and> starts_with p xs"
  by (auto simp: starts_with_def)

lemma starts_with_le: "starts_with p (xs::'a::linorder list) \<Longrightarrow> p \<le> xs"
proof (induction p arbitrary: xs)
  case Nil
  then show ?case by simp
next
  case (Cons a p)
  then show ?case by (cases xs) auto
qed

lemma starts_with_convex:
  "p \<le> x \<Longrightarrow> x < (y::'a::linorder list) \<Longrightarrow> starts_with p y \<Longrightarrow> starts_with p x"
proof (induction p arbitrary: x y)
  case Nil
  then show ?case by simp
next
  case (Cons a p)
  then show ?case by (cases x; cases y) auto
qed

lemma takeWhile_prefix_sorted:
  assumes "sorted_wrt (<) ks"
  shows "takeWhile (starts_with p) (filter (\<lambda>k. p \<le> k) ks) = filter (starts_with p) (ks::'a::linorder list list)"
  using assms
proof (induction ks)
  case Nil
  then show ?case by simp
next
  case (Cons k ks)
  show ?case
  proof (cases "starts_with p k")
    case True
    with Cons show ?thesis by (simp add: starts_with_le)
  next
    case False
    show ?thesis
    proof (cases "p \<le> k")
      case True
      with Cons.prems False have "filter (starts_with p) ks = []"
        by (auto simp: filter_empty_conv dest: starts_with_convex)
      with True False show ?thesis by simp
    next
      case False
      with Cons \<open>\<not> starts_with p k\<close> show ?thesis by simp
    qed
  qed
qed

end
