(* ===== verification/Externalities.thy ===== *)
theory Externalities
  imports Ordered_Map
begin

text \<open>
  The key-value state of the enclave runtime (core-primitives/substrate-sgx/externalities), the
  storage host functions on it (sp-io) and the application of a state diff (sidechain/state).

  Two codecs are parameters: how parity-scale-codec appends a raw item to an encoded vector
  (\<open>append_or_new\<close>, failing on malformed data, and \<open>encode_vec\<close>), and the hash of a state, which is
  blake2 over the postcard encoding.
\<close>

section \<open>Externalities\<close>

record sgx_externalities =
  state :: "(bytes, bytes) btree_map"
  state_diff :: "(bytes, bytes option) btree_map"

record append_codec =
  append_or_new :: "bytes \<Rightarrow> bytes list \<Rightarrow> bytes option"
  encode_vec :: "bytes list \<Rightarrow> bytes"

definition ext_new :: "(bytes, bytes) btree_map \<Rightarrow> sgx_externalities" where
  "ext_new s = \<lparr>state = s, state_diff = []\<rparr>"

definition ext_insert :: "bytes \<Rightarrow> bytes \<Rightarrow> sgx_externalities \<Rightarrow> bytes option \<times> sgx_externalities" where
  "ext_insert k v e =
     (bt_get (state e) k,
      e\<lparr>state_diff := bt_insert k (Some v) (state_diff e), state := bt_insert k v (state e)\<rparr>)"

definition storage_append :: "append_codec \<Rightarrow> bytes \<Rightarrow> bytes \<Rightarrow> bytes" where
  "storage_append c item value =
     (case append_or_new c item [value] of Some item' \<Rightarrow> item' | None \<Rightarrow> encode_vec c [value])"

definition ext_append :: "append_codec \<Rightarrow> bytes \<Rightarrow> bytes \<Rightarrow> sgx_externalities \<Rightarrow> sgx_externalities" where
  "ext_append c k v e =
     (let current = (case bt_get (state e) k of None \<Rightarrow> [] | Some x \<Rightarrow> x);
          updated_value = storage_append c current v
      in e\<lparr>state := bt_insert k updated_value (state e),
           state_diff := bt_insert k (Some updated_value) (state_diff e)\<rparr>)"

definition ext_remove :: "bytes \<Rightarrow> sgx_externalities \<Rightarrow> bytes option \<times> sgx_externalities" where
  "ext_remove k e =
     (bt_get (state e) k,
      e\<lparr>state_diff := bt_insert k None (state_diff e), state := bt_remove k (state e)\<rparr>)"

definition ext_get :: "bytes \<Rightarrow> sgx_externalities \<Rightarrow> bytes option" where
  "ext_get k e = bt_get (state e) k"

definition ext_contains_key :: "bytes \<Rightarrow> sgx_externalities \<Rightarrow> bool" where
  "ext_contains_key k e \<longleftrightarrow> bt_get (state e) k \<noteq> None"

definition next_storage_key :: "bytes \<Rightarrow> sgx_externalities \<Rightarrow> bytes option" where
  "next_storage_key key e = List.find (\<lambda>k. key < k) (map fst (state e))"

definition prune_state_diff :: "sgx_externalities \<Rightarrow> sgx_externalities" where
  "prune_state_diff e = e\<lparr>state_diff := []\<rparr>"

definition ext_clear_prefix :: "bytes \<Rightarrow> u32 option \<Rightarrow> sgx_externalities \<Rightarrow> u32 \<times> sgx_externalities" where
  "ext_clear_prefix key_prefix maybe_limit e =
     (let to_remove = takeWhile (starts_with key_prefix) (filter (\<lambda>k. key_prefix \<le> k) (map fst (state e)))
      in (of_nat (length to_remove), fold (\<lambda>k e. snd (ext_remove k e)) to_remove e))"

section \<open>Storage host functions\<close>

text \<open>
  The host functions act on the externalities set for the current scope; outside of a scope the
  getters and \<open>set\<close> panic (\<^term>\<open>None\<close>) while clearing and appending do nothing.
\<close>

datatype kill_storage_result = AllRemoved u32 | SomeRemaining u32

definition storage_get :: "bytes \<Rightarrow> sgx_externalities option \<Rightarrow> bytes option option" where
  "storage_get key env = map_option (ext_get key) env"

definition storage_read :: "bytes \<Rightarrow> bytes \<Rightarrow> u32 \<Rightarrow> sgx_externalities option \<Rightarrow> (u32 option \<times> bytes) option" where
  "storage_read key value_out value_offset env =
     (case env of
        None \<Rightarrow> None
      | Some e \<Rightarrow>
          (case ext_get key e of
             None \<Rightarrow> Some (None, value_out)
           | Some value \<Rightarrow>
               if length value < unat value_offset then None
               else let value' = drop (unat value_offset) value;
                        written = min (length value') (length value_out)
                    in Some (Some (if length value' < 2 ^ 32 then of_nat (length value') else 4294967295),
                             take written value' @ drop written value_out)))"

definition storage_set :: "bytes \<Rightarrow> bytes \<Rightarrow> sgx_externalities option \<Rightarrow> sgx_externalities option option" where
  "storage_set key value env = (case env of None \<Rightarrow> None | Some e \<Rightarrow> Some (Some (snd (ext_insert key value e))))"

definition storage_clear :: "bytes \<Rightarrow> sgx_externalities option \<Rightarrow> sgx_externalities option" where
  "storage_clear key env = map_option (\<lambda>e. snd (ext_remove key e)) env"

definition storage_exists :: "bytes \<Rightarrow> sgx_externalities option \<Rightarrow> bool option" where
  "storage_exists key env = map_option (ext_contains_key key) env"

definition storage_clear_prefix ::
  "bytes \<Rightarrow> u32 option \<Rightarrow> sgx_externalities option \<Rightarrow> kill_storage_result \<times> sgx_externalities option" where
  "storage_clear_prefix prefix maybe_limit env =
     (case env of
        None \<Rightarrow> (AllRemoved 0, None)
      | Some e \<Rightarrow> (case ext_clear_prefix prefix maybe_limit e of (n, e') \<Rightarrow> (AllRemoved n, Some e')))"

definition storage_append_item :: "append_codec \<Rightarrow> bytes \<Rightarrow> bytes \<Rightarrow> sgx_externalities option \<Rightarrow> sgx_externalities option" where
  "storage_append_item c key value env = map_option (ext_append c key value) env"

definition storage_next_key :: "bytes \<Rightarrow> sgx_externalities option \<Rightarrow> bytes option option" where
  "storage_next_key key env = map_option (next_storage_key key) env"

section \<open>Applying a state update\<close>

record state_update =
  state_hash_apriori :: h256
  state_hash_aposteriori :: h256
  update_diff :: "(bytes, bytes option) btree_map"

datatype state_error = InvalidAprioriHash | InvalidStorageDiff | StateDB string string

definition apply_entry :: "bytes \<times> bytes option \<Rightarrow> sgx_externalities \<Rightarrow> sgx_externalities" where
  "apply_entry p e =
     (case p of
        (k, Some value) \<Rightarrow> snd (ext_insert k value e)
      | (k, None) \<Rightarrow> snd (ext_remove k e))"

definition apply_state_update ::
  "((bytes, bytes) btree_map \<Rightarrow> h256) \<Rightarrow> state_update \<Rightarrow> sgx_externalities
   \<Rightarrow> (state_error, unit) result \<times> sgx_externalities" where
  "apply_state_update hash u e =
     (if hash (state e) \<noteq> state_hash_apriori u then (Err InvalidAprioriHash, e)
      else let e' = fold apply_entry (update_diff u) e
           in if hash (state e') \<noteq> state_hash_aposteriori u then (Err InvalidStorageDiff, e')
              else (Ok (), prune_state_diff e'))"

section \<open>The diff records every change\<close>

definition ext_wf :: "sgx_externalities \<Rightarrow> bool" where
  "ext_wf e \<longleftrightarrow> bt_wf (state e) \<and> bt_wf (state_diff e)"

definition tracks :: "(bytes, bytes) btree_map \<Rightarrow> sgx_externalities \<Rightarrow> bool" where
  "tracks s e \<longleftrightarrow> ext_wf e
     \<and> (\<forall>k. bt_get (state e) k = (case bt_get (state_diff e) k of None \<Rightarrow> bt_get s k | Some v \<Rightarrow> v))"

datatype ext_op =
    OpInsert bytes bytes | OpAppend bytes bytes | OpRemove bytes | OpClearPrefix bytes "u32 option"

fun exec_ext_op :: "append_codec \<Rightarrow> ext_op \<Rightarrow> sgx_externalities \<Rightarrow> sgx_externalities" where
  "exec_ext_op c (OpInsert k v) e = snd (ext_insert k v e)"
| "exec_ext_op c (OpAppend k v) e = ext_append c k v e"
| "exec_ext_op c (OpRemove k) e = snd (ext_remove k e)"
| "exec_ext_op c (OpClearPrefix p l) e = snd (ext_clear_prefix p l e)"

lemma tracks_new: "bt_wf s \<Longrightarrow> tracks s (ext_new s)"
  by (simp add: tracks_def ext_new_def ext_wf_def)

lemma tracks_insert: "tracks s e \<Longrightarrow> tracks s (snd (ext_insert k v e))"
  by (simp add: tracks_def ext_wf_def ext_insert_def)

lemma tracks_append: "tracks s e \<Longrightarrow> tracks s (ext_append c k v e)"
  by (simp add: tracks_def ext_wf_def ext_append_def Let_def)

lemma tracks_remove: "tracks s e \<Longrightarrow> tracks s (snd (ext_remove k e))"
  by (simp add: tracks_def ext_wf_def ext_remove_def)

lemma tracks_remove_all: "tracks s e \<Longrightarrow> tracks s (fold (\<lambda>k e. snd (ext_remove k e)) ks e)"
  by (induction ks arbitrary: e) (simp_all add: tracks_remove)

lemmas tracks_ops = tracks_insert tracks_append tracks_remove tracks_remove_all

lemma tracks_exec: "tracks s e \<Longrightarrow> tracks s (exec_ext_op c x e)"
  by (cases x) (simp_all add: tracks_ops ext_clear_prefix_def Let_def)

lemma tracks_fold: "tracks s e \<Longrightarrow> tracks s (fold (exec_ext_op c) xs e)"
  by (induction xs arbitrary: e) (simp_all add: tracks_exec)

lemma state_apply_entries:
  "state (fold apply_entry d e) =
     fold (\<lambda>(k, v). case v of Some x \<Rightarrow> bt_insert k x | None \<Rightarrow> bt_remove k) d (state e)"
  by (induction d arbitrary: e)
    (auto simp: apply_entry_def ext_insert_def ext_remove_def split: option.split)

lemma apply_tracked_diff:
  assumes "tracks s e" "bt_wf s" "state e0 = s"
  shows "state (fold apply_entry (state_diff e) e0) = state e"
proof (rule bt_ext)
  have d: "distinct (map fst (state_diff e))" "bt_wf (state e)"
    using assms(1) by (simp_all add: tracks_def ext_wf_def bt_wf_distinct)
  note applied = bt_get_fold_insert_remove [OF assms(2) d(1)]
  show "bt_wf (state (fold apply_entry (state_diff e) e0))"
    using applied assms(3) by (simp add: state_apply_entries)
  show "bt_get (state (fold apply_entry (state_diff e) e0)) k = bt_get (state e) k" for k
    using applied [of k] assms by (simp add: state_apply_entries tracks_def)
  show "bt_wf (state e)" by (fact d(2))
qed

lemma state_remove_all:
  "bt_get (state (fold (\<lambda>k e. snd (ext_remove k e)) ks e)) k = (if k \<in> set ks then None else bt_get (state e) k)"
  by (induction ks arbitrary: e) (auto simp: ext_remove_def)

lemma clear_prefix_keys:
  "ext_wf e \<Longrightarrow> takeWhile (starts_with p) (filter (\<lambda>k. p \<le> k) (map fst (state e)))
     = filter (starts_with p) (map fst (state e))"
  by (intro takeWhile_prefix_sorted) (simp add: ext_wf_def bt_wf_def)

lemma bt_get_clear_prefix:
  assumes "ext_wf e"
  shows "bt_get (state (snd (ext_clear_prefix p l e))) k = (if starts_with p k then None else bt_get (state e) k)"
proof -
  have "bt_get (state e) k = None" if "k \<notin> fst ` set (state e)"
    using that by (simp add: map_of_eq_None_iff)
  then show ?thesis
    unfolding ext_clear_prefix_def Let_def clear_prefix_keys [OF assms] by (auto simp: state_remove_all)
qed

lemma replay_tracked:
  assumes "tracks s e" "bt_wf s" "state e0 = s"
  shows "apply_state_update hash
      \<lparr>state_hash_apriori = hash s, state_hash_aposteriori = hash (state e), update_diff = state_diff e\<rparr> e0
    = (Ok (), ext_new (state e))"
  using apply_tracked_diff [OF assms] assms(3)
  by (cases "fold apply_entry (state_diff e) e0")
    (simp add: apply_state_update_def prune_state_diff_def ext_new_def Let_def)

section \<open>Properties\<close>

text \<open>C6: Replaying a state diff. Start from any ordered state with an empty diff and run any sequence of
  inserts, appends, removals and prefix clearings. Importing the recorded diff into the same starting
  state, announced with the hashes before and after, succeeds, yields exactly the state the sequence
  produced, and leaves an empty diff.\<close>
theorem state_update_replay:
  assumes "bt_wf s" "state e0 = s"
    and "e = fold (exec_ext_op c) ops (ext_new s)"
  shows "apply_state_update hash
      \<lparr>state_hash_apriori = hash s, state_hash_aposteriori = hash (state e), update_diff = state_diff e\<rparr> e0
    = (Ok (), ext_new (state e))"
proof -
  have "tracks s e" unfolding assms(3) by (intro tracks_fold tracks_new assms(1))
  then show ?thesis using assms(1,2) by (rule replay_tracked)
qed

theorem state_update_replay_witness:
  "apply_state_update (\<lambda>s. of_nat (length s))
      \<lparr>state_hash_apriori = 2, state_hash_aposteriori = 1, update_diff = [([1], None), ([2], Some [9]), ([3, 4], None)]\<rparr>
      \<lparr>state = [([1], [5]), ([3, 4], [6])], state_diff = [([8], None)]\<rparr>
    = (Ok (), \<lparr>state = [([2], [9])], state_diff = []\<rparr>)"
  using state_update_replay
    [of "[([1], [5]), ([3, 4], [6])]" "\<lparr>state = [([1], [5]), ([3, 4], [6])], state_diff = [([8], None)]\<rparr>"
      _ "\<lparr>append_or_new = \<lambda>i v. Some (i @ concat v), encode_vec = concat\<rparr>"
      "[OpAppend [2] [9], OpRemove [1], OpClearPrefix [3] None]" "\<lambda>s. of_nat (length s)", OF _ _ refl]
  by (simp add: bt_wf_def ext_new_def ext_append_def storage_append_def ext_remove_def bt_remove_def
      ext_clear_prefix_def Let_def)




end
