(* ===== verification/Storage_Keys.thy ===== *)
theory Storage_Keys
  imports Ordered_Map
begin

text \<open>
  Storage keys of the runtime state (core-primitives/storage, keys.rs). The hash functions come from
  sp_core and are a record of functions on byte vectors; \<open>as_bytes\<close> is the byte view of a str literal.
\<close>

record hashers =
  twox_64 :: "bytes \<Rightarrow> bytes"
  twox_128 :: "bytes \<Rightarrow> bytes"
  twox_256 :: "bytes \<Rightarrow> bytes"
  blake2_128 :: "bytes \<Rightarrow> bytes"
  blake2_256 :: "bytes \<Rightarrow> bytes"

datatype storage_hasher =
  Identity | Blake2_128 | Blake2_128Concat | Blake2_256 | Twox128 | Twox256 | Twox64Concat

definition as_bytes :: "string \<Rightarrow> bytes" where
  "as_bytes s = map of_char s"

definition storage_value_key :: "hashers \<Rightarrow> string \<Rightarrow> string \<Rightarrow> bytes" where
  "storage_value_key h module_prefix storage_prefix =
     twox_128 h (as_bytes module_prefix) @ twox_128 h (as_bytes storage_prefix)"

fun key_hash :: "hashers \<Rightarrow> bytes \<Rightarrow> storage_hasher \<Rightarrow> bytes" where
  "key_hash h encoded_key Identity = encoded_key"
| "key_hash h encoded_key Blake2_128 = blake2_128 h encoded_key"
| "key_hash h encoded_key Blake2_128Concat = blake2_128 h encoded_key @ encoded_key"
| "key_hash h encoded_key Blake2_256 = blake2_256 h encoded_key"
| "key_hash h encoded_key Twox128 = twox_128 h encoded_key"
| "key_hash h encoded_key Twox256 = twox_256 h encoded_key"
| "key_hash h encoded_key Twox64Concat = twox_64 h encoded_key"

definition storage_map_key :: "hashers \<Rightarrow> string \<Rightarrow> string \<Rightarrow> bytes \<Rightarrow> storage_hasher \<Rightarrow> bytes" where
  "storage_map_key h module_prefix storage_prefix mapkey1 hasher1 =
     twox_128 h (as_bytes module_prefix) @ twox_128 h (as_bytes storage_prefix) @ key_hash h mapkey1 hasher1"

definition storage_double_map_key ::
  "hashers \<Rightarrow> string \<Rightarrow> string \<Rightarrow> bytes \<Rightarrow> storage_hasher \<Rightarrow> bytes \<Rightarrow> storage_hasher \<Rightarrow> bytes" where
  "storage_double_map_key h module_prefix storage_prefix mapkey1 hasher1 mapkey2 hasher2 =
     twox_128 h (as_bytes module_prefix) @ twox_128 h (as_bytes storage_prefix)
       @ key_hash h mapkey1 hasher1 @ key_hash h mapkey2 hasher2"

section \<open>Separation of keys\<close>

text \<open>
  What the callers rely on: the 128 bit hash has 16 bytes and does not collide on the names of the
  pallets and storage items in use.
\<close>

definition keys_separate :: "hashers \<Rightarrow> string set \<Rightarrow> bool" where
  "keys_separate h names \<longleftrightarrow>
     (\<forall>x. length (twox_128 h x) = 16) \<and> inj_on (\<lambda>n. twox_128 h (as_bytes n)) names"

lemma storage_value_key_eq_iff:
  assumes "keys_separate h names" "m \<in> names" "s \<in> names" "m' \<in> names" "s' \<in> names"
  shows "storage_value_key h m s = storage_value_key h m' s' \<longleftrightarrow> m = m' \<and> s = s'"
  using assms by (auto simp: storage_value_key_def keys_separate_def dest: inj_onD)

lemma storage_value_key_prefix_iff:
  assumes "keys_separate h names" "m \<in> names" "s \<in> names" "m' \<in> names" "s' \<in> names"
  shows "starts_with (storage_value_key h m s) (storage_value_key h m' s') \<longleftrightarrow> m = m' \<and> s = s'"
  using assms storage_value_key_eq_iff [OF assms]
  by (auto simp: starts_with_def storage_value_key_def keys_separate_def)

section \<open>Properties\<close>

text \<open>With the concatenating hasher a map key is transparent: two entries have the same storage key
  only if they belong to the same storage map and have the same encoded key, whatever collisions the
  128 bit key hash has.\<close>
theorem blake2_concat_key_injective:
  assumes "keys_separate h names" "{m, s, m', s'} \<subseteq> names" "\<And>x. length (blake2_128 h x) = 16"
  shows "storage_map_key h m s k Blake2_128Concat = storage_map_key h m' s' k' Blake2_128Concat
     \<longleftrightarrow> m = m' \<and> s = s' \<and> k = k'"
  using assms by (auto simp: storage_map_key_def keys_separate_def dest: inj_onD)

theorem blake2_concat_key_injective_witness:
  "(let pad = (\<lambda>x. take 16 (x @ replicate 16 0));
        h = \<lparr>twox_64 = take 8, twox_128 = pad, twox_256 = id, blake2_128 = (\<lambda>x. replicate 16 0), blake2_256 = id\<rparr>
    in storage_map_key h ''System'' ''Account'' [1] Blake2_128Concat
       \<noteq> storage_map_key h ''System'' ''Account'' [2] Blake2_128Concat)"
  using blake2_concat_key_injective
    [of "\<lparr>twox_64 = take 8, twox_128 = \<lambda>x. take 16 (x @ replicate 16 0), twox_256 = id,
          blake2_128 = \<lambda>x. replicate 16 0, blake2_256 = id\<rparr>"
      "{''System'', ''Account''}" "''System''" "''Account''" "''System''" "''Account''" "[1]" "[2]"]
  by (simp add: Let_def keys_separate_def inj_on_def as_bytes_def min_def)

text \<open>The Twox64Concat hasher appends nothing: its result is the bare 64 bit hash, so two encoded
  keys whose 64 bit hashes collide share one storage key, unlike in the runtime whose storage the
  keys are meant to address.\<close>
theorem twox64concat_drops_key:
  assumes "twox_64 h k = twox_64 h k'"
  shows "storage_map_key h m s k Twox64Concat = storage_map_key h m s k' Twox64Concat"
  using assms by (simp add: storage_map_key_def)

theorem twox64concat_drops_key_witness:
  "(let h = \<lparr>twox_64 = take 1, twox_128 = id, twox_256 = id, blake2_128 = id, blake2_256 = id\<rparr>
    in storage_map_key h ''System'' ''Account'' [1, 2] Twox64Concat = storage_map_key h ''System'' ''Account'' [1, 3] Twox64Concat)"
  using twox64concat_drops_key
    [of "\<lparr>twox_64 = take 1, twox_128 = id, twox_256 = id, blake2_128 = id, blake2_256 = id\<rparr>" "[1, 2]" "[1, 3]"]
  by (simp add: Let_def)

end
