(* ===== verification/Sidechain_Primitives.thy ===== *)
theory Sidechain_Primitives
  imports Ordered_Map
begin

text \<open>
  Sidechain block types (sidechain/primitives). Hashing and signing go through blake2, SCALE and
  ed25519, which are third-party: the record \<open>crypto\<close> carries them as functions, over an abstract type
  of signatures and of signing keys.
\<close>

type_synonym public = h256
type_synonym block_number = u64
type_synonym timestamp = u64

record sidechain_header =
  parent_hash :: h256
  header_number :: block_number
  shard_id :: shard_identifier
  block_data_hash :: h256
  next_finalization_block_number :: u64

record block_data =
  block_timestamp :: timestamp
  layer_one_head :: h256
  block_author :: public
  signed_top_hashes :: "h256 list"
  encrypted_state_diff :: bytes

record sidechain_block =
  header :: sidechain_header
  data :: block_data

record 's signed_block =
  block :: sidechain_block
  signature :: 's

record ('k, 's) crypto =
  header_hash :: "sidechain_header \<Rightarrow> h256"
  data_hash :: "block_data \<Rightarrow> h256"
  sign :: "'k \<Rightarrow> sidechain_block \<Rightarrow> 's"
  verify :: "'s \<Rightarrow> sidechain_block \<Rightarrow> public \<Rightarrow> bool"
  public_of :: "'k \<Rightarrow> public"

definition block_hash :: "('k, 's) crypto \<Rightarrow> sidechain_block \<Rightarrow> h256" where
  "block_hash c b = header_hash c (header b)"

definition signed_hash :: "('k, 's) crypto \<Rightarrow> 's signed_block \<Rightarrow> h256" where
  "signed_hash c sb = block_hash c (block sb)"

definition verify_signature :: "('k, 's) crypto \<Rightarrow> 's signed_block \<Rightarrow> bool" where
  "verify_signature c sb = verify c (signature sb) (block sb) (block_author (data (block sb)))"

definition sign_block :: "('k, 's) crypto \<Rightarrow> 'k \<Rightarrow> sidechain_block \<Rightarrow> 's signed_block" where
  "sign_block c signer b = \<lparr>block = b, signature = sign c signer b\<rparr>"

definition new_header :: "u64 \<Rightarrow> h256 \<Rightarrow> shard_identifier \<Rightarrow> h256 \<Rightarrow> u64 \<Rightarrow> sidechain_header" where
  "new_header number parent shard data_h next_fin =
     \<lparr>parent_hash = parent, header_number = number, shard_id = shard, block_data_hash = data_h,
      next_finalization_block_number = next_fin\<rparr>"

definition new_block_data :: "public \<Rightarrow> h256 \<Rightarrow> h256 list \<Rightarrow> bytes \<Rightarrow> timestamp \<Rightarrow> block_data" where
  "new_block_data author head tops payload ts =
     \<lparr>block_timestamp = ts, layer_one_head = head, block_author = author, signed_top_hashes = tops,
      encrypted_state_diff = payload\<rparr>"

abbreviation number_of :: "sidechain_block \<Rightarrow> u64" where
  "number_of b \<equiv> header_number (header b)"

abbreviation signed_number :: "'s signed_block \<Rightarrow> u64" where
  "signed_number sb \<equiv> number_of (block sb)"

text \<open>The only law of the signature scheme the development uses: what a key signs, its public key verifies.\<close>

definition signatures_verify :: "('k, 's) crypto \<Rightarrow> bool" where
  "signatures_verify c \<longleftrightarrow> (\<forall>k b. verify c (sign c k b) b (public_of c k))"

lemma verify_sign_block:
  "signatures_verify c \<Longrightarrow> block_author (data b) = public_of c k \<Longrightarrow> verify_signature c (sign_block c k b)"
  by (simp add: signatures_verify_def verify_signature_def sign_block_def)

end
