(* ===== verification/Sidechain_State.thy ===== *)
theory Sidechain_State
  imports Externalities Storage_Keys Sidechain_Primitives
begin

text \<open>
  The view of the runtime state the sidechain uses (sidechain/state): values stored under pallet and
  item names, the block number, the last block and its hash, the timestamp and the events. The SCALE
  codec of the stored types is a record of encoders and decoders.
\<close>

record scale =
  enc_u64 :: "u64 \<Rightarrow> bytes"
  dec_u64 :: "bytes \<Rightarrow> u64 option"
  enc_h256 :: "h256 \<Rightarrow> bytes"
  dec_h256 :: "bytes \<Rightarrow> h256 option"
  enc_block :: "sidechain_block \<Rightarrow> bytes"
  dec_block :: "bytes \<Rightarrow> sidechain_block option"

definition get_with_name :: "hashers \<Rightarrow> (bytes \<Rightarrow> 'v option) \<Rightarrow> string \<Rightarrow> string \<Rightarrow> sgx_externalities \<Rightarrow> 'v option" where
  "get_with_name h decode m s e = Option.bind (ext_get (storage_value_key h m s) e) decode"

definition set_with_name :: "hashers \<Rightarrow> ('v \<Rightarrow> bytes) \<Rightarrow> string \<Rightarrow> string \<Rightarrow> 'v \<Rightarrow> sgx_externalities \<Rightarrow> sgx_externalities" where
  "set_with_name h encode m s v e = snd (ext_insert (storage_value_key h m s) (encode v) e)"

definition clear_with_name :: "hashers \<Rightarrow> string \<Rightarrow> string \<Rightarrow> sgx_externalities \<Rightarrow> sgx_externalities" where
  "clear_with_name h m s e = snd (ext_remove (storage_value_key h m s) e)"

definition clear_prefix_with_name ::
  "hashers \<Rightarrow> string \<Rightarrow> string \<Rightarrow> sgx_externalities \<Rightarrow> kill_storage_result \<times> sgx_externalities" where
  "clear_prefix_with_name h m s e =
     (case ext_clear_prefix (storage_value_key h m s) None e of (n, e') \<Rightarrow> (AllRemoved n, e'))"

definition get_block_number :: "hashers \<Rightarrow> scale \<Rightarrow> sgx_externalities \<Rightarrow> u64 option" where
  "get_block_number h c = get_with_name h (dec_u64 c) ''System'' ''Number''"

definition set_block_number :: "hashers \<Rightarrow> scale \<Rightarrow> u64 \<Rightarrow> sgx_externalities \<Rightarrow> sgx_externalities" where
  "set_block_number h c = set_with_name h (enc_u64 c) ''System'' ''Number''"

definition get_last_block_hash :: "hashers \<Rightarrow> scale \<Rightarrow> sgx_externalities \<Rightarrow> h256 option" where
  "get_last_block_hash h c = get_with_name h (dec_h256 c) ''System'' ''LastHash''"

definition set_last_block_hash :: "hashers \<Rightarrow> scale \<Rightarrow> h256 \<Rightarrow> sgx_externalities \<Rightarrow> sgx_externalities" where
  "set_last_block_hash h c = set_with_name h (enc_h256 c) ''System'' ''LastHash''"

definition get_timestamp :: "hashers \<Rightarrow> scale \<Rightarrow> sgx_externalities \<Rightarrow> timestamp option" where
  "get_timestamp h c = get_with_name h (dec_u64 c) ''System'' ''Timestamp''"

definition set_timestamp :: "hashers \<Rightarrow> scale \<Rightarrow> timestamp \<Rightarrow> sgx_externalities \<Rightarrow> sgx_externalities" where
  "set_timestamp h c = set_with_name h (enc_u64 c) ''System'' ''Timestamp''"

definition reset_events :: "hashers \<Rightarrow> sgx_externalities \<Rightarrow> sgx_externalities" where
  "reset_events h e =
     snd (clear_prefix_with_name h ''System'' ''EventTopics''
       (clear_with_name h ''System'' ''EventCount'' (clear_with_name h ''System'' ''Events'' e)))"

definition get_last_block :: "hashers \<Rightarrow> scale \<Rightarrow> sgx_externalities \<Rightarrow> sidechain_block option" where
  "get_last_block h c = get_with_name h (dec_block c) ''System'' ''LastBlock''"

definition set_last_block ::
  "('k, 's) crypto \<Rightarrow> hashers \<Rightarrow> scale \<Rightarrow> sidechain_block \<Rightarrow> sgx_externalities \<Rightarrow> sgx_externalities" where
  "set_last_block cr h c b e =
     set_with_name h (enc_block c) ''System'' ''LastBlock'' b (set_last_block_hash h c (block_hash cr b) e)"

section \<open>Named values\<close>

definition system_names :: "string set" where
  "system_names = {''System'', ''Number'', ''LastHash'', ''LastBlock'', ''Timestamp'', ''Events'',
     ''EventCount'', ''EventTopics''}"

lemma system_names_mem [simp]:
  "''System'' \<in> system_names" "''Number'' \<in> system_names" "''LastHash'' \<in> system_names"
  "''LastBlock'' \<in> system_names" "''Timestamp'' \<in> system_names" "''Events'' \<in> system_names"
  "''EventCount'' \<in> system_names" "''EventTopics'' \<in> system_names"
  by (simp_all add: system_names_def)

definition scale_ok :: "scale \<Rightarrow> bool" where
  "scale_ok c \<longleftrightarrow> (\<forall>x. dec_u64 c (enc_u64 c x) = Some x) \<and> (\<forall>x. dec_h256 c (enc_h256 c x) = Some x)"

lemma ext_wf_insert [simp]: "ext_wf e \<Longrightarrow> ext_wf (snd (ext_insert k v e))"
  by (simp add: ext_wf_def ext_insert_def)

lemma ext_wf_remove [simp]: "ext_wf e \<Longrightarrow> ext_wf (snd (ext_remove k e))"
  by (simp add: ext_wf_def ext_remove_def)

lemma ext_wf_set_with_name [simp]: "ext_wf e \<Longrightarrow> ext_wf (set_with_name h enc m s v e)"
  by (simp add: set_with_name_def)

lemma ext_wf_set_last_block [simp]: "ext_wf e \<Longrightarrow> ext_wf (set_last_block cr h c b e)"
  by (simp add: set_last_block_def set_last_block_hash_def)

lemma get_set_with_name:
  assumes "keys_separate h names" "{m, s, m', s'} \<subseteq> names" "ext_wf e"
  shows "get_with_name h dec m' s' (set_with_name h enc m s v e)
    = (if m' = m \<and> s' = s then dec (enc v) else get_with_name h dec m' s' e)"
proof -
  have "storage_value_key h m' s' = storage_value_key h m s \<longleftrightarrow> m' = m \<and> s' = s"
    using assms(2) by (intro storage_value_key_eq_iff [OF assms(1)]) auto
  with assms(3) show ?thesis
    by (simp add: get_with_name_def set_with_name_def ext_get_def ext_insert_def ext_wf_def)
qed

lemma get_clear_with_name:
  assumes "keys_separate h names" "{m, s, m', s'} \<subseteq> names"
  shows "get_with_name h dec m' s' (clear_with_name h m s e)
    = (if m' = m \<and> s' = s then None else get_with_name h dec m' s' e)"
proof -
  have "storage_value_key h m' s' = storage_value_key h m s \<longleftrightarrow> m' = m \<and> s' = s"
    using assms(2) by (intro storage_value_key_eq_iff [OF assms(1)]) auto
  then show ?thesis
    by (simp add: get_with_name_def clear_with_name_def ext_get_def ext_remove_def)
qed

lemmas named_getters = get_block_number_def get_last_block_hash_def get_timestamp_def get_last_block_def
lemmas named_setters = set_block_number_def set_last_block_hash_def set_timestamp_def set_last_block_def

lemma get_reset_events:
  assumes "keys_separate h system_names" "ext_wf e" "s \<in> system_names"
    "s \<notin> {''Events'', ''EventCount'', ''EventTopics''}"
  shows "get_with_name h dec ''System'' s (reset_events h e) = get_with_name h dec ''System'' s e"
proof -
  let ?e1 = "clear_with_name h ''System'' ''Events'' e"
  let ?e2 = "clear_with_name h ''System'' ''EventCount'' ?e1"
  have wf: "ext_wf ?e2" using assms(2) by (simp add: clear_with_name_def)
  have "\<not> starts_with (storage_value_key h ''System'' ''EventTopics'') (storage_value_key h ''System'' s)"
    using assms(3,4) by (subst storage_value_key_prefix_iff [OF assms(1)]) auto
  then have "get_with_name h dec ''System'' s (reset_events h e) = get_with_name h dec ''System'' s ?e2"
    using bt_get_clear_prefix [OF wf, of "storage_value_key h ''System'' ''EventTopics''" None]
    by (simp add: reset_events_def clear_prefix_with_name_def get_with_name_def ext_get_def split_beta)
  also have "\<dots> = get_with_name h dec ''System'' s e"
    using assms(3,4) by (simp add: get_clear_with_name [OF assms(1)])
  finally show ?thesis .
qed

section \<open>Properties\<close>

text \<open>Storing the last block and reading it back returns that block, and the stored block hash is the
  hash of that block; neither the block number nor the timestamp changes, and resetting the events
  afterwards keeps all four values.\<close>
theorem last_block_roundtrip:
  assumes "keys_separate h system_names" "scale_ok c" "ext_wf e" "dec_block c (enc_block c b) = Some b"
    and "e' = set_last_block cr h c b e" "e'' \<in> {e', reset_events h e'}"
  shows "get_last_block h c e'' = Some b \<and> get_last_block_hash h c e'' = Some (block_hash cr b)
    \<and> get_block_number h c e'' = get_block_number h c e \<and> get_timestamp h c e'' = get_timestamp h c e"
proof -
  have wf: "ext_wf e'" using assms(3,5) by simp
  have same: "get_with_name h dec ''System'' s e'' = get_with_name h dec ''System'' s e'"
    if "s \<in> {''LastBlock'', ''LastHash'', ''Number'', ''Timestamp''}" for dec :: "bytes \<Rightarrow> 'v option" and s
    using assms(6) that get_reset_events [OF assms(1) wf, of s dec] by auto
  note set = get_set_with_name [OF assms(1)] assms(3,4)
  have scale: "dec_h256 c (enc_h256 c x) = Some x" for x using assms(2) by (simp add: scale_ok_def)
  show ?thesis
    by (simp add: same assms(5) named_getters named_setters set scale)
qed

text \<open>
  A concrete instance of the parameters, for evaluating the definitions: a hash that pads to 16 bytes,
  and a unary codec whose block decoder knows one block.
\<close>

definition pad_hashers :: hashers where
  "pad_hashers = \<lparr>twox_64 = take 8, twox_128 = (\<lambda>x. take 16 (x @ replicate 16 0)), twox_256 = id,
     blake2_128 = take 16, blake2_256 = id\<rparr>"

definition unary_scale :: "sidechain_block \<Rightarrow> scale" where
  "unary_scale b = \<lparr>enc_u64 = (\<lambda>x. replicate (unat x) 0), dec_u64 = (\<lambda>v. Some (of_nat (length v))),
     enc_h256 = (\<lambda>x. replicate (unat x) 0), dec_h256 = (\<lambda>v. Some (of_nat (length v))),
     enc_block = (\<lambda>_. [7]), dec_block = (\<lambda>_. Some b)\<rparr>"

lemma pad_hashers_separate [simp]: "keys_separate pad_hashers system_names"
  unfolding keys_separate_def system_names_def inj_on_def
  by (simp add: pad_hashers_def as_bytes_def min_def)

lemma unary_scale_ok [simp]: "scale_ok (unary_scale b)"
  by (simp add: scale_ok_def unary_scale_def)

definition example_block :: sidechain_block where
  "example_block = \<lparr>header = new_header 5 3 1 0 21, data = new_block_data 9 4 [] [] 100\<rparr>"

theorem last_block_roundtrip_witness:
  "(let cr = \<lparr>header_hash = \<lambda>h. ucast (header_number h), data_hash = \<lambda>_. 0, sign = \<lambda>_ _. (),
              verify = \<lambda>_ _ _. True, public_of = \<lambda>k. k\<rparr>;
        e = set_block_number pad_hashers (unary_scale example_block) 5 (ext_new []);
        e' = reset_events pad_hashers (set_last_block cr pad_hashers (unary_scale example_block) example_block e)
    in get_last_block pad_hashers (unary_scale example_block) e' = Some example_block
       \<and> get_last_block_hash pad_hashers (unary_scale example_block) e' = Some 5
       \<and> get_block_number pad_hashers (unary_scale example_block) e' = Some 5)"
proof -
  let ?cr = "\<lparr>header_hash = \<lambda>h. ucast (header_number h), data_hash = \<lambda>_. 0, sign = \<lambda>_ _. (),
              verify = \<lambda>_ _ _. True, public_of = \<lambda>k. k\<rparr>"
  let ?c = "unary_scale example_block"
  let ?e = "set_block_number pad_hashers ?c 5 (ext_new [])"
  have wf: "ext_wf (ext_new [])" "ext_wf ?e"
    by (simp_all add: ext_wf_def ext_new_def set_block_number_def set_with_name_def ext_insert_def bt_wf_Cons)
  have "get_block_number pad_hashers ?c ?e = Some 5"
    using wf(1) by (simp add: get_block_number_def set_block_number_def
        get_set_with_name [OF pad_hashers_separate]) (simp add: unary_scale_def)
  moreover have "dec_block ?c (enc_block ?c example_block) = Some example_block"
    by (simp add: unary_scale_def)
  ultimately show ?thesis
    using last_block_roundtrip [OF pad_hashers_separate unary_scale_ok wf(2) _ refl, where b = example_block and cr = ?cr]
    by (simp add: Let_def block_hash_def) (simp add: example_block_def new_header_def)
qed

end
