(* ===== verification/Block_Verification.thy ===== *)
theory Block_Verification
  imports Sidechain_Primitives
begin

text \<open>
  Verification of a sidechain block before it is imported (sidechain/block-verification): the slot of
  its timestamp, the author the slot belongs to, and the link to the last imported block. Durations
  are natural numbers of nanoseconds; dividing by a slot duration below a millisecond panics.
\<close>

section \<open>Slots and authors\<close>

type_synonym duration = nat
type_synonym slot = u64

definition as_millis :: "duration \<Rightarrow> nat" where
  "as_millis d = d div 1000000"

definition from_millis :: "nat \<Rightarrow> duration" where
  "from_millis n = n * 1000000"

definition slot_from_timestamp_and_duration :: "duration \<Rightarrow> duration \<Rightarrow> slot option" where
  "slot_from_timestamp_and_duration ts d =
     (if as_millis d = 0 then None else Some (of_nat (as_millis ts div as_millis d)))"

text \<open>The outer option is the panic of \<open>expect\<close>, the inner one the value the function returns.\<close>

definition slot_author :: "slot \<Rightarrow> 'a list \<Rightarrow> 'a option option" where
  "slot_author s authorities =
     (if authorities = [] then Some None
      else let idx = unat (s mod of_nat (length authorities))
           in if idx < length authorities then Some (Some (authorities ! idx)) else None)"

section \<open>Block verification\<close>

datatype consensus_error =
    InvalidAuthority public public
  | CouldNotGetAuthorities string
  | BadParentchainBlock h256 string
  | BadSidechainBlock h256 string
  | BlockAncestryMismatch block_number h256 string
  | InvalidFirstBlock block_number string
  | BlockAlreadyImported block_number block_number

definition verify_author ::
  "slot \<Rightarrow> sidechain_block \<Rightarrow> h256 \<Rightarrow> public list \<Rightarrow> (consensus_error, unit) result option" where
  "verify_author s b parentchain_head_hash authorities =
     (if parentchain_head_hash \<noteq> layer_one_head (data b)
      then Some (Err (BadParentchainBlock parentchain_head_hash ''Invalid parentchain head''))
      else case slot_author s authorities of
        None \<Rightarrow> None
      | Some None \<Rightarrow> Some (Err (CouldNotGetAuthorities ''No authorities found''))
      | Some (Some expected_author) \<Rightarrow>
          if expected_author = block_author (data b) then Some (Ok ())
          else Some (Err (InvalidAuthority expected_author (block_author (data b)))))"

definition verify_block_ancestry :: "('k, 's) crypto \<Rightarrow> sidechain_block \<Rightarrow> sidechain_block \<Rightarrow> (consensus_error, unit) result" where
  "verify_block_ancestry c b last_block =
     (if \<not> number_of b > number_of last_block
      then Err (BlockAlreadyImported (number_of b) (number_of last_block))
      else if number_of last_block + 1 \<noteq> number_of b
      then Err (BlockAncestryMismatch (number_of last_block) (block_hash c last_block) ''Invalid block number'')
      else if block_hash c last_block \<noteq> parent_hash (header b)
      then Err (BlockAncestryMismatch (number_of last_block) (block_hash c last_block) ''Parent hash does not match'')
      else Ok ())"

definition ensure_first_block :: "sidechain_block \<Rightarrow> (consensus_error, unit) result" where
  "ensure_first_block b =
     (if number_of b \<noteq> 1
      then Err (InvalidFirstBlock (number_of b) ''No last block found, expecting first block. But block to import has number != 1'')
      else if parent_hash (header b) \<noteq> 0
      then Err (InvalidFirstBlock (number_of b) ''No last block found, excepting first block. But block to import has parent_hash != 0'')
      else Ok ())"

definition verify_sidechain_block ::
  "('k, 's) crypto \<Rightarrow> 's signed_block \<Rightarrow> duration \<Rightarrow> sidechain_block option \<Rightarrow> h256 \<Rightarrow> public list
   \<Rightarrow> (consensus_error, 's signed_block) result option" where
  "verify_sidechain_block c sb slot_duration last_block parentchain_head_hash authorities =
     (if \<not> verify_signature c sb
      then Some (Err (BadSidechainBlock (block_hash c (block sb)) ''bad signature''))
      else case slot_from_timestamp_and_duration (from_millis (unat (block_timestamp (data (block sb))))) slot_duration of
        None \<Rightarrow> None
      | Some s \<Rightarrow>
          (case (case last_block of
                   Some l \<Rightarrow> verify_block_ancestry c (block sb) l
                 | None \<Rightarrow> ensure_first_block (block sb)) of
             Err e \<Rightarrow> Some (Err e)
           | Ok _ \<Rightarrow>
               (case verify_author s (block sb) parentchain_head_hash authorities of
                  None \<Rightarrow> None
                | Some (Err e) \<Rightarrow> Some (Err e)
                | Some (Ok _) \<Rightarrow> Some (Ok sb))))"

section \<open>Slot authors\<close>

lemma as_millis_from_millis [simp]: "as_millis (from_millis n) = n"
  by (simp add: as_millis_def from_millis_def)

lemma slot_author_nth:
  assumes "authorities \<noteq> []" "length authorities < 2 ^ 64"
  shows "slot_author s authorities = Some (Some (authorities ! (unat s mod length authorities)))"
proof -
  have "unat (s mod of_nat (length authorities)) = unat s mod length authorities"
    using assms(2) by (rule unat_mod_of_nat)
  moreover have "unat s mod length authorities < length authorities"
    using assms(1) by simp
  ultimately show ?thesis using assms(1) by (simp add: slot_author_def Let_def)
qed

lemma verify_author_Ok:
  assumes "length authorities < 2 ^ 64"
  shows "verify_author s b ph authorities = Some (Ok ()) \<longleftrightarrow>
    ph = layer_one_head (data b) \<and> authorities \<noteq> []
    \<and> block_author (data b) = authorities ! (unat s mod length authorities)"
proof (cases "authorities = []")
  case True
  then show ?thesis by (simp add: verify_author_def slot_author_def)
next
  case False
  with assms show ?thesis by (auto simp: verify_author_def slot_author_nth)
qed

lemma verify_author_defined:
  assumes "length authorities < 2 ^ 64"
  shows "\<exists>r. verify_author s b ph authorities = Some r"
  using assms by (cases "authorities = []") (auto simp: verify_author_def slot_author_nth, simp add: slot_author_def)

section \<open>Properties\<close>

text \<open>What it means for a block to extend a chain whose last block is given.\<close>

definition extends_chain :: "('k, 's) crypto \<Rightarrow> sidechain_block option \<Rightarrow> sidechain_block \<Rightarrow> bool" where
  "extends_chain c last_block b =
     (case last_block of
        None \<Rightarrow> number_of b = 1 \<and> parent_hash (header b) = 0
      | Some l \<Rightarrow> unat (number_of b) = Suc (unat (number_of l)) \<and> parent_hash (header b) = block_hash c l)"

lemma verify_block_ancestry_Ok:
  "verify_block_ancestry c b l = Ok () \<longleftrightarrow> extends_chain c (Some l) b"
  using succ_no_wrap [of "number_of l" "number_of b"]
  by (auto simp: verify_block_ancestry_def extends_chain_def)

lemma ensure_first_block_Ok: "ensure_first_block b = Ok () \<longleftrightarrow> extends_chain c None b"
  by (auto simp: ensure_first_block_def extends_chain_def)

lemma ancestry_Ok:
  "(case last_block of Some l \<Rightarrow> verify_block_ancestry c b l | None \<Rightarrow> ensure_first_block b) = Ok ()
   \<longleftrightarrow> extends_chain c last_block b"
  by (cases last_block) (simp_all add: verify_block_ancestry_Ok ensure_first_block_Ok)

lemma slot_of_timestamp:
  assumes "1000000 \<le> slot_duration"
  shows "slot_from_timestamp_and_duration (from_millis (unat (ts::u64))) slot_duration
    = Some (of_nat (unat ts div as_millis slot_duration))"
    and "unat (of_nat (unat ts div as_millis slot_duration) :: slot) = unat ts div as_millis slot_duration"
proof -
  have "as_millis slot_duration > 0" using assms by (simp add: as_millis_def div_greater_zero_iff)
  then show "slot_from_timestamp_and_duration (from_millis (unat ts)) slot_duration
      = Some (of_nat (unat ts div as_millis slot_duration))"
    by (simp add: slot_from_timestamp_and_duration_def)
  show "unat (of_nat (unat ts div as_millis slot_duration) :: slot) = unat ts div as_millis slot_duration"
    by (rule unat_of_nat_u64) (meson div_le_dividend le_less_trans unat_u64_less)
qed

lemma verify_block_exact:
  assumes "1000000 \<le> slot_duration" "length authorities < 2 ^ 64"
  shows "(\<exists>r. verify_sidechain_block c sb slot_duration last_block ph authorities = Some r)
    \<and> (verify_sidechain_block c sb slot_duration last_block ph authorities = Some (Ok sb')
       \<longleftrightarrow> sb' = sb \<and> verify_signature c sb \<and> extends_chain c last_block (block sb)
         \<and> ph = layer_one_head (data (block sb)) \<and> authorities \<noteq> []
         \<and> block_author (data (block sb)) =
             authorities ! (unat (block_timestamp (data (block sb))) div as_millis slot_duration mod length authorities))"
proof -
  let ?s = "of_nat (unat (block_timestamp (data (block sb))) div as_millis slot_duration) :: slot"
  let ?anc = "case last_block of Some l \<Rightarrow> verify_block_ancestry c (block sb) l | None \<Rightarrow> ensure_first_block (block sb)"
  note slot = slot_of_timestamp [OF assms(1), of "block_timestamp (data (block sb))"]
  obtain r where r: "verify_author ?s (block sb) ph authorities = Some r"
    using verify_author_defined [OF assms(2)] by blast
  show ?thesis
    using ancestry_Ok [where c = c and b = "block sb" and last_block = last_block] verify_author_Ok [OF assms(2), of ?s "block sb" ph] slot(2) r
    by (cases ?anc; cases r) (auto simp: verify_sidechain_block_def slot(1))
qed

text \<open>C5: Verification is exact. With a slot duration of at least a millisecond it never panics, and it
  accepts a signed block if and only if the signature verifies for the author named in the block, the
  block extends the last imported block (next number without wrap-around, matching parent hash; number
  one and zero parent hash when there is none), it builds on the given parentchain head, and its
  author is the authority that owns the slot of its timestamp.\<close>
theorem verify_sidechain_block_iff:
  assumes "1000000 \<le> slot_duration" "length authorities < 2 ^ 64"
  shows "(\<exists>r. verify_sidechain_block c sb slot_duration last_block ph authorities = Some r)
    \<and> (verify_sidechain_block c sb slot_duration last_block ph authorities = Some (Ok sb')
       \<longleftrightarrow> sb' = sb \<and> verify_signature c sb \<and> extends_chain c last_block (block sb)
         \<and> ph = layer_one_head (data (block sb)) \<and> authorities \<noteq> []
         \<and> block_author (data (block sb)) =
             authorities ! (unat (block_timestamp (data (block sb))) div as_millis slot_duration mod length authorities))"
  using verify_block_exact [OF assms] by blast

theorem verify_sidechain_block_iff_witness:
  "(let c = \<lparr>header_hash = \<lambda>h. ucast (header_number h) + 40, data_hash = \<lambda>_. 0, sign = \<lambda>k _. k,
             verify = \<lambda>s _ p. s = p, public_of = \<lambda>k. k\<rparr>;
        l = \<lparr>header = new_header 6 7 1 0 21, data = new_block_data 9 4 [] [] 100\<rparr>;
        sb = \<lparr>block = \<lparr>header = new_header 7 46 1 0 21, data = new_block_data 12 5 [] [] 2500\<rparr>, signature = 12\<rparr>
    in verify_sidechain_block c sb (from_millis 1000) (Some l) 5 [10, 11, 12] = Some (Ok sb))"
  unfolding Let_def
  by (subst verify_sidechain_block_iff [THEN conjunct2])
    (simp_all add: from_millis_def as_millis_def verify_signature_def extends_chain_def block_hash_def
      new_header_def new_block_data_def)

text \<open>A correctly signed block that is not newer than the last imported block is always reported as
  already imported, whatever its author, parentchain head or parent hash.\<close>
theorem verify_already_imported:
  assumes "verify_signature c sb" "1000000 \<le> slot_duration"
    and "number_of (block sb) \<le> number_of l"
  shows "verify_sidechain_block c sb slot_duration (Some l) ph authorities
    = Some (Err (BlockAlreadyImported (number_of (block sb)) (number_of l)))"
  using assms slot_of_timestamp(1) [OF assms(2), of "block_timestamp (data (block sb))"]
  by (simp add: verify_sidechain_block_def verify_block_ancestry_def not_less)

theorem verify_already_imported_witness:
  "(let c = \<lparr>header_hash = \<lambda>h. ucast (header_number h), data_hash = \<lambda>_. 0, sign = \<lambda>k _. k,
             verify = \<lambda>s _ p. s = p, public_of = \<lambda>k. k\<rparr>;
        l = \<lparr>header = new_header 6 7 1 0 21, data = new_block_data 9 4 [] [] 100\<rparr>;
        sb = \<lparr>block = \<lparr>header = new_header 6 1 1 0 21, data = new_block_data 12 5 [] [] 2500\<rparr>, signature = 12\<rparr>
    in verify_sidechain_block c sb (from_millis 1000) (Some l) 77 [] = Some (Err (BlockAlreadyImported 6 6)))"
  unfolding Let_def
  by (subst verify_already_imported)
    (simp_all add: verify_signature_def from_millis_def new_header_def new_block_data_def)

text \<open>C25: Slots rotate through the authorities: over any window of as many consecutive slots as there are
  authorities, the authors are the authority list rotated by the first slot, so every authority
  authors exactly one slot of the window.\<close>
theorem slot_author_round_robin:
  assumes "authorities \<noteq> []" "unat s + length authorities \<le> 2 ^ 64" "length authorities < 2 ^ 64"
  shows "map (\<lambda>i. slot_author (s + of_nat i) authorities) [0..<length authorities]
    = map (\<lambda>a. Some (Some a)) (rotate (unat s) authorities)"
proof (rule nth_equalityI)
  fix i
  assume "i < length (map (\<lambda>i. slot_author (s + of_nat i) authorities) [0..<length authorities])"
  then have i: "i < length authorities" by simp
  then have "unat (s + of_nat i) = unat s + i"
    using assms by (simp add: unat_plus_u64 unat_of_nat_u64)
  with i assms show "map (\<lambda>i. slot_author (s + of_nat i) authorities) [0..<length authorities] ! i
      = map (\<lambda>a. Some (Some a)) (rotate (unat s) authorities) ! i"
    by (simp add: slot_author_nth nth_rotate)
qed simp

theorem slot_author_round_robin_witness:
  "map (\<lambda>s. slot_author s ''abc'') [5, 6, 7] = map (\<lambda>a. Some (Some a)) ''cab''"
  using slot_author_round_robin [of "''abc''" 5] by (simp add: rotate_drop_take)

end
