(* ===== verification/Block_Composer.thy ===== *)
theory Block_Composer
  imports Sidechain_State Block_Verification
begin

text \<open>
  Composition of a sidechain block from an executed state (sidechain/block-composer) and the
  confirmation of imported blocks to the parentchain (consensus/common, block_import_confirmation_handler).

  The record \<open>chain_env\<close> gathers what comes from other crates: hashing and signing, the storage key
  hashers, the SCALE codec of stored values and of state payloads, the state hash, and the state key
  with its cipher. Key retrieval and encryption may fail.
\<close>

record ('k, 's, 'key) chain_env =
  env_crypto :: "('k, 's) crypto"
  env_hashers :: hashers
  env_scale :: scale
  env_state_hash :: "(bytes, bytes) btree_map \<Rightarrow> h256"
  enc_update :: "state_update \<Rightarrow> bytes"
  dec_update :: "bytes \<Rightarrow> state_update option"
  retrieve_key :: "'key option"
  encrypt :: "'key \<Rightarrow> bytes \<Rightarrow> bytes option"
  decrypt :: "'key \<Rightarrow> bytes \<Rightarrow> bytes option"

datatype composer_error = ComposerOther string

definition BLOCK_NUMBER_FINALIZATION_DIFF :: u64 where
  "BLOCK_NUMBER_FINALIZATION_DIFF = 20"

definition finalization_candidate :: "u64 \<Rightarrow> u64 \<Rightarrow> u64" where
  "finalization_candidate block_number next_finalization =
     (if block_number = 1 then 1
      else if block_number > next_finalization then next_finalization + BLOCK_NUMBER_FINALIZATION_DIFF
      else next_finalization)"

definition compose_block ::
  "('k, 's, 'key) chain_env \<Rightarrow> 'k \<Rightarrow> timestamp \<Rightarrow> h256 \<Rightarrow> h256 list \<Rightarrow> shard_identifier \<Rightarrow> h256
   \<Rightarrow> sgx_externalities \<Rightarrow> (composer_error, 's signed_block) result" where
  "compose_block env signer now_millis parentchain_header_hash top_call_hashes shard apriori aposteriori_state =
     (let c = env_crypto env;
          state_hash_new = env_state_hash env (state aposteriori_state);
          (number, parent, next_fin) =
            (case get_last_block (env_hashers env) (env_scale env) aposteriori_state of
               Some b \<Rightarrow> (number_of b + 1, block_hash c b, next_finalization_block_number (header b))
             | None \<Rightarrow> (1, 0, 1))
      in if number \<noteq> (case get_block_number (env_hashers env) (env_scale env) aposteriori_state of None \<Rightarrow> 0 | Some n \<Rightarrow> n)
         then Err (ComposerOther ''[Sidechain] BlockNumber is not LastBlock's Number + 1'')
         else let payload = enc_update env \<lparr>state_hash_apriori = apriori, state_hash_aposteriori = state_hash_new,
                                             update_diff = state_diff aposteriori_state\<rparr>
         in case retrieve_key env of
              None \<Rightarrow> Err (ComposerOther ''Failed to retrieve state key'')
            | Some key \<Rightarrow>
                (case encrypt env key payload of
                   None \<Rightarrow> Err (ComposerOther ''Failed to encrypt state payload'')
                 | Some encrypted \<Rightarrow>
                     let d = new_block_data (public_of c signer) parentchain_header_hash top_call_hashes encrypted now_millis;
                         hd = new_header number parent shard (data_hash c d) (finalization_candidate number next_fin)
                     in Ok (sign_block c signer \<lparr>header = hd, data = d\<rparr>)))"

section \<open>Confirmation of imported blocks\<close>

record sidechain_block_confirmation =
  confirmation_number :: u64
  confirmation_hash :: h256

datatype confirm_error = MetadataError string | ExtrinsicError string | SendError string

text \<open>
  \<open>call_indexes\<close> is the metadata lookup, \<open>create\<close> the extrinsics factory and \<open>send\<close> the validator; the
  last two act on the state \<open>'w\<close> of the light client and the nonce cache.
\<close>

record ('w, 'x) confirm_env =
  call_indexes :: "(string, u8 \<times> u8) result"
  create_extrinsics :: "(u8 \<times> u8) \<Rightarrow> shard_identifier \<Rightarrow> sidechain_block_confirmation option
    \<Rightarrow> sidechain_block_confirmation \<Rightarrow> 'w \<Rightarrow> (string, 'x list) result \<times> 'w"
  send_extrinsics :: "'x list \<Rightarrow> 'w \<Rightarrow> (string, unit) result \<times> 'w"

definition confirm_import ::
  "('k, 's) crypto \<Rightarrow> ('w, 'x) confirm_env \<Rightarrow> sidechain_header \<Rightarrow> shard_identifier
   \<Rightarrow> sidechain_block_confirmation option \<Rightarrow> 'w \<Rightarrow> (confirm_error, unit) result \<times> 'w" where
  "confirm_import c env h shard last_confirmation w =
     (if header_number h = next_finalization_block_number h
      then case call_indexes env of
             Err e \<Rightarrow> (Err (MetadataError e), w)
           | Ok call \<Rightarrow>
               (case create_extrinsics env call shard last_confirmation
                       \<lparr>confirmation_number = next_finalization_block_number h + BLOCK_NUMBER_FINALIZATION_DIFF,
                        confirmation_hash = header_hash c h\<rparr> w of
                  (Err e, w') \<Rightarrow> (Err (ExtrinsicError e), w')
                | (Ok xts, w') \<Rightarrow>
                    (case send_extrinsics env xts w' of
                       (Err e, w'') \<Rightarrow> (Err (SendError e), w'')
                     | (Ok _, w'') \<Rightarrow> (Ok (), w'')))
      else (Ok (), w))"

section \<open>What a composed block looks like\<close>

lemma compose_block_fields:
  assumes "compose_block env signer now ph tops shard apriori e = Ok sb"
    and "prev = get_last_block (env_hashers env) (env_scale env) e"
  shows "signed_number sb = (case prev of None \<Rightarrow> 1 | Some b \<Rightarrow> number_of b + 1)"
    and "parent_hash (header (block sb)) = (case prev of None \<Rightarrow> 0 | Some b \<Rightarrow> block_hash (env_crypto env) b)"
    and "next_finalization_block_number (header (block sb)) = finalization_candidate (signed_number sb)
      (case prev of None \<Rightarrow> 1 | Some b \<Rightarrow> next_finalization_block_number (header b))"
    and "shard_id (header (block sb)) = shard"
    and "block_data_hash (header (block sb)) = data_hash (env_crypto env) (data (block sb))"
    and "block_author (data (block sb)) = public_of (env_crypto env) signer"
    and "layer_one_head (data (block sb)) = ph"
    and "block_timestamp (data (block sb)) = now"
    and "sb = sign_block (env_crypto env) signer (block sb)"
    and "\<exists>key. retrieve_key env = Some key \<and> encrypt env key (enc_update env
        \<lparr>state_hash_apriori = apriori, state_hash_aposteriori = env_state_hash env (state e),
         update_diff = state_diff e\<rparr>) = Some (encrypted_state_diff (data (block sb)))"
  using assms
  by (auto simp: compose_block_def Let_def sign_block_def new_header_def new_block_data_def
      split: option.splits if_splits)

lemma compose_block_extends:
  assumes "compose_block env signer now ph tops shard apriori e = Ok sb"
    and "prev = get_last_block (env_hashers env) (env_scale env) e"
    and "\<And>b. prev = Some b \<Longrightarrow> unat (number_of b) < 2 ^ 64 - 1"
  shows "extends_chain (env_crypto env) prev (block sb)"
  using compose_block_fields(1,2) [OF assms(1,2)] assms(3)
  by (auto simp: extends_chain_def unat_plus_one_u64 split: option.splits)

section \<open>Chains of composed blocks\<close>

text \<open>
  \<open>composed_chain env bs\<close>: the blocks \<open>bs\<close> were composed one after the other, each on a state whose
  last block is its predecessor.
\<close>

inductive composed_chain :: "('k, 's, 'key) chain_env \<Rightarrow> 's signed_block list \<Rightarrow> bool" for env where
  composed_Nil: "composed_chain env []"
| composed_snoc: "composed_chain env bs \<Longrightarrow>
    get_last_block (env_hashers env) (env_scale env) e = (if bs = [] then None else Some (block (last bs))) \<Longrightarrow>
    compose_block env signer now ph tops shard apriori e = Ok sb \<Longrightarrow>
    composed_chain env (bs @ [sb])"

lemma finalization_arith:
  fixes i :: nat
  assumes "0 < i"
  shows "(if 20 * ((i + 18) div 20) < i then 20 + 20 * ((i + 18) div 20) else 20 * ((i + 18) div 20)) = 20 * ((i + 19) div 20)"
proof -
  obtain q r where i: "i = Suc (20 * q + r)" and r: "r < 20"
    using assms by (metis Suc_pred mod_less_divisor mult_div_mod_eq zero_less_numeral)
  show ?thesis
  proof (cases r)
    case 0
    then show ?thesis using i by simp
  next
    case (Suc k)
    then have "(i + 18) div 20 = Suc q" "(i + 19) div 20 = Suc q" using i r by simp_all
    then show ?thesis using i r by simp
  qed
qed
lemma finalization_own: "Suc i = 20 * ((i + 19) div 20) + 1 \<longleftrightarrow> i mod 20 = (0::nat)"
  by presburger

lemma finalization_step:
  assumes "unat n = i" "unat f = 20 * ((i + 18) div 20) + 1" "i < 2 ^ 64 - 100" "0 < i"
  shows "unat (finalization_candidate (n + 1) f) = 20 * ((i + 19) div 20) + 1"
proof -
  have n: "unat (n + 1) = Suc i" using assms(1,3) by (simp add: unat_plus_one_u64)
  then have "n + 1 \<noteq> 1" using assms(4) by auto
  moreover have "f < n + 1 \<longleftrightarrow> 20 * ((i + 18) div 20) < i"
    using n assms(2) by (simp add: word_less_nat_alt)
  moreover have "unat (f + BLOCK_NUMBER_FINALIZATION_DIFF) = 20 * ((i + 18) div 20) + 21"
    using assms(2,3) by (simp add: unat_plus_u64 BLOCK_NUMBER_FINALIZATION_DIFF_def)
  ultimately show ?thesis
    using assms(2) finalization_arith [OF assms(4)] by (simp add: finalization_candidate_def split: if_splits)
qed

lemma composed_chain_numbers:
  assumes "composed_chain env bs" "length bs < 2 ^ 64 - 100" "i < length bs"
  shows "unat (signed_number (bs ! i)) = Suc i
    \<and> unat (next_finalization_block_number (header (block (bs ! i)))) = 20 * ((i + 19) div 20) + 1"
  using assms
proof (induction arbitrary: i rule: composed_chain.induct)
  case composed_Nil
  then show ?case by simp
next
  case (composed_snoc bs e signer now ph tops shard apriori sb)
  show ?case
  proof (cases "i < length bs")
    case True
    with composed_snoc show ?thesis by (simp add: nth_append)
  next
    case False
    with composed_snoc.prems have i: "i = length bs" by simp
    note b = compose_block_fields(1,3) [OF composed_snoc.hyps(3) composed_snoc.hyps(2) [symmetric]]
    show ?thesis
    proof (cases "bs = []")
      case True
      with b i show ?thesis
        by (simp add: finalization_candidate_def)
    next
      case ne: False
      then obtain k where k: "length bs = Suc k" by (cases bs) auto
      have "unat (signed_number (last bs)) = Suc k"
        "unat (next_finalization_block_number (header (block (last bs)))) = 20 * ((Suc k + 18) div 20) + 1"
        using composed_snoc.IH [of k] composed_snoc.prems k ne by (simp_all add: last_conv_nth)
      then show ?thesis
        using finalization_step [of "signed_number (last bs)" "Suc k"] composed_snoc.prems b i k ne
        by (simp add: unat_plus_one_u64 nth_append)
    qed
  qed
qed

section \<open>Properties\<close>

text \<open>C8: A freshly composed block is accepted: if composition succeeds on a state, the composing key owns
  the slot of the block's timestamp, and the block number has not reached the end of its range, then
  verification against the same last block and parentchain head accepts the block.\<close>
theorem composed_block_verifies:
  assumes "compose_block env signer now ph tops shard apriori e = Ok sb"
    and "signatures_verify (env_crypto env)"
    and "\<And>b. get_last_block (env_hashers env) (env_scale env) e = Some b \<Longrightarrow> unat (number_of b) < 2 ^ 64 - 1"
    and "1000000 \<le> slot_duration" "authorities \<noteq> []" "length authorities < 2 ^ 64"
    and "authorities ! (unat now div as_millis slot_duration mod length authorities) = public_of (env_crypto env) signer"
  shows "verify_sidechain_block (env_crypto env) sb slot_duration
      (get_last_block (env_hashers env) (env_scale env) e) ph authorities = Some (Ok sb)"
proof -
  have ext: "extends_chain (env_crypto env) (get_last_block (env_hashers env) (env_scale env) e) (block sb)"
    using compose_block_extends [OF assms(1) refl assms(3)] by blast
  have sig: "verify_signature (env_crypto env) sb"
    using verify_sign_block [OF assms(2)] compose_block_fields(6,9) [OF assms(1) refl] by metis
  show ?thesis
    using sig ext assms(5,7) compose_block_fields(6-8) [OF assms(1) refl]
    by (simp add: verify_block_exact [OF assms(4,6)])
qed


text \<open>A concrete environment and the genesis state, on which the first block is composed.\<close>

definition example_env :: "(h256, h256, unit) chain_env" where
  "example_env = \<lparr>env_crypto = \<lparr>header_hash = \<lambda>h. ucast (header_number h) + 40, data_hash = \<lambda>_. 3,
       sign = \<lambda>k _. k, verify = \<lambda>s _ p. s = p, public_of = \<lambda>k. k\<rparr>,
     env_hashers = pad_hashers, env_scale = unary_scale example_block, env_state_hash = \<lambda>s. of_nat (length s),
     enc_update = \<lambda>u. [8], dec_update = \<lambda>_. None, retrieve_key = Some (),
     encrypt = \<lambda>_ p. Some (p @ p), decrypt = \<lambda>_ p. Some p\<rparr>"

definition genesis_state :: sgx_externalities where
  "genesis_state = set_block_number pad_hashers (unary_scale example_block) 1 (ext_new [])"

definition first_block :: "h256 signed_block" where
  "first_block = \<lparr>block = \<lparr>header = new_header 1 0 2 3 1, data = new_block_data 12 5 [6] [8, 8] 2500\<rparr>, signature = 12\<rparr>"

lemma genesis_last_block: "get_last_block pad_hashers (unary_scale example_block) genesis_state = None"
proof -
  have "ext_wf (ext_new [])" by (simp add: ext_wf_def ext_new_def)
  then have "get_last_block pad_hashers (unary_scale example_block) genesis_state
      = get_last_block pad_hashers (unary_scale example_block) (ext_new [])"
    by (simp add: genesis_state_def get_last_block_def set_block_number_def
        get_set_with_name [OF pad_hashers_separate])
  then show ?thesis by (simp add: get_last_block_def get_with_name_def ext_get_def ext_new_def)
qed

lemma genesis_block_number: "get_block_number pad_hashers (unary_scale example_block) genesis_state = Some 1"
proof -
  have "ext_wf (ext_new [])" by (simp add: ext_wf_def ext_new_def)
  then show ?thesis
    by (simp add: genesis_state_def get_block_number_def set_block_number_def
        get_set_with_name [OF pad_hashers_separate]) (simp add: unary_scale_def)
qed

lemma first_block_composed: "compose_block example_env 12 2500 5 [6] 2 7 genesis_state = Ok first_block"
  by (simp add: compose_block_def example_env_def genesis_last_block genesis_block_number Let_def
      first_block_def sign_block_def finalization_candidate_def)

theorem composed_block_verifies_witness:
  "verify_sidechain_block (env_crypto example_env) first_block (from_millis 1000) None 5 [10, 11, 12] = Some (Ok first_block)"
  using composed_block_verifies [OF first_block_composed, of "from_millis 1000" "[10, 11, 12]"]
  by (simp add: example_env_def signatures_verify_def genesis_last_block from_millis_def as_millis_def)


end
