(* ===== verification/State_File_Io.thy ===== *)
theory State_File_Io
  imports Externalities
begin

text \<open>
  Where state snapshots are kept (core-primitives/stf-state-handler, file_io.rs and
  in_memory_state_file_io.rs). The trait StateFileIo is the record \<open>file_io_ops\<close>; its two providers, the
  encrypted files of the enclave and the in-memory directory, interpret the locale \<open>state_files\<close>, which
  states what the snapshot repository relies on.
\<close>

type_synonym state_id = nat

datatype handler_error =
    EmptyRepository | InvalidStateId state_id | InvalidShard shard_identifier
  | StateNotFoundInRepository | StateObserverError | ZeroCacheSize | LockPoisoning
  | OsStringConversion | CryptoError | IOError | HandlerSgxError | HandlerOther

record ('io, 'st, 'h) file_io_ops =
  io_load :: "shard_identifier \<Rightarrow> state_id \<Rightarrow> 'io \<Rightarrow> (handler_error, 'st) result"
  io_compute_hash :: "shard_identifier \<Rightarrow> state_id \<Rightarrow> 'io \<Rightarrow> (handler_error, 'h) result"
  io_initialize_shard :: "shard_identifier \<Rightarrow> state_id \<Rightarrow> 'st \<Rightarrow> 'io \<Rightarrow> (handler_error, 'h) result \<times> 'io"
  io_write :: "shard_identifier \<Rightarrow> state_id \<Rightarrow> 'st \<Rightarrow> 'io \<Rightarrow> (handler_error, 'h) result \<times> 'io"
  io_remove :: "shard_identifier \<Rightarrow> state_id \<Rightarrow> 'io \<Rightarrow> (handler_error, unit) result \<times> 'io"
  io_shard_exists :: "shard_identifier \<Rightarrow> 'io \<Rightarrow> bool"
  io_list_shards :: "'io \<Rightarrow> (handler_error, shard_identifier list) result"
  io_list_state_ids :: "shard_identifier \<Rightarrow> 'io \<Rightarrow> (handler_error, state_id list) result"

section \<open>In-memory directory\<close>

text \<open>The instance for externalities: only the state part is kept, the diff is dropped.\<close>

record memory_io =
  emulated_shard_directory :: "(shard_identifier, (state_id, h256 \<times> (bytes, bytes) btree_map) hmap) hmap"
  directory_poisoned :: bool

definition mem_load :: "shard_identifier \<Rightarrow> state_id \<Rightarrow> memory_io \<Rightarrow> (handler_error, sgx_externalities) result" where
  "mem_load shard sid io =
     (if directory_poisoned io then Err LockPoisoning
      else case hget (emulated_shard_directory io) shard of
        None \<Rightarrow> Err (InvalidShard shard)
      | Some states \<Rightarrow>
          (case hget states sid of
             None \<Rightarrow> Err (InvalidStateId sid)
           | Some (_, s) \<Rightarrow> Ok (ext_new s)))"

definition mem_compute_hash ::
  "((bytes, bytes) btree_map \<Rightarrow> h256) \<Rightarrow> shard_identifier \<Rightarrow> state_id \<Rightarrow> memory_io \<Rightarrow> (handler_error, h256) result" where
  "mem_compute_hash H shard sid io =
     (case mem_load shard sid io of Err e \<Rightarrow> Err e | Ok e \<Rightarrow> Ok (H (state e)))"

definition shard_directory :: "shard_identifier \<Rightarrow> memory_io \<Rightarrow> (state_id, h256 \<times> (bytes, bytes) btree_map) hmap" where
  "shard_directory shard io =
     (case hget (emulated_shard_directory io) shard of None \<Rightarrow> [] | Some d \<Rightarrow> d)"

definition mem_initialize_shard ::
  "((bytes, bytes) btree_map \<Rightarrow> h256) \<Rightarrow> shard_identifier \<Rightarrow> state_id \<Rightarrow> sgx_externalities \<Rightarrow> memory_io
   \<Rightarrow> (handler_error, h256) result \<times> memory_io" where
  "mem_initialize_shard H shard sid e io =
     (if directory_poisoned io then (Err LockPoisoning, io)
      else let d = shard_directory shard io;
               entry = (case hget d sid of Some x \<Rightarrow> x | None \<Rightarrow> (H (state e), state e))
           in (Ok (fst entry),
               io\<lparr>emulated_shard_directory := hput shard (hput sid entry d) (emulated_shard_directory io)\<rparr>))"

definition mem_write ::
  "((bytes, bytes) btree_map \<Rightarrow> h256) \<Rightarrow> shard_identifier \<Rightarrow> state_id \<Rightarrow> sgx_externalities \<Rightarrow> memory_io
   \<Rightarrow> (handler_error, h256) result \<times> memory_io" where
  "mem_write H shard sid e io =
     (if directory_poisoned io then (Err LockPoisoning, io)
      else (Ok (H (state e)),
            io\<lparr>emulated_shard_directory :=
                hput shard (hput sid (H (state e), state e) (shard_directory shard io)) (emulated_shard_directory io)\<rparr>))"

definition mem_remove :: "shard_identifier \<Rightarrow> state_id \<Rightarrow> memory_io \<Rightarrow> (handler_error, unit) result \<times> memory_io" where
  "mem_remove shard sid io =
     (if directory_poisoned io then (Err LockPoisoning, io)
      else case hget (emulated_shard_directory io) shard of
        None \<Rightarrow> (Err (InvalidShard shard), io)
      | Some states \<Rightarrow>
          (case hget states sid of
             None \<Rightarrow> (Err (InvalidStateId sid), io)
           | Some _ \<Rightarrow>
               (Ok (), io\<lparr>emulated_shard_directory := hput shard (hdel sid states) (emulated_shard_directory io)\<rparr>)))"

definition mem_shard_exists :: "shard_identifier \<Rightarrow> memory_io \<Rightarrow> bool" where
  "mem_shard_exists shard io \<longleftrightarrow> hget (emulated_shard_directory io) shard \<noteq> None"

definition mem_list_shards :: "memory_io \<Rightarrow> (handler_error, shard_identifier list) result" where
  "mem_list_shards io =
     (if directory_poisoned io then Err LockPoisoning else Ok (map fst (emulated_shard_directory io)))"

definition mem_list_state_ids :: "shard_identifier \<Rightarrow> memory_io \<Rightarrow> (handler_error, state_id list) result" where
  "mem_list_state_ids shard io =
     (if directory_poisoned io then Err LockPoisoning
      else case hget (emulated_shard_directory io) shard of
        None \<Rightarrow> Err (InvalidShard shard)
      | Some states \<Rightarrow> Ok (map fst states))"

definition mem_ops :: "((bytes, bytes) btree_map \<Rightarrow> h256) \<Rightarrow> (memory_io, sgx_externalities, h256) file_io_ops" where
  "mem_ops H = \<lparr>io_load = mem_load, io_compute_hash = mem_compute_hash H,
     io_initialize_shard = mem_initialize_shard H, io_write = mem_write H, io_remove = mem_remove,
     io_shard_exists = mem_shard_exists, io_list_shards = mem_list_shards, io_list_state_ids = mem_list_state_ids\<rparr>"

section \<open>Snapshot file names\<close>

definition ENCRYPTED_STATE_FILE :: string where
  "ENCRYPTED_STATE_FILE = ''state.bin''"

definition digit_char :: "nat \<Rightarrow> char" where
  "digit_char d = char_of (48 + d)"

definition char_digit :: "char \<Rightarrow> nat option" where
  "char_digit c = (let n = of_char c in if 48 \<le> n \<and> n < (58::nat) then Some (n - 48) else None)"

fun show_nat :: "nat \<Rightarrow> string" where
  "show_nat n = (if n < 10 then [digit_char n] else show_nat (n div 10) @ [digit_char (n mod 10)])"

declare show_nat.simps [simp del]

fun parse_digits :: "nat \<Rightarrow> string \<Rightarrow> nat option" where
  "parse_digits acc [] = Some acc"
| "parse_digits acc (c # cs) =
     (case char_digit c of
        None \<Rightarrow> None
      | Some d \<Rightarrow> if acc * 10 + d < 2 ^ 128 then parse_digits (acc * 10 + d) cs else None)"

definition parse_u128 :: "string \<Rightarrow> nat option" where
  "parse_u128 cs =
     (if cs = [] \<or> cs = ''+'' then None
      else parse_digits 0 (if hd cs = CHR ''+'' then tl cs else cs))"

definition to_file_name :: "state_id \<Rightarrow> string" where
  "to_file_name sid = show_nat sid @ ''_'' @ ENCRYPTED_STATE_FILE"

definition strip_suffix :: "string \<Rightarrow> string \<Rightarrow> string option" where
  "strip_suffix suffix s =
     (if length suffix \<le> length s \<and> drop (length s - length suffix) s = suffix
      then Some (take (length s - length suffix) s) else None)"

definition extract_state_id_from_file_name :: "string \<Rightarrow> state_id option" where
  "extract_state_id_from_file_name file_name =
     Option.bind (strip_suffix (''_'' @ ENCRYPTED_STATE_FILE) file_name) parse_u128"

lemma char_digit_digit_char [simp]: "d < 10 \<Longrightarrow> char_digit (digit_char d) = Some d"
  by (simp add: char_digit_def digit_char_def Let_def)

lemma parse_digits_append:
  "parse_digits acc (xs @ ys) = Option.bind (parse_digits acc xs) (\<lambda>a. parse_digits a ys)"
  by (induction xs arbitrary: acc) (auto split: option.split)

lemma parse_digits_show_nat: "n < 2 ^ 128 \<Longrightarrow> parse_digits 0 (show_nat n) = Some n"
proof (induction n rule: show_nat.induct)
  case (1 n)
  show ?case
  proof (cases "n < 10")
    case True
    then show ?thesis using 1 by (simp add: show_nat.simps [of n])
  next
    case False
    moreover have "n div 10 < 2 ^ 128" using 1(2) by linarith
    ultimately show ?thesis
      using 1 by (subst show_nat.simps) (simp add: parse_digits_append)
  qed
qed

lemma show_nat_nonempty [simp]: "show_nat n \<noteq> []"
  by (subst show_nat.simps) simp

lemma char_digit_plus: "char_digit CHR ''+'' = None"
  by (simp add: char_digit_def)

lemma digit_char_not_plus: "d < 10 \<Longrightarrow> digit_char d \<noteq> CHR ''+''"
  by (metis char_digit_digit_char char_digit_plus option.distinct(1))

lemma hd_show_nat: "hd (show_nat n) \<noteq> CHR ''+''"
proof (induction n rule: show_nat.induct)
  case (1 n)
  then show ?case
    by (cases "n < 10") (subst show_nat.simps, simp add: digit_char_not_plus)+
qed

lemma parse_u128_show_nat: "n < 2 ^ 128 \<Longrightarrow> parse_u128 (show_nat n) = Some n"
  using hd_show_nat [of n] by (auto simp: parse_u128_def parse_digits_show_nat)

lemma extract_to_file_name: "sid < 2 ^ 128 \<Longrightarrow> extract_state_id_from_file_name (to_file_name sid) = Some sid"
  by (simp add: extract_state_id_from_file_name_def to_file_name_def strip_suffix_def parse_u128_show_nat)

section \<open>Encrypted state files\<close>

text \<open>
  The state directory: one directory per shard, named by the base58 encoding of the shard, with the
  encrypted snapshot files in it. \<open>fs_fails\<close> stands for a file system that refuses every access. The
  cipher, the key repository, the codec of the state map and base58 are parameters.
\<close>

record 'key file_env =
  state_key :: "'key option"
  key_encrypt :: "'key \<Rightarrow> bytes \<Rightarrow> bytes option"
  key_decrypt :: "'key \<Rightarrow> bytes \<Rightarrow> bytes option"
  enc_state :: "(bytes, bytes) btree_map \<Rightarrow> bytes"
  dec_state :: "bytes \<Rightarrow> (bytes, bytes) btree_map option"
  to_base58 :: "shard_identifier \<Rightarrow> string"
  shard_from_base58 :: "string \<Rightarrow> shard_identifier option"
  file_state_hash :: "(bytes, bytes) btree_map \<Rightarrow> h256"

record state_dir =
  shard_dirs :: "(string, (string, bytes) hmap) hmap"
  fs_fails :: bool

definition state_file :: "'key file_env \<Rightarrow> shard_identifier \<Rightarrow> state_id \<Rightarrow> state_dir \<Rightarrow> bytes option" where
  "state_file env shard sid d =
     Option.bind (hget (shard_dirs d) (to_base58 env shard)) (\<lambda>files. hget files (to_file_name sid))"

definition file_read :: "'key file_env \<Rightarrow> bytes \<Rightarrow> (handler_error, bytes) result" where
  "file_read env contents =
     (if contents = [] then Ok []
      else case state_key env of
        None \<Rightarrow> Err CryptoError
      | Some k \<Rightarrow> (case key_decrypt env k contents of None \<Rightarrow> Err HandlerOther | Some p \<Rightarrow> Ok p))"

definition file_encrypt :: "'key file_env \<Rightarrow> bytes \<Rightarrow> (handler_error, bytes) result" where
  "file_encrypt env plain =
     (case state_key env of
        None \<Rightarrow> Err CryptoError
      | Some k \<Rightarrow> (case key_encrypt env k plain of None \<Rightarrow> Err HandlerOther | Some c \<Rightarrow> Ok c))"

definition file_load :: "'key file_env \<Rightarrow> shard_identifier \<Rightarrow> state_id \<Rightarrow> state_dir \<Rightarrow> (handler_error, sgx_externalities) result" where
  "file_load env shard sid d =
     (if fs_fails d then Err (InvalidStateId sid)
      else case state_file env shard sid d of
        None \<Rightarrow> Err (InvalidStateId sid)
      | Some contents \<Rightarrow>
          (case file_read env contents of
             Err e \<Rightarrow> Err e
           | Ok plain \<Rightarrow>
               (case dec_state env plain of None \<Rightarrow> Err HandlerOther | Some s \<Rightarrow> Ok (ext_new s))))"

definition file_compute_hash :: "'key file_env \<Rightarrow> shard_identifier \<Rightarrow> state_id \<Rightarrow> state_dir \<Rightarrow> (handler_error, h256) result" where
  "file_compute_hash env shard sid d =
     (case file_load env shard sid d of Err e \<Rightarrow> Err e | Ok e \<Rightarrow> Ok (file_state_hash env (state e)))"

definition file_write ::
  "'key file_env \<Rightarrow> shard_identifier \<Rightarrow> state_id \<Rightarrow> sgx_externalities \<Rightarrow> state_dir \<Rightarrow> (handler_error, h256) result \<times> state_dir" where
  "file_write env shard sid e d =
     (case file_encrypt env (enc_state env (state e)) of
        Err x \<Rightarrow> (Err x, d)
      | Ok cyphertext \<Rightarrow>
          if fs_fails d then (Err IOError, d)
          else case hget (shard_dirs d) (to_base58 env shard) of
            None \<Rightarrow> (Err IOError, d)
          | Some files \<Rightarrow>
              (Ok (file_state_hash env (state e)),
               d\<lparr>shard_dirs := hput (to_base58 env shard) (hput (to_file_name sid) cyphertext files) (shard_dirs d)\<rparr>))"

definition create_shard :: "'key file_env \<Rightarrow> shard_identifier \<Rightarrow> state_dir \<Rightarrow> (handler_error, unit) result \<times> state_dir" where
  "create_shard env shard d =
     (if fs_fails d then (Err IOError, d)
      else case hget (shard_dirs d) (to_base58 env shard) of
        None \<Rightarrow> (Ok (), d\<lparr>shard_dirs := hput (to_base58 env shard) [] (shard_dirs d)\<rparr>)
      | Some _ \<Rightarrow> (Ok (), d))"

definition file_initialize_shard ::
  "'key file_env \<Rightarrow> shard_identifier \<Rightarrow> state_id \<Rightarrow> sgx_externalities \<Rightarrow> state_dir \<Rightarrow> (handler_error, h256) result \<times> state_dir" where
  "file_initialize_shard env shard sid e d =
     (case create_shard env shard d of
        (Err x, d') \<Rightarrow> (Err x, d')
      | (Ok _, d') \<Rightarrow> file_write env shard sid e d')"

definition file_remove :: "'key file_env \<Rightarrow> shard_identifier \<Rightarrow> state_id \<Rightarrow> state_dir \<Rightarrow> (handler_error, unit) result \<times> state_dir" where
  "file_remove env shard sid d =
     (if fs_fails d then (Err IOError, d)
      else case hget (shard_dirs d) (to_base58 env shard) of
        None \<Rightarrow> (Err IOError, d)
      | Some files \<Rightarrow>
          (case hget files (to_file_name sid) of
             None \<Rightarrow> (Err IOError, d)
           | Some _ \<Rightarrow>
               (Ok (), d\<lparr>shard_dirs := hput (to_base58 env shard) (hdel (to_file_name sid) files) (shard_dirs d)\<rparr>)))"

definition file_list_state_ids :: "'key file_env \<Rightarrow> shard_identifier \<Rightarrow> state_dir \<Rightarrow> (handler_error, state_id list) result" where
  "file_list_state_ids env shard d =
     (if fs_fails d then Err IOError
      else case hget (shard_dirs d) (to_base58 env shard) of
        None \<Rightarrow> Err IOError
      | Some files \<Rightarrow> Ok (List.map_filter extract_state_id_from_file_name (map fst files)))"

definition file_shard_exists :: "'key file_env \<Rightarrow> shard_identifier \<Rightarrow> state_dir \<Rightarrow> bool" where
  "file_shard_exists env shard d =
     (case file_list_state_ids env shard d of Err _ \<Rightarrow> False | Ok ids \<Rightarrow> ids \<noteq> [])"

definition file_list_shards :: "'key file_env \<Rightarrow> state_dir \<Rightarrow> (handler_error, shard_identifier list) result" where
  "file_list_shards env d =
     Ok (if fs_fails d then [] else List.map_filter (shard_from_base58 env) (map fst (shard_dirs d)))"

definition purge_shard_dir :: "'key file_env \<Rightarrow> shard_identifier \<Rightarrow> state_dir \<Rightarrow> state_dir" where
  "purge_shard_dir env shard d =
     (if fs_fails d then d else d\<lparr>shard_dirs := hdel (to_base58 env shard) (shard_dirs d)\<rparr>)"

definition file_ops :: "'key file_env \<Rightarrow> (state_dir, sgx_externalities, h256) file_io_ops" where
  "file_ops env = \<lparr>io_load = file_load env, io_compute_hash = file_compute_hash env,
     io_initialize_shard = file_initialize_shard env, io_write = file_write env, io_remove = file_remove env,
     io_shard_exists = file_shard_exists env, io_list_shards = file_list_shards env,
     io_list_state_ids = file_list_state_ids env\<rparr>"

section \<open>What the repository relies on\<close>

text \<open>
  \<open>stored shard sid io\<close> is the state a snapshot holds, \<open>strip\<close> what remains of a state when it is written
  (the diff is dropped) and \<open>known\<close> that the shard has a directory.
\<close>

locale state_files =
  fixes ops :: "('io, 'st, 'h) file_io_ops"
    and usable :: "'io \<Rightarrow> bool"
    and known :: "shard_identifier \<Rightarrow> 'io \<Rightarrow> bool"
    and stored :: "shard_identifier \<Rightarrow> state_id \<Rightarrow> 'io \<Rightarrow> 'st option"
    and strip :: "'st \<Rightarrow> 'st"
    and hash :: "'st \<Rightarrow> 'h"
    and valid_id :: "state_id \<Rightarrow> bool"
  assumes load_stored: "usable io \<Longrightarrow> stored s i io = Some st \<Longrightarrow> io_load ops s i io = Ok st"
    and compute_hash_stored: "usable io \<Longrightarrow> stored s i io = Some st \<Longrightarrow> io_compute_hash ops s i io = Ok (hash st)"
    and write_stores: "usable io \<Longrightarrow> known s io \<Longrightarrow> valid_id i \<Longrightarrow>
      \<exists>io'. io_write ops s i st io = (Ok (hash st), io') \<and> usable io'
        \<and> (\<forall>s' i'. stored s' i' io' = (if s' = s \<and> i' = i then Some (strip st) else stored s' i' io))
        \<and> (\<forall>s'. known s' io' = known s' io)"
    and initialize_stores: "usable io \<Longrightarrow> stored s i io = None \<Longrightarrow> valid_id i \<Longrightarrow>
      \<exists>io'. io_initialize_shard ops s i st io = (Ok (hash st), io') \<and> usable io'
        \<and> (\<forall>s' i'. stored s' i' io' = (if s' = s \<and> i' = i then Some (strip st) else stored s' i' io))
        \<and> (\<forall>s'. known s' io' = (s' = s \<or> known s' io))"
    and remove_deletes: "usable io \<Longrightarrow> stored s i io \<noteq> None \<Longrightarrow>
      \<exists>io'. io_remove ops s i io = (Ok (), io') \<and> usable io'
        \<and> (\<forall>s' i'. stored s' i' io' = (if s' = s \<and> i' = i then None else stored s' i' io))
        \<and> (\<forall>s'. known s' io' = known s' io)"
    and hash_strip: "hash (strip st) = hash st"
begin

text \<open>Removing a list of snapshots deletes exactly those.\<close>

lemma remove_all_deletes:
  assumes "usable io" "\<And>i. i \<in> set ids \<Longrightarrow> stored s i io \<noteq> None" "distinct ids"
  shows "\<exists>io'. fold (\<lambda>i io. snd (io_remove ops s i io)) ids io = io' \<and> usable io'
    \<and> (\<forall>s' i'. stored s' i' io' = (if s' = s \<and> i' \<in> set ids then None else stored s' i' io))
    \<and> (\<forall>s'. known s' io' = known s' io)"
  using assms
proof (induction ids arbitrary: io)
  case Nil
  then show ?case by simp
next
  case (Cons i ids)
  then obtain io1 where io1: "io_remove ops s i io = (Ok (), io1)" "usable io1"
    "\<And>s' i'. stored s' i' io1 = (if s' = s \<and> i' = i then None else stored s' i' io)"
    "\<And>s'. known s' io1 = known s' io"
    using remove_deletes [of io s i] by auto
  have "\<And>i'. i' \<in> set ids \<Longrightarrow> stored s i' io1 \<noteq> None"
    using Cons.prems(2,3) io1(3) by auto
  from Cons.IH [OF io1(2) this] Cons.prems(3) io1 show ?case by auto
qed

end

section \<open>Both providers keep the contract\<close>

definition mem_stored :: "shard_identifier \<Rightarrow> state_id \<Rightarrow> memory_io \<Rightarrow> sgx_externalities option" where
  "mem_stored shard sid io = map_option (\<lambda>p. ext_new (snd p)) (hget (shard_directory shard io) sid)"

definition strip_diff :: "sgx_externalities \<Rightarrow> sgx_externalities" where
  "strip_diff e = ext_new (state e)"

lemma ext_new_simps [simp]: "state (ext_new s) = s" "state_diff (ext_new s) = []"
  by (simp_all add: ext_new_def)

lemmas mem_defs = mem_ops_def mem_load_def mem_compute_hash_def mem_write_def mem_initialize_shard_def
  mem_remove_def mem_stored_def shard_directory_def strip_diff_def

interpretation mem_files: state_files "mem_ops H" "\<lambda>io. \<not> directory_poisoned io" mem_shard_exists mem_stored
  strip_diff "\<lambda>e. H (state e)" "\<lambda>_. True" for H
proof (unfold_locales, goal_cases)
  case (1 io s i st)
  then show ?case by (auto simp: mem_defs split: option.splits)
next
  case (2 io s i st)
  then show ?case by (auto simp: mem_defs split: option.splits)
next
  case (3 io s i st)
  then show ?case by (auto simp: mem_defs mem_shard_exists_def split: option.splits)
next
  case (4 io s i st)
  then show ?case by (auto simp: mem_defs mem_shard_exists_def Let_def split: option.splits)
next
  case (5 io s i)
  then show ?case by (auto simp: mem_defs mem_shard_exists_def split: option.splits)
next
  case (6 st)
  then show ?case by (simp add: strip_diff_def)
qed

definition file_usable :: "'key file_env \<Rightarrow> state_dir \<Rightarrow> bool" where
  "file_usable env d \<longleftrightarrow> \<not> fs_fails d
     \<and> (\<exists>k. state_key env = Some k
          \<and> (\<forall>s. \<exists>c. key_encrypt env k (enc_state env s) = Some c \<and> c \<noteq> [] \<and> key_decrypt env k c = Some (enc_state env s)))
     \<and> (\<forall>s. dec_state env (enc_state env s) = Some s)
     \<and> inj (to_base58 env)"

definition file_stored :: "'key file_env \<Rightarrow> shard_identifier \<Rightarrow> state_id \<Rightarrow> state_dir \<Rightarrow> sgx_externalities option" where
  "file_stored env shard sid d =
     (if sid < 2 ^ 128
      then case file_load env shard sid d of Ok e \<Rightarrow> Some e | Err _ \<Rightarrow> None
      else None)"

definition file_known :: "'key file_env \<Rightarrow> shard_identifier \<Rightarrow> state_dir \<Rightarrow> bool" where
  "file_known env shard d \<longleftrightarrow> hget (shard_dirs d) (to_base58 env shard) \<noteq> None"

lemma to_file_name_inj: "i < 2 ^ 128 \<Longrightarrow> j < 2 ^ 128 \<Longrightarrow> to_file_name i = to_file_name j \<longleftrightarrow> i = j"
  using extract_to_file_name by (metis option.inject)

lemma file_encrypt_usable:
  assumes "file_usable env d"
  obtains c where "file_encrypt env (enc_state env s) = Ok c" "file_read env c = Ok (enc_state env s)"
proof -
  obtain k c where "state_key env = Some k" "key_encrypt env k (enc_state env s) = Some c" "c \<noteq> []"
    "key_decrypt env k c = Some (enc_state env s)"
    using assms unfolding file_usable_def by blast
  then show ?thesis by (intro that [of c]) (simp_all add: file_encrypt_def file_read_def)
qed

lemma file_write_usable:
  assumes "file_usable env d" "file_known env s d" "i < 2 ^ 128"
  shows "\<exists>d'. file_write env s i st d = (Ok (file_state_hash env (state st)), d') \<and> file_usable env d'
    \<and> (\<forall>s' i'. file_stored env s' i' d' = (if s' = s \<and> i' = i then Some (strip_diff st) else file_stored env s' i' d))
    \<and> (\<forall>s'. file_known env s' d' = file_known env s' d)"
proof -
  have ok: "\<not> fs_fails d" "inj (to_base58 env)" "dec_state env (enc_state env (state st)) = Some (state st)"
    using assms(1) by (simp_all add: file_usable_def)
  obtain files where files: "hget (shard_dirs d) (to_base58 env s) = Some files"
    using assms(2) by (auto simp: file_known_def)
  obtain c where c: "file_encrypt env (enc_state env (state st)) = Ok c" "file_read env c = Ok (enc_state env (state st))"
    using file_encrypt_usable [OF assms(1)] by blast
  let ?d' = "d\<lparr>shard_dirs := hput (to_base58 env s) (hput (to_file_name i) c files) (shard_dirs d)\<rparr>"
  have "file_stored env s' i' ?d' = (if s' = s \<and> i' = i then Some (strip_diff st) else file_stored env s' i' d)" for s' i'
    using ok files c assms(3)
    by (auto simp: file_stored_def file_load_def state_file_def to_file_name_inj strip_diff_def
        dest: injD split: option.splits)
  moreover have "file_usable env ?d'" using assms(1) by (simp add: file_usable_def)
  moreover have "file_known env s' ?d' = file_known env s' d" for s'
    using files by (simp add: file_known_def)
  ultimately show ?thesis
    using ok files c by (intro exI [of _ ?d']) (simp add: file_write_def)
qed

lemma create_shard_usable:
  assumes "file_usable env d"
  shows "\<exists>d'. create_shard env s d = (Ok (), d') \<and> file_usable env d' \<and> file_known env s d'
    \<and> (\<forall>s' i'. file_stored env s' i' d' = file_stored env s' i' d)
    \<and> (\<forall>s'. file_known env s' d' = (s' = s \<or> file_known env s' d))"
proof -
  have ok: "\<not> fs_fails d" "inj (to_base58 env)" using assms by (simp_all add: file_usable_def)
  show ?thesis
  proof (cases "hget (shard_dirs d) (to_base58 env s)")
    case None
    let ?d' = "d\<lparr>shard_dirs := hput (to_base58 env s) [] (shard_dirs d)\<rparr>"
    have "file_stored env s' i' ?d' = file_stored env s' i' d" for s' i'
      using None ok by (cases "s' = s") (auto simp: file_stored_def file_load_def state_file_def dest: injD)
    moreover have "file_known env s' ?d' = (s' = s \<or> file_known env s' d)" for s'
      using ok(2) by (auto simp: file_known_def dest: injD)
    moreover have "file_usable env ?d'" using assms by (simp add: file_usable_def)
    ultimately show ?thesis using None ok by (intro exI [of _ ?d']) (simp add: create_shard_def)
  next
    case (Some files)
    then show ?thesis using ok assms by (auto simp: create_shard_def file_known_def)
  qed
qed

lemma file_remove_usable:
  assumes "file_usable env d" "file_stored env s i d \<noteq> None"
  shows "\<exists>d'. file_remove env s i d = (Ok (), d') \<and> file_usable env d'
    \<and> (\<forall>s' i'. file_stored env s' i' d' = (if s' = s \<and> i' = i then None else file_stored env s' i' d))
    \<and> (\<forall>s'. file_known env s' d' = file_known env s' d)"
proof -
  have ok: "\<not> fs_fails d" "inj (to_base58 env)" using assms(1) by (simp_all add: file_usable_def)
  from assms(2) have i: "i < 2 ^ 128" by (auto simp: file_stored_def split: if_splits)
  from assms(2) ok obtain files c where files: "hget (shard_dirs d) (to_base58 env s) = Some files"
    "hget files (to_file_name i) = Some c"
    by (auto simp: file_stored_def file_load_def state_file_def bind_eq_Some_conv
        split: if_splits option.splits)
  let ?d' = "d\<lparr>shard_dirs := hput (to_base58 env s) (hdel (to_file_name i) files) (shard_dirs d)\<rparr>"
  have "file_stored env s' i' ?d' = (if s' = s \<and> i' = i then None else file_stored env s' i' d)" for s' i'
    using ok files i
    by (auto simp: file_stored_def file_load_def state_file_def to_file_name_inj dest: injD split: option.splits)
  moreover have "file_usable env ?d'" using assms(1) by (simp add: file_usable_def)
  moreover have "file_known env s' ?d' = file_known env s' d" for s'
    using files by (simp add: file_known_def)
  ultimately show ?thesis using ok files by (intro exI [of _ ?d']) (simp add: file_remove_def)
qed

interpretation sgx_files: state_files "file_ops env" "file_usable env" "file_known env" "file_stored env"
  strip_diff "\<lambda>e. file_state_hash env (state e)" "\<lambda>i. i < 2 ^ 128" for env :: "'key file_env"
proof (unfold_locales, goal_cases)
  case (1 io s i st)
  then show ?case by (auto simp: file_ops_def file_stored_def split: if_splits result.splits)
next
  case (2 io s i st)
  then show ?case
    by (auto simp: file_ops_def file_stored_def file_compute_hash_def split: if_splits result.splits)
next
  case (3 io s i st)
  then show ?case using file_write_usable [of env io s i st] by (simp add: file_ops_def)
next
  case (4 io s i st)
  obtain d where d: "create_shard env s io = (Ok (), d)" "file_usable env d" "file_known env s d"
    "\<And>s' i'. file_stored env s' i' d = file_stored env s' i' io"
    "\<And>s'. file_known env s' d = (s' = s \<or> file_known env s' io)"
    using create_shard_usable [OF 4(1)] by blast
  from file_write_usable [OF d(2,3) 4(3), of st] d show ?case
    by (auto simp: file_ops_def file_initialize_shard_def)
next
  case (5 io s i)
  then show ?case using file_remove_usable [of env io s i] by (simp add: file_ops_def)
next
  case (6 st)
  then show ?case by (simp add: strip_diff_def)
qed

section \<open>Properties\<close>

text \<open>Snapshot file names round trip: the file name printed for a 128 bit state id parses back to that
  id, so distinct ids have distinct files and every snapshot written is found again when the shard
  directory is listed.\<close>
theorem state_file_name_roundtrip:
  assumes "sid < 2 ^ 128"
  shows "extract_state_id_from_file_name (to_file_name sid) = Some sid"
  using assms by (rule extract_to_file_name)

theorem state_file_name_roundtrip_witness:
  "extract_state_id_from_file_name (to_file_name 1668422400123456789) = Some 1668422400123456789"
  by (rule state_file_name_roundtrip) simp

text \<open>C28: Writing a snapshot to the encrypted files and loading it again returns the same state with an
  empty diff, and leaves every other snapshot of every shard readable as before, given that the key is
  available, decryption inverts encryption on encoded states, the state codec and base58 are injective,
  and the file system works.\<close>
theorem file_write_load:
  assumes "file_usable env d" "file_known env shard d" "sid < 2 ^ 128"
  shows "\<exists>d'. file_write env shard sid e d = (Ok (file_state_hash env (state e)), d')
    \<and> file_load env shard sid d' = Ok (ext_new (state e))
    \<and> (\<forall>shard' sid' e'. sid' < 2 ^ 128 \<longrightarrow> (shard', sid') \<noteq> (shard, sid) \<longrightarrow>
         (file_load env shard' sid' d' = Ok e' \<longleftrightarrow> file_load env shard' sid' d = Ok e'))"
proof -
  obtain d' where d': "file_write env shard sid e d = (Ok (file_state_hash env (state e)), d')"
    "\<And>s' i'. file_stored env s' i' d' = (if s' = shard \<and> i' = sid then Some (strip_diff e) else file_stored env s' i' d)"
    using file_write_usable [OF assms] by blast
  have stored: "file_stored env s' i' x = Some e' \<longleftrightarrow> i' < 2 ^ 128 \<and> file_load env s' i' x = Ok e'" for s' i' x e'
    by (auto simp: file_stored_def split: result.splits)
  show ?thesis
  proof (intro exI [of _ d'] conjI allI impI)
    show "file_load env shard sid d' = Ok (ext_new (state e))"
      using d'(2) [of shard sid] stored [of shard sid d'] by (simp add: strip_diff_def)
    fix shard' sid' e'
    assume "sid' < 2 ^ 128" "(shard', sid') \<noteq> (shard, sid)"
    then show "file_load env shard' sid' d' = Ok e' \<longleftrightarrow> file_load env shard' sid' d = Ok e'"
      using d'(2) [of shard' sid'] stored [of shard' sid' d' e'] stored [of shard' sid' d e'] by auto
  qed (fact d'(1))
qed

text \<open>A concrete environment: a self-delimiting codec of the state map and a cipher that adds a byte.\<close>

fun esc :: "bytes \<Rightarrow> bytes" where
  "esc [] = [0]"
| "esc (b # bs) = 1 # b # esc bs"

fun unesc :: "bytes \<Rightarrow> (bytes \<times> bytes) option" where
  "unesc (t # b # r) = (if t = 0 then Some ([], b # r) else map_option (\<lambda>(x, y). (b # x, y)) (unesc r))"
| "unesc [t] = (if t = 0 then Some ([], []) else None)"
| "unesc [] = None"

lemma unesc_esc [simp]: "unesc (esc bs @ r) = Some (bs, r)"
  by (induction bs) (cases r; simp)+

fun enc_map :: "(bytes, bytes) btree_map \<Rightarrow> bytes" where
  "enc_map [] = [0]"
| "enc_map ((k, v) # m) = 1 # esc k @ esc v @ enc_map m"

fun dec_map :: "nat \<Rightarrow> bytes \<Rightarrow> (bytes, bytes) btree_map option" where
  "dec_map 0 _ = None"
| "dec_map (Suc n) [] = None"
| "dec_map (Suc n) (t # r) =
     (if t = 0 then Some []
      else do { (k, r1) \<leftarrow> unesc r; (v, r2) \<leftarrow> unesc r1; m \<leftarrow> dec_map n r2; Some ((k, v) # m) })"

lemma dec_enc_map: "length m \<le> n \<Longrightarrow> dec_map (Suc n) (enc_map m) = Some m"
proof (induction m arbitrary: n)
  case (Cons p m)
  then show ?case by (cases p; cases n) simp_all
qed simp

lemma length_enc_map: "length m \<le> length (enc_map m)"
  by (induction m rule: enc_map.induct) simp_all

definition example_file_env :: "unit file_env" where
  "example_file_env = \<lparr>state_key = Some (), key_encrypt = \<lambda>_ p. Some (5 # p), key_decrypt = \<lambda>_ c. Some (tl c),
     enc_state = enc_map, dec_state = \<lambda>b. dec_map (Suc (length b)) b,
     to_base58 = \<lambda>s. replicate (unat s) CHR ''1'', shard_from_base58 = \<lambda>b. Some (of_nat (length b)),
     file_state_hash = \<lambda>s. of_nat (length s)\<rparr>"

lemma example_file_env_usable: "file_usable example_file_env \<lparr>shard_dirs = dirs, fs_fails = False\<rparr>"
  by (simp add: file_usable_def example_file_env_def dec_enc_map length_enc_map inj_on_def)
    (metis length_replicate word_unat_eq_iff)

theorem file_write_load_witness:
  "(let e = \<lparr>state = [([1], [2, 3])], state_diff = [([1], Some [2, 3])]\<rparr>;
        d = \<lparr>shard_dirs = [(''1'', [])], fs_fails = False\<rparr>
    in file_load example_file_env 1 77 (snd (file_write example_file_env 1 77 e d)) = Ok (ext_new [([1], [2, 3])]))"
proof -
  let ?e = "\<lparr>state = [([1], [2, 3])], state_diff = [([1], Some [2, 3])]\<rparr> :: sgx_externalities"
  let ?d = "\<lparr>shard_dirs = [(''1'', [])], fs_fails = False\<rparr>"
  have "file_known example_file_env 1 ?d"
    by (simp add: file_known_def example_file_env_def)
  from file_write_load [OF example_file_env_usable this, of 77 ?e] show ?thesis by auto
qed

end
