(* ===== verification/Import_Queue.thy ===== *)
theory Import_Queue
  imports Worker_Prelude
begin

text \<open>
  The import queue (core-primitives/import-queue): a lock around a VecDeque. The record keeps the
  items front to back and whether the lock is poisoned; every operation returns its result together
  with the queue it leaves behind. The locale \<open>fifo_queue\<close> states what clients rely on through the
  traits PushToQueue, PopFromQueue and PeekQueue; it is interpreted on \<^typ>\<open>'a list\<close> items here and
  used by the parentchain dispatcher and the sidechain block import queue worker.
\<close>

section \<open>State and operations\<close>

datatype queue_error = Sgx | PoisonedLock | QueueOther string

record 'a import_queue =
  queue :: "'a list"
  poisoned :: bool

definition default_queue :: "'a import_queue" where
  "default_queue = \<lparr>queue = [], poisoned = False\<rparr>"

definition is_empty_queue :: "'a import_queue \<Rightarrow> (queue_error, bool) result" where
  "is_empty_queue q = (if poisoned q then Err PoisonedLock else Ok (queue q = []))"

definition push_multiple :: "'a list \<Rightarrow> 'a import_queue \<Rightarrow> (queue_error, unit) result \<times> 'a import_queue" where
  "push_multiple items q =
     (if poisoned q then (Err PoisonedLock, q) else (Ok (), q\<lparr>queue := queue q @ items\<rparr>))"

definition push_single :: "'a \<Rightarrow> 'a import_queue \<Rightarrow> (queue_error, unit) result \<times> 'a import_queue" where
  "push_single item q =
     (if poisoned q then (Err PoisonedLock, q) else (Ok (), q\<lparr>queue := queue q @ [item]\<rparr>))"

definition drain_to :: "nat \<Rightarrow> 'a import_queue \<Rightarrow> (queue_error, 'a list) result \<times> 'a import_queue" where
  "drain_to n q = (Ok (take n (queue q)), q\<lparr>queue := drop n (queue q)\<rparr>)"

definition pop_all_but_last :: "'a import_queue \<Rightarrow> (queue_error, 'a list) result \<times> 'a import_queue" where
  "pop_all_but_last q =
     (if poisoned q then (Err PoisonedLock, q)
      else if length (queue q) < 2 then (Ok [], q)
      else drain_to (length (queue q) - 1) q)"

definition pop_all :: "'a import_queue \<Rightarrow> (queue_error, 'a list) result \<times> 'a import_queue" where
  "pop_all q = (if poisoned q then (Err PoisonedLock, q) else drain_to (length (queue q)) q)"

definition pop_until :: "('a \<Rightarrow> bool) \<Rightarrow> 'a import_queue \<Rightarrow> (queue_error, 'a list) result \<times> 'a import_queue" where
  "pop_until P q =
     (if poisoned q then (Err PoisonedLock, q)
      else case position P (queue q) of
        None \<Rightarrow> (Ok [], q)
      | Some p \<Rightarrow> drain_to (p + 1) q)"

definition pop_front :: "'a import_queue \<Rightarrow> (queue_error, 'a option) result \<times> 'a import_queue" where
  "pop_front q =
     (if poisoned q then (Err PoisonedLock, q)
      else case queue q of
        [] \<Rightarrow> (Ok None, q)
      | x # xs \<Rightarrow> (Ok (Some x), q\<lparr>queue := xs\<rparr>))"

definition pop_from_front_until :: "nat \<Rightarrow> 'a import_queue \<Rightarrow> (queue_error, 'a list) result \<times> 'a import_queue" where
  "pop_from_front_until amount q =
     (if poisoned q then (Err PoisonedLock, q)
      else if amount > length (queue q)
      then (Err (QueueOther ''Cannot Pop more items from the queue than are available''), q)
      else drain_to amount q)"

definition peek_find :: "('a \<Rightarrow> bool) \<Rightarrow> 'a import_queue \<Rightarrow> (queue_error, 'a option) result" where
  "peek_find P q = (if poisoned q then Err PoisonedLock else Ok (List.find P (queue q)))"

definition peek_last :: "'a import_queue \<Rightarrow> (queue_error, 'a option) result" where
  "peek_last q =
     (if poisoned q then Err PoisonedLock
      else Ok (if queue q = [] then None else Some (last (queue q))))"

definition peek_queue_size :: "'a import_queue \<Rightarrow> (queue_error, nat) result" where
  "peek_queue_size q = (if poisoned q then Err PoisonedLock else Ok (length (queue q)))"

lemmas queue_pop_defs = pop_all_def pop_all_but_last_def pop_until_def pop_from_front_until_def
  pop_front_def drain_to_def

section \<open>What clients of the queue rely on\<close>

text \<open>
  \<open>items\<close> abstracts the queue to the sequence of its elements. Every pop returns a prefix of that
  sequence and leaves the rest, in order.
\<close>

locale fifo_queue =
  fixes items :: "'q \<Rightarrow> 'a list"
    and usable :: "'q \<Rightarrow> bool"
    and enqueue :: "'a list \<Rightarrow> 'q \<Rightarrow> (queue_error, unit) result \<times> 'q"
    and deq_all :: "'q \<Rightarrow> (queue_error, 'a list) result \<times> 'q"
    and deq_all_but_last :: "'q \<Rightarrow> (queue_error, 'a list) result \<times> 'q"
    and deq_until :: "('a \<Rightarrow> bool) \<Rightarrow> 'q \<Rightarrow> (queue_error, 'a list) result \<times> 'q"
    and deq_n :: "nat \<Rightarrow> 'q \<Rightarrow> (queue_error, 'a list) result \<times> 'q"
  assumes enqueue_ok: "usable q \<Longrightarrow> \<exists>q'. enqueue xs q = (Ok (), q') \<and> items q' = items q @ xs \<and> usable q'"
    and deq_all_ok: "usable q \<Longrightarrow> \<exists>q'. deq_all q = (Ok (items q), q') \<and> items q' = [] \<and> usable q'"
    and deq_all_but_last_ok: "usable q \<Longrightarrow>
      \<exists>q'. deq_all_but_last q = (Ok (take (length (items q) - 1) (items q)), q')
        \<and> items q' = drop (length (items q) - 1) (items q) \<and> usable q'"
    and deq_until_ok: "usable q \<Longrightarrow>
      \<exists>n q'. n \<le> length (items q) \<and> deq_until P q = (Ok (take n (items q)), q')
        \<and> items q' = drop n (items q) \<and> usable q'"
    and deq_n_ok: "usable q \<Longrightarrow> n \<le> length (items q) \<Longrightarrow>
      \<exists>q'. deq_n n q = (Ok (take n (items q)), q') \<and> items q' = drop n (items q) \<and> usable q'"
    and deq_n_err: "usable q \<Longrightarrow> length (items q) < n \<Longrightarrow> \<exists>e. deq_n n q = (Err e, q)"
begin

lemma deq_until_conserves:
  assumes "usable q" "deq_until P q = (Ok xs, q')"
  shows "xs @ items q' = items q" "usable q'" "length xs + length (items q') = length (items q)"
  using deq_until_ok [OF assms(1), of P] assms(2) by auto

lemma deq_all_conserves:
  assumes "usable q" "deq_all q = (Ok xs, q')"
  shows "xs = items q" "items q' = []" "usable q'"
  using deq_all_ok [OF assms(1)] assms(2) by auto

lemma deq_all_but_last_conserves:
  assumes "usable q" "deq_all_but_last q = (Ok xs, q')"
  shows "xs @ items q' = items q" "usable q'" "length xs = length (items q) - 1"
  using deq_all_but_last_ok [OF assms(1)] assms(2) by auto

lemma deq_n_conserves:
  assumes "usable q" "deq_n n q = (Ok xs, q')"
  shows "xs @ items q' = items q" "usable q'" "length xs = n"
  using deq_n_ok [OF assms(1), of n] deq_n_err [OF assms(1), of n] assms(2)
  by (cases "n \<le> length (items q)"; force)+

end

interpretation iq: fifo_queue queue "\<lambda>q. \<not> poisoned q" push_multiple pop_all pop_all_but_last
  pop_until pop_from_front_until
proof (unfold_locales, goal_cases)
  case (1 q xs)
  then show ?case by (simp add: push_multiple_def)
next
  case (2 q)
  then show ?case by (simp add: queue_pop_defs)
next
  case (3 q)
  then show ?case by (auto simp: queue_pop_defs)
next
  case (4 q P)
  show ?case
  proof (cases "position P (queue q)")
    case None
    with 4 show ?thesis by (intro exI [of _ 0]) (simp add: queue_pop_defs)
  next
    case (Some p)
    moreover from Some have "p < length (queue q)" by (simp add: position_Some)
    ultimately show ?thesis
      using 4 by (intro exI [of _ "Suc p"]) (simp add: queue_pop_defs)
  qed
next
  case (5 q n)
  then show ?case by (simp add: queue_pop_defs)
next
  case (6 q n)
  then show ?case by (simp add: queue_pop_defs)
qed

text \<open>
  Two queues side by side, as the dispatcher keeps one for blocks and one for their events: popping
  the first up to a match and as many items from the second keeps them paired.
\<close>

locale queue_pair =
  fst_q: fifo_queue items1 usable1 enqueue1 all1 all_but_last1 until1 n1 +
  snd_q: fifo_queue items2 usable2 enqueue2 all2 all_but_last2 until2 n2
  for items1 :: "'q \<Rightarrow> 'a list" and usable1 enqueue1 all1 all_but_last1 until1 n1
    and items2 :: "'r \<Rightarrow> 'b list" and usable2 enqueue2 all2 all_but_last2 until2 n2
begin

lemma aligned_after_until:
  assumes "usable1 q" "usable2 r" "length (items1 q) = length (items2 r)"
    and "until1 P q = (Ok xs, q')"
  shows "\<exists>ys r'. n2 (length xs) r = (Ok ys, r') \<and> usable2 r' \<and> usable1 q'
    \<and> length (items1 q') = length (items2 r')
    \<and> zip xs ys @ zip (items1 q') (items2 r') = zip (items1 q) (items2 r)"
proof -
  obtain n q'' where n: "n \<le> length (items1 q)"
    and q: "until1 P q = (Ok (take n (items1 q)), q'')" "items1 q'' = drop n (items1 q)" "usable1 q''"
    using fst_q.deq_until_ok [OF assms(1), of P] by blast
  then have xs: "xs = take n (items1 q)" "q' = q''" "length xs = n" using assms(4) by auto
  then obtain r' where "n2 n r = (Ok (take n (items2 r)), r')" "items2 r' = drop n (items2 r)" "usable2 r'"
    using snd_q.deq_n_ok [OF assms(2), of n] n assms(3) by auto
  with q xs assms(3) show ?thesis
    by (auto simp: take_zip [symmetric] drop_zip [symmetric])
qed

end

interpretation iqs: queue_pair queue "\<lambda>q. \<not> poisoned q" push_multiple pop_all pop_all_but_last
  pop_until pop_from_front_until queue "\<lambda>q. \<not> poisoned q" push_multiple pop_all pop_all_but_last
  pop_until pop_from_front_until
  by unfold_locales

section \<open>Functional behaviour\<close>

lemma pop_until_Ok:
  assumes "\<not> poisoned q"
  shows "pop_until P q =
    (case position P (queue q) of
       None \<Rightarrow> (Ok [], q)
     | Some p \<Rightarrow> (Ok (take (Suc p) (queue q)), q\<lparr>queue := drop (Suc p) (queue q)\<rparr>))"
  using assms by (simp add: queue_pop_defs split: option.split)

lemma pop_front_single: "\<not> poisoned q \<Longrightarrow>
  pop_front q = (Ok (case queue q of [] \<Rightarrow> None | x # _ \<Rightarrow> Some x), q\<lparr>queue := tl (queue q)\<rparr>)"
  by (cases "queue q") (simp_all add: pop_front_def)

lemma push_single_multiple: "push_single x q = push_multiple [x] q"
  by (simp add: push_single_def push_multiple_def)

end
