(* ===== verification/State_Snapshots.thy ===== *)
theory State_Snapshots
  imports State_File_Io Import_Queue
begin

text \<open>
  The snapshot repository and its loader (core-primitives/stf-state-handler, state_snapshot_primitives.rs,
  state_snapshot_repository.rs and state_snapshot_repository_loader.rs). The operations take the file
  access as a record of functions; the clock that generates state ids is an argument. Clients see the
  repository through the trait VersionedStateAccess: per shard a bounded stack of versions, newest
  first, which is the abstraction \<open>versions\<close> the refinement lemmas are about.
\<close>

section \<open>Repository\<close>

record 'h snapshot_metadata =
  meta_hash :: 'h
  meta_id :: state_id

record ('io, 'h) snapshot_repository =
  file_io :: 'io
  cache_size :: nat
  history :: "(shard_identifier, 'h snapshot_metadata list) hmap"

definition new_repository ::
  "'io \<Rightarrow> nat \<Rightarrow> (shard_identifier, 'h snapshot_metadata list) hmap \<Rightarrow> (handler_error, ('io, 'h) snapshot_repository) result" where
  "new_repository io sz h =
     (if sz = 0 then Err ZeroCacheSize else Ok \<lparr>file_io = io, cache_size = sz, history = h\<rparr>)"

definition empty_repository :: "'io \<Rightarrow> nat \<Rightarrow> (handler_error, ('io, 'h) snapshot_repository) result" where
  "empty_repository io sz = new_repository io sz []"

definition repository_shard_exists :: "shard_identifier \<Rightarrow> ('io, 'h) snapshot_repository \<Rightarrow> bool" where
  "repository_shard_exists shard r \<longleftrightarrow> hget (history r) shard \<noteq> None"

definition repository_list_shards :: "('io, 'h) snapshot_repository \<Rightarrow> (handler_error, shard_identifier list) result" where
  "repository_list_shards r = Ok (map fst (history r))"

definition get_snapshot_history ::
  "shard_identifier \<Rightarrow> ('io, 'h) snapshot_repository \<Rightarrow> (handler_error, 'h snapshot_metadata list) result" where
  "get_snapshot_history shard r =
     (case hget (history r) shard of None \<Rightarrow> Err (InvalidShard shard) | Some ms \<Rightarrow> Ok ms)"

definition get_latest_snapshot_metadata ::
  "shard_identifier \<Rightarrow> ('io, 'h) snapshot_repository \<Rightarrow> (handler_error, 'h snapshot_metadata) result" where
  "get_latest_snapshot_metadata shard r =
     (case get_snapshot_history shard r of
        Err e \<Rightarrow> Err e
      | Ok ms \<Rightarrow> (case ms of [] \<Rightarrow> Err EmptyRepository | m # _ \<Rightarrow> Ok m))"

definition remove_snapshots ::
  "('io, 'st, 'h) file_io_ops \<Rightarrow> shard_identifier \<Rightarrow> 'h snapshot_metadata list \<Rightarrow> 'io \<Rightarrow> 'io" where
  "remove_snapshots ops shard ms io = fold (\<lambda>m io. snd (io_remove ops shard (meta_id m) io)) ms io"

text \<open>Drain the entries from index \<open>lo\<close> up to but not including \<open>hi\<close>, and remove their files.\<close>

definition prune_snapshot_history_by_range ::
  "('io, 'st, 'h) file_io_ops \<Rightarrow> shard_identifier \<Rightarrow> nat \<Rightarrow> nat \<Rightarrow> ('io, 'h) snapshot_repository
   \<Rightarrow> (handler_error, unit) result \<times> ('io, 'h) snapshot_repository" where
  "prune_snapshot_history_by_range ops shard lo hi r =
     (case get_snapshot_history shard r of
        Err e \<Rightarrow> (Err e, r)
      | Ok ms \<Rightarrow>
          (Ok (), r\<lparr>history := hput shard (take lo ms @ drop hi ms) (history r),
                    file_io := remove_snapshots ops shard (take (hi - lo) (drop lo ms)) (file_io r)\<rparr>))"

definition initialize_shard_with_snapshot ::
  "('io, 'st, 'h) file_io_ops \<Rightarrow> state_id \<Rightarrow> shard_identifier \<Rightarrow> 'st \<Rightarrow> ('io, 'h) snapshot_repository
   \<Rightarrow> (handler_error, 'h) result \<times> ('io, 'h) snapshot_repository" where
  "initialize_shard_with_snapshot ops now shard st r =
     (case io_initialize_shard ops shard now st (file_io r) of
        (Err e, io) \<Rightarrow> (Err e, r\<lparr>file_io := io\<rparr>)
      | (Ok h, io) \<Rightarrow>
          (Ok h, r\<lparr>file_io := io, history := hput shard [\<lparr>meta_hash = h, meta_id = now\<rparr>] (history r)\<rparr>))"

definition load_latest ::
  "('io, 'st, 'h) file_io_ops \<Rightarrow> shard_identifier \<Rightarrow> ('io, 'h) snapshot_repository \<Rightarrow> (handler_error, 'st) result" where
  "load_latest ops shard r =
     (case get_latest_snapshot_metadata shard r of
        Err e \<Rightarrow> Err e
      | Ok m \<Rightarrow> io_load ops shard (meta_id m) (file_io r))"

definition update_snapshot ::
  "('io, 'st, 'h) file_io_ops \<Rightarrow> state_id \<Rightarrow> shard_identifier \<Rightarrow> 'st \<Rightarrow> 'h \<Rightarrow> ('io, 'h) snapshot_repository
   \<Rightarrow> (handler_error, unit) result \<times> ('io, 'h) snapshot_repository" where
  "update_snapshot ops now shard st state_hash r =
     (case hget (history r) shard of
        None \<Rightarrow>
          (case initialize_shard_with_snapshot ops now shard st r of
             (Err e, r') \<Rightarrow> (Err e, r')
           | (Ok _, r') \<Rightarrow> (Ok (), r'))
      | Some ms \<Rightarrow>
          (case io_write ops shard now st (file_io r) of
             (Err e, io) \<Rightarrow> (Err e, r\<lparr>file_io := io\<rparr>)
           | (Ok _, io) \<Rightarrow>
               let ms' = \<lparr>meta_hash = state_hash, meta_id = now\<rparr> # ms;
                   r' = r\<lparr>file_io := io, history := hput shard ms' (history r)\<rparr>
               in if length ms' > cache_size r
                  then prune_snapshot_history_by_range ops shard (cache_size r) (length ms') r'
                  else (Ok (), r')))"

definition revert_to ::
  "('io, 'st, 'h) file_io_ops \<Rightarrow> shard_identifier \<Rightarrow> 'h \<Rightarrow> ('io, 'h) snapshot_repository
   \<Rightarrow> (handler_error, 'st) result \<times> ('io, 'h) snapshot_repository" where
  "revert_to ops shard state_hash r =
     (case get_snapshot_history shard r of
        Err e \<Rightarrow> (Err e, r)
      | Ok ms \<Rightarrow>
          (case position (\<lambda>m. meta_hash m = state_hash) ms of
             None \<Rightarrow> (Err StateNotFoundInRepository, r)
           | Some idx \<Rightarrow>
               (case io_load ops shard (meta_id (ms ! idx)) (file_io r) of
                  Err e \<Rightarrow> (Err e, r)
                | Ok st \<Rightarrow>
                    (case prune_snapshot_history_by_range ops shard 0 idx r of
                       (Err e, r') \<Rightarrow> (Err e, r')
                     | (Ok _, r') \<Rightarrow> (Ok st, r')))))"

definition initialize_new_shard ::
  "('io, 'st, 'h) file_io_ops \<Rightarrow> state_id \<Rightarrow> shard_identifier \<Rightarrow> 'st \<Rightarrow> ('io, 'h) snapshot_repository
   \<Rightarrow> (handler_error, 'h) result \<times> ('io, 'h) snapshot_repository" where
  "initialize_new_shard = initialize_shard_with_snapshot"

section \<open>Loader\<close>

text \<open>
  \<open>initial\<close> is the result of the state initializer and \<open>now shard\<close> the clock when the shard is
  initialised.
\<close>

definition map_to_snapshot_metadata ::
  "('io, 'st, 'h) file_io_ops \<Rightarrow> shard_identifier \<Rightarrow> state_id list \<Rightarrow> 'io \<Rightarrow> 'h snapshot_metadata list" where
  "map_to_snapshot_metadata ops shard ids io =
     List.map_filter (\<lambda>i. case io_compute_hash ops shard i io of
         Ok h \<Rightarrow> Some \<lparr>meta_hash = h, meta_id = i\<rparr> | Err _ \<Rightarrow> None) ids"

fun load_history ::
  "('io, 'st, 'h) file_io_ops \<Rightarrow> (handler_error, 'st) result \<Rightarrow> (shard_identifier \<Rightarrow> state_id)
   \<Rightarrow> shard_identifier list \<Rightarrow> (shard_identifier, 'h snapshot_metadata list) hmap \<Rightarrow> 'io
   \<Rightarrow> (handler_error, (shard_identifier, 'h snapshot_metadata list) hmap) result \<times> 'io" where
  "load_history ops initial now [] h io = (Ok h, io)"
| "load_history ops initial now (shard # shards) h io =
     (case io_list_state_ids ops shard io of
        Err e \<Rightarrow> (Err e, io)
      | Ok ids \<Rightarrow>
          (case map_to_snapshot_metadata ops shard (rev (sort ids)) io of
             [] \<Rightarrow>
               (case initial of
                  Err e \<Rightarrow> (Err e, io)
                | Ok st \<Rightarrow>
                    (case io_initialize_shard ops shard (now shard) st io of
                       (Err e, io') \<Rightarrow> (Err e, io')
                     | (Ok x, io') \<Rightarrow>
                         load_history ops initial now shards
                           (hput shard [\<lparr>meta_hash = x, meta_id = now shard\<rparr>] h) io'))
           | ms \<Rightarrow> load_history ops initial now shards (hput shard ms h) io))"

definition load_snapshot_repository ::
  "('io, 'st, 'h) file_io_ops \<Rightarrow> (handler_error, 'st) result \<Rightarrow> (shard_identifier \<Rightarrow> state_id) \<Rightarrow> nat \<Rightarrow> 'io
   \<Rightarrow> (handler_error, ('io, 'h) snapshot_repository) result \<times> 'io" where
  "load_snapshot_repository ops initial now sz io =
     (case io_list_shards ops io of
        Err e \<Rightarrow> (Err e, io)
      | Ok shards \<Rightarrow>
          (case load_history ops initial now shards [] io of
             (Err e, io') \<Rightarrow> (Err e, io')
           | (Ok h, io') \<Rightarrow> (new_repository io' sz h, io')))"

section \<open>A bounded stack of versions\<close>

lemma dropWhile_eq_drop_first:
  assumes "idx < length xs" "\<not> P (xs ! idx)" "\<And>j. j < idx \<Longrightarrow> P (xs ! j)"
  shows "dropWhile P xs = drop idx xs"
proof -
  have "takeWhile P xs = take idx xs"
    using assms by (intro takeWhile_eq_take_P_nth) auto
  then show ?thesis
    by (metis append_eq_append_conv append_take_drop_id takeWhile_dropWhile_id)
qed


definition versions ::
  "(shard_identifier \<Rightarrow> state_id \<Rightarrow> 'io \<Rightarrow> 'st option) \<Rightarrow> ('io, 'h) snapshot_repository \<Rightarrow> shard_identifier \<Rightarrow> 'st list option" where
  "versions stored r shard =
     map_option (map (\<lambda>m. the (stored shard (meta_id m) (file_io r)))) (hget (history r) shard)"

definition repo_inv ::
  "('io \<Rightarrow> bool) \<Rightarrow> (shard_identifier \<Rightarrow> 'io \<Rightarrow> bool) \<Rightarrow> (shard_identifier \<Rightarrow> state_id \<Rightarrow> 'io \<Rightarrow> 'st option)
   \<Rightarrow> ('st \<Rightarrow> 'h) \<Rightarrow> ('io, 'h) snapshot_repository \<Rightarrow> bool" where
  "repo_inv usable known stored hash r \<longleftrightarrow> usable (file_io r) \<and> 0 < cache_size r \<and> hwf (history r)
     \<and> (\<forall>s ms. hget (history r) s = Some ms \<longrightarrow> ms \<noteq> [] \<and> known s (file_io r) \<and> distinct (map meta_id ms)
          \<and> (\<forall>m\<in>set ms. \<exists>st. stored s (meta_id m) (file_io r) = Some st \<and> hash st = meta_hash m))"

context state_files
begin

abbreviation repo_ok where "repo_ok \<equiv> repo_inv usable known stored hash"

lemma inv_history:
  assumes "repo_ok r" "hget (history r) s = Some ms"
  shows "ms \<noteq> []" "known s (file_io r)" "distinct (map meta_id ms)"
    "\<And>m. m \<in> set ms \<Longrightarrow> \<exists>st. stored s (meta_id m) (file_io r) = Some st \<and> hash st = meta_hash m"
  using assms unfolding repo_inv_def by blast+

lemma prune_keeps_inv:
  assumes "repo_ok r" "hget (history r) s = Some ms" "lo \<le> hi" "hi \<le> length ms" "take lo ms @ drop hi ms \<noteq> []"
    and "prune_snapshot_history_by_range ops s lo hi r = (res, r')"
  shows "res = Ok () \<and> repo_ok r' \<and> cache_size r' = cache_size r
    \<and> history r' = hput s (take lo ms @ drop hi ms) (history r)
    \<and> (\<forall>s' i. stored s' i (file_io r')
         = (if s' = s \<and> i \<in> meta_id ` set (take (hi - lo) (drop lo ms)) then None else stored s' i (file_io r)))"
proof -
  let ?gone = "take (hi - lo) (drop lo ms)" and ?kept = "take lo ms @ drop hi ms"
  note h = inv_history [OF assms(1,2)]
  have split: "ms = take lo ms @ ?gone @ drop hi ms"
    using assms(3,4) by (metis append_assoc append_take_drop_id drop_drop le_add_diff_inverse2)
  then have "distinct (map meta_id (take lo ms @ ?gone @ drop hi ms))" using h(3) by simp
  then have dist: "distinct (map meta_id ?gone)" "distinct (map meta_id ?kept)"
    "meta_id ` set ?gone \<inter> meta_id ` set ?kept = {}" by auto
  have sub: "set ?gone \<subseteq> set ms" "set ?kept \<subseteq> set ms"
    by (auto dest: in_set_takeD in_set_dropD)
  have "\<And>i. i \<in> set (map meta_id ?gone) \<Longrightarrow> stored s i (file_io r) \<noteq> None"
    using h(4) sub(1) by fastforce
  from remove_all_deletes [OF _ this dist(1)] assms(1) obtain io where io:
    "remove_snapshots ops s ?gone (file_io r) = io" "usable io"
    "\<And>s' i'. stored s' i' io = (if s' = s \<and> i' \<in> meta_id ` set ?gone then None else stored s' i' (file_io r))"
    "\<And>s'. known s' io = known s' (file_io r)"
    by (auto simp: remove_snapshots_def repo_inv_def fold_map comp_def)
  have r': "res = Ok ()" "r' = r\<lparr>history := hput s ?kept (history r), file_io := io\<rparr>"
    using assms(2,6) io(1) by (auto simp: prune_snapshot_history_by_range_def get_snapshot_history_def)
  have "stored s (meta_id m) io = stored s (meta_id m) (file_io r)" if "m \<in> set ?kept" for m
    using io(3) dist(3) that by auto
  then have "repo_ok r'"
    using assms(1,5) r'(2) io(2-4) dist(2) h(2,4) sub(2) by (auto simp: repo_inv_def)
  with r' io show ?thesis by auto
qed

lemma initialize_refines:
  assumes "repo_ok r" "valid_id now" "stored s now (file_io r) = None"
  shows "\<exists>r'. initialize_shard_with_snapshot ops now s st r = (Ok (hash st), r') \<and> repo_ok r'
    \<and> cache_size r' = cache_size r \<and> versions stored r' = (versions stored r)(s \<mapsto> [strip st])
    \<and> (\<forall>s' i. stored s' i (file_io r') \<noteq> None \<longrightarrow> stored s' i (file_io r) \<noteq> None \<or> s' = s \<and> i = now)"
proof -
  have "usable (file_io r)" using assms(1) by (simp add: repo_inv_def)
  then obtain io where io: "io_initialize_shard ops s now st (file_io r) = (Ok (hash st), io)" "usable io"
    "\<And>s' i'. stored s' i' io = (if s' = s \<and> i' = now then Some (strip st) else stored s' i' (file_io r))"
    "\<And>s'. known s' io = (s' = s \<or> known s' (file_io r))"
    using initialize_stores [of "file_io r" s now st] assms by blast
  let ?r' = "r\<lparr>file_io := io, history := hput s [\<lparr>meta_hash = hash st, meta_id = now\<rparr>] (history r)\<rparr>"
  have "repo_ok ?r'"
    using assms(1,3) io hash_strip [of st] by (auto simp: repo_inv_def)
  moreover have "versions stored ?r' s' = ((versions stored r)(s \<mapsto> [strip st])) s'" for s'
    using io(3) by (auto simp: versions_def)
  ultimately show ?thesis
    using io(1,3) by (intro exI [of _ ?r']) (auto simp: initialize_shard_with_snapshot_def)
qed

lemma update_refines:
  assumes "repo_ok r" "valid_id now" "stored s now (file_io r) = None" "h = hash st"
  shows "\<exists>r'. update_snapshot ops now s st h r = (Ok (), r') \<and> repo_ok r' \<and> cache_size r' = cache_size r
    \<and> versions stored r' = (versions stored r)(s \<mapsto> take (cache_size r)
        (strip st # (case versions stored r s of None \<Rightarrow> [] | Some vs \<Rightarrow> vs)))
    \<and> (\<forall>s' i. stored s' i (file_io r') \<noteq> None \<longrightarrow> stored s' i (file_io r) \<noteq> None \<or> s' = s \<and> i = now)"
proof (cases "hget (history r) s")
  case None
  then have "versions stored r s = None" by (simp add: versions_def)
  moreover have "0 < cache_size r" using assms(1) by (simp add: repo_inv_def)
  ultimately show ?thesis
    using initialize_refines [OF assms(1-3), of st] None by (auto simp: update_snapshot_def)
next
  case (Some ms)
  note hist = inv_history [OF assms(1) Some]
  have "usable (file_io r)" using assms(1) by (simp add: repo_inv_def)
  then obtain io where io: "io_write ops s now st (file_io r) = (Ok (hash st), io)" "usable io"
    "\<And>s' i'. stored s' i' io = (if s' = s \<and> i' = now then Some (strip st) else stored s' i' (file_io r))"
    "\<And>s'. known s' io = known s' (file_io r)"
    using write_stores [of "file_io r" s now st] hist(2) assms(2) by blast
  let ?m = "\<lparr>meta_hash = h, meta_id = now\<rparr>"
  let ?r1 = "r\<lparr>file_io := io, history := hput s (?m # ms) (history r)\<rparr>"
  have fresh: "now \<notin> meta_id ` set ms" using hist(4) assms(3) by force
  have ok1: "repo_ok ?r1"
    using assms(1,3,4) io hash_strip [of st] hist fresh by (auto simp: repo_inv_def)
  have v1: "versions stored ?r1 = (versions stored r)(s \<mapsto> strip st # the (versions stored r s))"
    using io(3) fresh Some by (fastforce simp: versions_def fun_eq_iff)
  show ?thesis
  proof (cases "cache_size r < Suc (length ms)")
    case False
    then show ?thesis
      using Some io(1,3) ok1 v1 by (intro exI [of _ ?r1]) (simp add: update_snapshot_def versions_def)
  next
    case True
    obtain res r' where p: "prune_snapshot_history_by_range ops s (cache_size r) (Suc (length ms)) ?r1 = (res, r')"
      by fastforce
    have ne: "take (cache_size r) (?m # ms) @ drop (Suc (length ms)) (?m # ms) \<noteq> []"
      using assms(1) by (simp add: repo_inv_def)
    have kept: "hget (history ?r1) s = Some (?m # ms)" by simp
    note pr = prune_keeps_inv [OF ok1 kept _ _ ne p]
    have pr': "res = Ok () \<and> repo_ok r' \<and> cache_size r' = cache_size r"
      "history r' = hput s (take (cache_size r) (?m # ms)) (history ?r1)"
      "\<And>s' i. s' \<noteq> s \<Longrightarrow> stored s' i (file_io r') = stored s' i io"
      "\<And>i. i \<notin> meta_id ` set (drop (cache_size r) (?m # ms)) \<Longrightarrow> stored s i (file_io r') = stored s i io"
      using pr True by auto
    have shrink: "stored s' i (file_io r') \<noteq> None \<Longrightarrow> stored s' i io \<noteq> None" for s' i
      using pr True by (auto split: if_splits)
    have keep: "stored s (meta_id m) (file_io r') = stored s (meta_id m) io" if "m \<in> set (take (cache_size r) (?m # ms))" for m
    proof (rule pr'(4))
      have "distinct (map meta_id (take (cache_size r) (?m # ms) @ drop (cache_size r) (?m # ms)))"
        using hist(3) fresh by (simp del: take_Cons drop_Cons take_Suc_Cons)
      then show "meta_id m \<notin> meta_id ` set (drop (cache_size r) (?m # ms))"
        using that by (auto simp del: append_take_drop_id)
    qed
    have "versions stored r' s = Some (map (\<lambda>m. the (stored s (meta_id m) io)) (take (cache_size r) (?m # ms)))"
      using pr'(2) keep by (simp add: versions_def)
    also have "\<dots> = map_option (take (cache_size r)) (versions stored ?r1 s)"
      using take_map [of "cache_size r" "\<lambda>m. the (stored s (meta_id m) io)" "?m # ms"]
      by (simp add: versions_def)
    also have "\<dots> = Some (take (cache_size r) (strip st # the (versions stored r s)))"
      by (simp add: v1)
    finally have vs: "versions stored r' s = Some (take (cache_size r) (strip st # the (versions stored r s)))" .
    have vo: "versions stored r' s' = versions stored r s'" if "s' \<noteq> s" for s'
    proof -
      have "versions stored r' s' = versions stored ?r1 s'"
        using that pr'(2,3) by (simp add: versions_def)
      with that show ?thesis by (simp add: v1)
    qed
    have "versions stored r' = (versions stored r)(s \<mapsto> take (cache_size r) (strip st # the (versions stored r s)))"
      using vs vo by (intro ext) simp
    moreover have "stored s' i (file_io r) \<noteq> None \<or> s' = s \<and> i = now"
      if "stored s' i (file_io r') \<noteq> None" for s' i
      using shrink [OF that] io(3) [of s' i] by (simp split: if_splits)
    ultimately show ?thesis
      using Some io(1) p pr'(1) True
      by (intro exI [of _ r']) (simp add: update_snapshot_def versions_def)
  qed
qed

lemma load_latest_refines:
  assumes "repo_ok r" "versions stored r s = Some vs"
  shows "vs \<noteq> []" "load_latest ops s r = Ok (hd vs)"
proof -
  obtain ms where ms: "hget (history r) s = Some ms" "vs = map (\<lambda>m. the (stored s (meta_id m) (file_io r))) ms"
    using assms(2) by (auto simp: versions_def)
  note h = inv_history [OF assms(1) ms(1)]
  have "usable (file_io r)" using assms(1) by (simp add: repo_inv_def)
  with h ms show "vs \<noteq> []" "load_latest ops s r = Ok (hd vs)"
    by (cases ms; force simp: load_latest_def get_latest_snapshot_metadata_def get_snapshot_history_def
        dest: load_stored)+
qed

lemma revert_refines:
  assumes "repo_ok r" "versions stored r s = Some vs" "v \<in> set vs"
  shows "\<exists>r'. revert_to ops s (hash v) r = (Ok (hd (dropWhile (\<lambda>w. hash w \<noteq> hash v) vs)), r') \<and> repo_ok r'
    \<and> cache_size r' = cache_size r
    \<and> versions stored r' = (versions stored r)(s \<mapsto> dropWhile (\<lambda>w. hash w \<noteq> hash v) vs)"
proof -
  let ?st = "\<lambda>m. the (stored s (meta_id m) (file_io r))"
  obtain ms where ms: "hget (history r) s = Some ms" "vs = map ?st ms"
    using assms(2) by (auto simp: versions_def)
  note h = inv_history [OF assms(1) ms(1)]
  have hash_st: "hash (?st m) = meta_hash m" "stored s (meta_id m) (file_io r) = Some (?st m)" if "m \<in> set ms" for m
    using h(4) [OF that] by auto
  obtain idx where idx: "position (\<lambda>m. meta_hash m = hash v) ms = Some idx"
    using assms(3) ms(2) hash_st(1) by (cases "position (\<lambda>m. meta_hash m = hash v) ms") (auto simp: position_None)
  then have i: "idx < length ms" "meta_hash (ms ! idx) = hash v" "\<And>j. j < idx \<Longrightarrow> meta_hash (ms ! j) \<noteq> hash v"
    by (simp_all add: position_Some)
  have dw: "dropWhile (\<lambda>w. hash w \<noteq> hash v) vs = drop idx vs"
    using i hash_st(1) by (intro dropWhile_eq_drop_first) (simp_all add: ms(2))
  obtain res r' where p: "prune_snapshot_history_by_range ops s 0 idx r = (res, r')" by fastforce
  have "drop idx ms \<noteq> []" using i(1) by simp
  then have pr: "res = Ok ()" "repo_ok r'" "cache_size r' = cache_size r" "history r' = hput s (drop idx ms) (history r)"
    "\<And>s' i. stored s' i (file_io r') = (if s' = s \<and> i \<in> meta_id ` set (take idx ms) then None else stored s' i (file_io r))"
    using prune_keeps_inv [OF assms(1) ms(1) _ _ _ p] i(1) by auto
  have keep: "stored s (meta_id m) (file_io r') = stored s (meta_id m) (file_io r)" if "m \<in> set (drop idx ms)" for m
  proof -
    have "distinct (map meta_id (take idx ms @ drop idx ms))" using h(3) by simp
    then have "meta_id m \<notin> meta_id ` set (take idx ms)" using that by (auto simp del: append_take_drop_id)
    then show ?thesis using pr(5) by simp
  qed
  have "versions stored r' s = Some (drop idx vs)"
    using pr(4) keep by (simp add: versions_def ms(2) drop_map)
  moreover have "versions stored r' s' = versions stored r s'" if "s' \<noteq> s" for s'
    using that pr(4,5) by (simp add: versions_def)
  ultimately have "versions stored r' = (versions stored r)(s \<mapsto> drop idx vs)"
    by (intro ext) simp
  moreover have "io_load ops s (meta_id (ms ! idx)) (file_io r) = Ok (hd (drop idx vs))"
    using load_stored hash_st(2) [of "ms ! idx"] i(1) assms(1) by (simp add: ms(2) hd_drop_conv_nth repo_inv_def)
  ultimately show ?thesis
    using pr(1-3) p idx ms(1) dw by (intro exI [of _ r']) (auto simp: revert_to_def get_snapshot_history_def)
qed

text \<open>A run of updates of one shard, each at a later time than the one before.\<close>

lemma updates_refine:
  assumes "repo_ok r" "\<And>i. stored s i (file_io r) \<noteq> None \<Longrightarrow> i < t" "sorted_wrt (<) (map fst us)"
    "\<And>u. u \<in> set us \<Longrightarrow> t \<le> fst u \<and> valid_id (fst u)"
  shows "\<exists>r'. fold (\<lambda>(now, st) r. snd (update_snapshot ops now s st (hash st) r)) us r = r' \<and> repo_ok r'
    \<and> cache_size r' = cache_size r
    \<and> (us \<noteq> [] \<longrightarrow> versions stored r' s = Some (take (cache_size r)
          (rev (map (\<lambda>u. strip (snd u)) us) @ (case versions stored r s of None \<Rightarrow> [] | Some vs \<Rightarrow> vs))))"
  using assms
proof (induction us arbitrary: r t)
  case Nil
  then show ?case by simp
next
  case (Cons u us)
  obtain now st where u: "u = (now, st)" by (cases u)
  have new: "stored s now (file_io r) = None" "valid_id now" using Cons.prems(2,4) u by force+
  obtain r1 where r1: "update_snapshot ops now s st (hash st) r = (Ok (), r1)" "repo_ok r1" "cache_size r1 = cache_size r"
    "versions stored r1 s = Some (take (cache_size r) (strip st # (case versions stored r s of None \<Rightarrow> [] | Some vs \<Rightarrow> vs)))"
    "\<And>s' i. stored s' i (file_io r1) \<noteq> None \<Longrightarrow> stored s' i (file_io r) \<noteq> None \<or> s' = s \<and> i = now"
    using update_refines [OF Cons.prems(1) new(2,1) refl] by fastforce
  have "\<And>i. stored s i (file_io r1) \<noteq> None \<Longrightarrow> i < Suc now"
    using r1(5) Cons.prems(2,4) u by fastforce
  from Cons.IH [OF r1(2) this] Cons.prems(3,4) u obtain r' where
    r': "fold (\<lambda>(now, st) r. snd (update_snapshot ops now s st (hash st) r)) us r1 = r'" "repo_ok r'" "cache_size r' = cache_size r1"
    "us \<noteq> [] \<longrightarrow> versions stored r' s = Some (take (cache_size r1)
          (rev (map (\<lambda>u. strip (snd u)) us) @ (case versions stored r1 s of None \<Rightarrow> [] | Some vs \<Rightarrow> vs)))"
    by (auto simp: Suc_le_eq)
  with r1 u show ?case by (cases "us = []") auto
qed

end

section \<open>Properties\<close>

definition file_repo_inv :: "'key file_env \<Rightarrow> (state_dir, h256) snapshot_repository \<Rightarrow> bool" where
  "file_repo_inv env = repo_inv (file_usable env) (file_known env) (file_stored env) (\<lambda>e. file_state_hash env (state e))"

text \<open>C11: Snapshots of a shard form a bounded stack. Start from an empty repository over an empty, working
  state directory and write any states to a shard at strictly increasing times: the repository then
  holds the last \<open>sz\<close> of them, newest first and without their diffs, and loading the latest snapshot
  returns the last state written.\<close>
theorem snapshots_bounded_stack:
  assumes "file_usable env \<lparr>shard_dirs = [], fs_fails = False\<rparr>" "0 < sz"
    and "us \<noteq> []" "sorted_wrt (<) (map fst us)" "\<forall>u\<in>set us. fst u < 2 ^ 128"
    and "r = fold (\<lambda>(now, e) r. snd (update_snapshot (file_ops env) now shard e (file_state_hash env (state e)) r)) us
               \<lparr>file_io = \<lparr>shard_dirs = [], fs_fails = False\<rparr>, cache_size = sz, history = []\<rparr>"
  shows "versions (file_stored env) r shard = Some (take sz (rev (map (\<lambda>u. ext_new (state (snd u))) us)))
    \<and> load_latest (file_ops env) shard r = Ok (ext_new (state (snd (last us))))
    \<and> file_repo_inv env r"
proof -
  let ?r0 = "\<lparr>file_io = \<lparr>shard_dirs = [], fs_fails = False\<rparr>, cache_size = sz, history = []\<rparr>
    :: (state_dir, h256) snapshot_repository"
  have inv0: "repo_inv (file_usable env) (file_known env) (file_stored env) (\<lambda>e. file_state_hash env (state e)) ?r0"
    using assms(1,2) by (simp add: repo_inv_def)
  have empty: "file_stored env shard i (file_io ?r0) = None" for i
    by (simp add: file_stored_def file_load_def state_file_def)
  have r: "repo_inv (file_usable env) (file_known env) (file_stored env) (\<lambda>e. file_state_hash env (state e)) r"
    "versions (file_stored env) r shard = Some (take sz (rev (map (\<lambda>u. strip_diff (snd u)) us)))"
    using sgx_files.updates_refine [OF inv0, of shard 0 us] empty assms(3-6)
    by (auto simp: versions_def case_prod_unfold)
  have "hd (take sz (rev (map (\<lambda>u. strip_diff (snd u)) us))) = strip_diff (snd (last us))"
    using assms(2,3) by (cases us rule: rev_cases) (simp_all add: take_Cons')
  with r sgx_files.load_latest_refines(2) [OF r] show ?thesis
    by (simp add: file_repo_inv_def strip_diff_def)
qed

text \<open>C18: Reverting to a state hash that is still in the history returns the newest retained state with
  that hash and drops exactly the newer ones, keeping the repository consistent; other shards keep
  their history.\<close>
theorem snapshot_revert:
  assumes "file_repo_inv env r" "versions (file_stored env) r shard = Some vs" "v \<in> set vs"
    and "kept = dropWhile (\<lambda>w. file_state_hash env (state w) \<noteq> file_state_hash env (state v)) vs"
  shows "\<exists>r'. revert_to (file_ops env) shard (file_state_hash env (state v)) r = (Ok (hd kept), r')
    \<and> versions (file_stored env) r' = (versions (file_stored env) r)(shard \<mapsto> kept)
    \<and> load_latest (file_ops env) shard r' = Ok (hd kept) \<and> file_repo_inv env r'"
proof -
  have inv: "repo_inv (file_usable env) (file_known env) (file_stored env) (\<lambda>e. file_state_hash env (state e)) r"
    using assms(1) by (simp add: file_repo_inv_def)
  obtain r' where r': "revert_to (file_ops env) shard (file_state_hash env (state v)) r = (Ok (hd kept), r')"
    "repo_inv (file_usable env) (file_known env) (file_stored env) (\<lambda>e. file_state_hash env (state e)) r'"
    "versions (file_stored env) r' = (versions (file_stored env) r)(shard \<mapsto> kept)"
    using sgx_files.revert_refines [OF inv assms(2,3)] assms(4) by auto
  then show ?thesis
    using sgx_files.load_latest_refines(2) [OF r'(2), of shard kept] by (simp add: file_repo_inv_def)
qed

text \<open>Two snapshots of shard 1 in the example environment, the older with one entry, the newer with none.\<close>

definition example_updates :: "(state_id \<times> sgx_externalities) list" where
  "example_updates = [(10, ext_new []), (20, ext_new [([1], [2])]), (30, ext_new [])]"

definition example_repository :: "(state_dir, h256) snapshot_repository" where
  "example_repository =
     fold (\<lambda>(now, e) r. snd (update_snapshot (file_ops example_file_env) now 1 e (file_state_hash example_file_env (state e)) r))
       example_updates \<lparr>file_io = \<lparr>shard_dirs = [], fs_fails = False\<rparr>, cache_size = 2, history = []\<rparr>"

lemma example_updates_ok:
  "example_updates \<noteq> []" "sorted_wrt (<) (map fst example_updates)" "\<forall>u\<in>set example_updates. fst u < 2 ^ 128"
  by (simp_all add: example_updates_def)

theorem snapshots_bounded_stack_witness:
  "versions (file_stored example_file_env) example_repository 1 = Some [ext_new [], ext_new [([1], [2])]]
   \<and> load_latest (file_ops example_file_env) 1 example_repository = Ok (ext_new [])"
  using snapshots_bounded_stack [OF example_file_env_usable _ example_updates_ok example_repository_def]
  by (simp add: example_updates_def)

theorem snapshot_revert_witness:
  "\<exists>r'. revert_to (file_ops example_file_env) 1 1 example_repository = (Ok (ext_new [([1], [2])]), r')
    \<and> load_latest (file_ops example_file_env) 1 r' = Ok (ext_new [([1], [2])])"
proof -
  let ?r0 = "\<lparr>file_io = \<lparr>shard_dirs = [], fs_fails = False\<rparr>, cache_size = 2, history = []\<rparr>
    :: (state_dir, h256) snapshot_repository"
  have inv0: "repo_inv (file_usable example_file_env) (file_known example_file_env) (file_stored example_file_env)
      (\<lambda>e. file_state_hash example_file_env (state e)) ?r0"
    using example_file_env_usable by (simp add: repo_inv_def)
  have "file_stored example_file_env 1 i (file_io ?r0) = None" for i
    by (simp add: file_stored_def file_load_def state_file_def)
  then have r: "file_repo_inv example_file_env example_repository"
    "versions (file_stored example_file_env) example_repository 1 = Some [ext_new [], ext_new [([1], [2])]]"
    using sgx_files.updates_refine [OF inv0 _ example_updates_ok(2), of 1 0] example_updates_ok(1,3)
    by (auto simp: file_repo_inv_def example_repository_def versions_def case_prod_unfold)
      (simp add: example_updates_def strip_diff_def)
  from snapshot_revert [OF r, of "ext_new [([1], [2])]", OF _ refl] show ?thesis
    by (auto simp: example_file_env_def)
qed

end
