(* ===== verification/State_Handler.thy ===== *)
theory State_Handler
  imports State_Snapshots
begin

text \<open>
  The state handler (core-primitives/stf-state-handler, state_handler.rs) and the state observer
  (core-primitives/stf-state-observer). The handler keeps the current state of every shard in memory,
  writes a snapshot of each new state to the repository and queues it for the observer; \<open>hash\<close> is the
  state hash of the externalities. The write lock of \<open>load_for_mutation\<close> is held until the matching
  \<open>write_after_mutation\<close>, so the two run as one step on the state of the handler.
\<close>

section \<open>State observer\<close>

datatype observer_error = CurrentShardStateEmpty | ObserverLockPoisoning

record 'st state_observer =
  queued_state_updates :: "(shard_identifier, 'st) hmap"
  current_state :: "(shard_identifier, 'st) hmap"
  queue_poisoned :: bool
  current_poisoned :: bool

definition observer_from_map :: "(shard_identifier, 'st) hmap \<Rightarrow> 'st state_observer" where
  "observer_from_map m = \<lparr>queued_state_updates = [], current_state = m, queue_poisoned = False, current_poisoned = False\<rparr>"

definition apply_pending_update :: "'st state_observer \<Rightarrow> (observer_error, unit) result \<times> 'st state_observer" where
  "apply_pending_update ob =
     (if queue_poisoned ob then (Err ObserverLockPoisoning, ob)
      else let updates = queued_state_updates ob; ob' = ob\<lparr>queued_state_updates := []\<rparr>
           in if updates = [] then (Ok (), ob')
              else if current_poisoned ob then (Err ObserverLockPoisoning, ob')
              else (Ok (), ob'\<lparr>current_state := fold (\<lambda>(s, st) m. hput s st m) updates (current_state ob)\<rparr>))"

definition observe_state ::
  "shard_identifier \<Rightarrow> ('st \<Rightarrow> 'r \<times> 'st) \<Rightarrow> 'st state_observer \<Rightarrow> (observer_error, 'r) result \<times> 'st state_observer" where
  "observe_state shard f ob =
     (case apply_pending_update ob of
        (Err e, ob') \<Rightarrow> (Err e, ob')
      | (Ok _, ob') \<Rightarrow>
          if current_poisoned ob' then (Err ObserverLockPoisoning, ob')
          else case hget (current_state ob') shard of
            None \<Rightarrow> (Err CurrentShardStateEmpty, ob')
          | Some st \<Rightarrow>
              (case f st of (r, st') \<Rightarrow> (Ok r, ob'\<lparr>current_state := hput shard st' (current_state ob')\<rparr>)))"

definition queue_state_update :: "shard_identifier \<Rightarrow> 'st \<Rightarrow> 'st state_observer \<Rightarrow> (observer_error, unit) result \<times> 'st state_observer" where
  "queue_state_update shard st ob =
     (if queue_poisoned ob then (Err ObserverLockPoisoning, ob)
      else (Ok (), ob\<lparr>queued_state_updates := hput shard st (queued_state_updates ob)\<rparr>))"

section \<open>State handler\<close>

record 'io state_handler =
  repository :: "('io, h256) snapshot_repository"
  repository_poisoned :: bool
  states_map :: "(shard_identifier, sgx_externalities \<times> h256) hmap"
  states_poisoned :: bool
  observer :: "sgx_externalities state_observer"

definition load_all_latest_snapshots ::
  "('io, sgx_externalities, h256) file_io_ops \<Rightarrow> ((bytes, bytes) btree_map \<Rightarrow> h256) \<Rightarrow> ('io, h256) snapshot_repository
   \<Rightarrow> (handler_error, (shard_identifier, sgx_externalities \<times> h256) hmap) result" where
  "load_all_latest_snapshots ops hash r =
     (case repository_list_shards r of
        Err e \<Rightarrow> Err e
      | Ok shards \<Rightarrow>
          Ok (fold (\<lambda>shard m. case load_latest ops shard r of
                Ok e \<Rightarrow> hput shard (e, hash (state e)) m
              | Err _ \<Rightarrow> m) shards []))"

definition load_from_repository ::
  "('io, sgx_externalities, h256) file_io_ops \<Rightarrow> ((bytes, bytes) btree_map \<Rightarrow> h256) \<Rightarrow> ('io, h256) snapshot_repository
   \<Rightarrow> sgx_externalities state_observer \<Rightarrow> (handler_error, 'io state_handler) result" where
  "load_from_repository ops hash r ob =
     (case load_all_latest_snapshots ops hash r of
        Err e \<Rightarrow> Err e
      | Ok m \<Rightarrow> Ok \<lparr>repository = r, repository_poisoned = False, states_map = m, states_poisoned = False, observer = ob\<rparr>)"

definition execute_on_current ::
  "shard_identifier \<Rightarrow> (sgx_externalities \<Rightarrow> h256 \<Rightarrow> 'r) \<Rightarrow> 'io state_handler \<Rightarrow> (handler_error, 'r) result" where
  "execute_on_current shard f h =
     (if states_poisoned h then Err LockPoisoning
      else case hget (states_map h) shard of
        None \<Rightarrow> Err (InvalidShard shard)
      | Some (e, state_hash) \<Rightarrow> Ok (f e state_hash))"

definition load_cloned :: "shard_identifier \<Rightarrow> 'io state_handler \<Rightarrow> (handler_error, sgx_externalities \<times> h256) result" where
  "load_cloned shard h = execute_on_current shard Pair h"

definition load_for_mutation :: "shard_identifier \<Rightarrow> 'io state_handler \<Rightarrow> (handler_error, sgx_externalities) result" where
  "load_for_mutation shard h = execute_on_current shard (\<lambda>e _. e) h"

definition update_state_snapshot ::
  "('io, sgx_externalities, h256) file_io_ops \<Rightarrow> state_id \<Rightarrow> shard_identifier \<Rightarrow> sgx_externalities \<Rightarrow> h256
   \<Rightarrow> 'io state_handler \<Rightarrow> (handler_error, unit) result \<times> 'io state_handler" where
  "update_state_snapshot ops now shard e state_hash h =
     (if repository_poisoned h then (Err LockPoisoning, h)
      else case update_snapshot ops now shard e state_hash (repository h) of
        (res, r) \<Rightarrow> (res, h\<lparr>repository := r\<rparr>))"

definition write_after_mutation ::
  "('io, sgx_externalities, h256) file_io_ops \<Rightarrow> ((bytes, bytes) btree_map \<Rightarrow> h256) \<Rightarrow> state_id \<Rightarrow> sgx_externalities
   \<Rightarrow> shard_identifier \<Rightarrow> 'io state_handler \<Rightarrow> (handler_error, h256) result \<times> 'io state_handler" where
  "write_after_mutation ops hash now e shard h =
     (let e' = prune_state_diff e;
          state_hash = hash (state e');
          h1 = h\<lparr>states_map := hput shard (e', state_hash) (states_map h)\<rparr>
      in case update_state_snapshot ops now shard e' state_hash h1 of
           (Err x, h2) \<Rightarrow> (Err x, h2)
         | (Ok _, h2) \<Rightarrow>
             (case queue_state_update shard e' (observer h2) of
                (Err _, ob) \<Rightarrow> (Err StateObserverError, h2\<lparr>observer := ob\<rparr>)
              | (Ok _, ob) \<Rightarrow> (Ok state_hash, h2\<lparr>observer := ob\<rparr>)))"

definition reset_state ::
  "('io, sgx_externalities, h256) file_io_ops \<Rightarrow> ((bytes, bytes) btree_map \<Rightarrow> h256) \<Rightarrow> state_id \<Rightarrow> sgx_externalities
   \<Rightarrow> shard_identifier \<Rightarrow> 'io state_handler \<Rightarrow> (handler_error, h256) result \<times> 'io state_handler" where
  "reset_state ops hash now e shard h =
     (if states_poisoned h then (Err LockPoisoning, h) else write_after_mutation ops hash now e shard h)"

definition handler_initialize_shard ::
  "('io, sgx_externalities, h256) file_io_ops \<Rightarrow> ((bytes, bytes) btree_map \<Rightarrow> h256) \<Rightarrow> state_id
   \<Rightarrow> (handler_error, sgx_externalities) result \<Rightarrow> shard_identifier \<Rightarrow> 'io state_handler
   \<Rightarrow> (handler_error, h256) result \<times> 'io state_handler" where
  "handler_initialize_shard ops hash now initial shard h =
     (case initial of Err e \<Rightarrow> (Err e, h) | Ok e \<Rightarrow> reset_state ops hash now e shard h)"

definition handler_shard_exists :: "shard_identifier \<Rightarrow> 'io state_handler \<Rightarrow> (handler_error, bool) result" where
  "handler_shard_exists shard h =
     (if states_poisoned h then Err LockPoisoning else Ok (hget (states_map h) shard \<noteq> None))"

definition handler_list_shards :: "'io state_handler \<Rightarrow> (handler_error, shard_identifier list) result" where
  "handler_list_shards h =
     (if states_poisoned h then Err LockPoisoning else Ok (map fst (states_map h)))"

section \<open>Memory, files and observer agree\<close>

definition handler_inv :: "'key file_env \<Rightarrow> state_dir state_handler \<Rightarrow> bool" where
  "handler_inv env h \<longleftrightarrow> file_repo_inv env (repository h) \<and> \<not> repository_poisoned h \<and> \<not> states_poisoned h
     \<and> \<not> queue_poisoned (observer h) \<and> \<not> current_poisoned (observer h) \<and> hwf (states_map h)
     \<and> hwf (queued_state_updates (observer h))
     \<and> (\<forall>s e x. hget (states_map h) s = Some (e, x) \<longrightarrow> state_diff e = [] \<and> x = file_state_hash env (state e)
          \<and> (\<exists>vs. versions (file_stored env) (repository h) s = Some (e # vs)))
     \<and> (\<forall>s. hget (states_map h) s = None \<longrightarrow> hget (history (repository h)) s = None)"

lemma fold_hput_lookup:
  "distinct (map fst us) \<Longrightarrow> hget (fold (\<lambda>(s, st) m. hput s st m) us m) k
     = (case hget us k of Some v \<Rightarrow> Some v | None \<Rightarrow> hget m k)"
proof (induction us arbitrary: m)
  case Nil
  then show ?case by simp
next
  case (Cons p us)
  obtain s st where p: "p = (s, st)" by (cases p)
  then have "hget us s = None" using Cons.prems by (simp add: map_of_eq_None_iff)
  with Cons p show ?case by (simp split: option.split)
qed

lemma observe_queued:
  assumes "\<not> queue_poisoned ob" "\<not> current_poisoned ob" "hwf (queued_state_updates ob)"
    and "hget (queued_state_updates ob) shard = Some st"
  shows "fst (observe_state shard f ob) = Ok (fst (f st))"
proof -
  have "queued_state_updates ob \<noteq> []" using assms(4) by auto
  with assms show ?thesis
    by (simp add: observe_state_def apply_pending_update_def Let_def fold_hput_lookup split: prod.split)
qed

lemma update_snapshot_file_repo:
  assumes "file_repo_inv env r" "now < 2 ^ 128" "file_stored env shard now (file_io r) = None"
  shows "\<exists>r'. update_snapshot (file_ops env) now shard e (file_state_hash env (state e)) r = (Ok (), r')
    \<and> file_repo_inv env r'
    \<and> (\<exists>vs. versions (file_stored env) r' = (versions (file_stored env) r)(shard \<mapsto> ext_new (state e) # vs))"
proof -
  have inv: "repo_inv (file_usable env) (file_known env) (file_stored env) (\<lambda>e. file_state_hash env (state e)) r"
    using assms(1) by (simp add: file_repo_inv_def)
  then have "0 < cache_size r" by (simp add: repo_inv_def)
  then obtain n where "cache_size r = Suc n" by (cases "cache_size r") auto
  then show ?thesis
    using sgx_files.update_refines [OF inv assms(2,3) refl, of e]
    by (auto simp: file_repo_inv_def strip_diff_def)
qed

lemma write_after_mutation_ok:
  assumes "handler_inv env h" "now < 2 ^ 128" "file_stored env shard now (file_io (repository h)) = None"
  shows "\<exists>r vs. write_after_mutation (file_ops env) (file_state_hash env) now e shard h
      = (Ok (file_state_hash env (state e)),
         h\<lparr>states_map := hput shard (ext_new (state e), file_state_hash env (state e)) (states_map h),
           repository := r,
           observer := (observer h)\<lparr>queued_state_updates := hput shard (ext_new (state e)) (queued_state_updates (observer h))\<rparr>\<rparr>)
    \<and> handler_inv env (h\<lparr>states_map := hput shard (ext_new (state e), file_state_hash env (state e)) (states_map h),
           repository := r,
           observer := (observer h)\<lparr>queued_state_updates := hput shard (ext_new (state e)) (queued_state_updates (observer h))\<rparr>\<rparr>)
    \<and> file_repo_inv env r
    \<and> versions (file_stored env) r = (versions (file_stored env) (repository h))(shard \<mapsto> ext_new (state e) # vs)"
proof -
  have inv: "file_repo_inv env (repository h)" using assms(1) by (simp add: handler_inv_def)
  obtain r vs where r: "update_snapshot (file_ops env) now shard (ext_new (state e)) (file_state_hash env (state e)) (repository h) = (Ok (), r)"
    "file_repo_inv env r"
    "versions (file_stored env) r = (versions (file_stored env) (repository h))(shard \<mapsto> ext_new (state e) # vs)"
    using update_snapshot_file_repo [OF inv assms(2,3), of "ext_new (state e)"] by auto
  let ?ob = "(observer h)\<lparr>queued_state_updates := hput shard (ext_new (state e)) (queued_state_updates (observer h))\<rparr>"
  let ?h' = "h\<lparr>states_map := hput shard (ext_new (state e), file_state_hash env (state e)) (states_map h),
      repository := r, observer := ?ob\<rparr>"
  have prune: "prune_state_diff e = ext_new (state e)"
    by (cases e) (simp add: prune_state_diff_def ext_new_def)
  have hist: "hget (history r) s = None \<longleftrightarrow> s \<noteq> shard \<and> hget (history (repository h)) s = None" for s
  proof -
    have "versions (file_stored env) r s = None \<longleftrightarrow> s \<noteq> shard \<and> versions (file_stored env) (repository h) s = None"
      by (simp add: r(3))
    then show ?thesis by (simp add: versions_def)
  qed
  have "write_after_mutation (file_ops env) (file_state_hash env) now e shard h = (Ok (file_state_hash env (state e)), ?h')"
  proof -
    have "\<not> repository_poisoned h" "\<not> queue_poisoned (observer h)" using assms(1) by (simp_all add: handler_inv_def)
    with r(1) show ?thesis
      unfolding write_after_mutation_def prune
      by (simp add: update_state_snapshot_def queue_state_update_def Let_def)
  qed
  moreover have "handler_inv env ?h'"
    unfolding handler_inv_def
  proof (intro conjI allI impI; (use assms(1) r(2) hist in \<open>simp add: handler_inv_def; fail\<close>)?)
    fix s e' x
    assume "hget (states_map ?h') s = Some (e', x)"
    then show "state_diff e' = []" "x = file_state_hash env (state e')"
      "\<exists>vs. versions (file_stored env) (repository ?h') s = Some (e' # vs)"
      using assms(1) r(3) by (auto simp: handler_inv_def split: if_splits)
  next
    fix s
    assume "hget (states_map ?h') s = None"
    then show "hget (history (repository ?h')) s = None"
      using assms(1) hist [of s] by (simp add: handler_inv_def split: if_splits)
  qed
  ultimately show ?thesis using r(2,3) by blast
qed

section \<open>Properties\<close>

text \<open>C12: After a state is written back, every view of the shard shows it: the in-memory copy and its hash,
  the latest snapshot in the encrypted files, and the observer, all without the diff; other shards
  are unchanged in memory, and the handler stays consistent.\<close>
theorem write_after_mutation_coherent:
  assumes "handler_inv env h" "now < 2 ^ 128" "file_stored env shard now (file_io (repository h)) = None"
  shows "\<exists>h'. write_after_mutation (file_ops env) (file_state_hash env) now e shard h
        = (Ok (file_state_hash env (state e)), h')
    \<and> handler_inv env h'
    \<and> load_cloned shard h' = Ok (ext_new (state e), file_state_hash env (state e))
    \<and> load_latest (file_ops env) shard (repository h') = Ok (ext_new (state e))
    \<and> fst (observe_state shard f (observer h')) = Ok (fst (f (ext_new (state e))))
    \<and> (\<forall>s. s \<noteq> shard \<longrightarrow> load_cloned s h' = load_cloned s h)"
proof -
  let ?ob = "(observer h)\<lparr>queued_state_updates := hput shard (ext_new (state e)) (queued_state_updates (observer h))\<rparr>"
  obtain r vs where w: "write_after_mutation (file_ops env) (file_state_hash env) now e shard h
      = (Ok (file_state_hash env (state e)),
         h\<lparr>states_map := hput shard (ext_new (state e), file_state_hash env (state e)) (states_map h),
           repository := r, observer := ?ob\<rparr>)"
    "handler_inv env (h\<lparr>states_map := hput shard (ext_new (state e), file_state_hash env (state e)) (states_map h),
           repository := r, observer := ?ob\<rparr>)"
    "file_repo_inv env r"
    "versions (file_stored env) r = (versions (file_stored env) (repository h))(shard \<mapsto> ext_new (state e) # vs)"
    using write_after_mutation_ok [OF assms, of e] by blast
  have "load_latest (file_ops env) shard r = Ok (ext_new (state e))"
    using sgx_files.load_latest_refines(2) [of env r shard] w(3,4) by (simp add: file_repo_inv_def)
  moreover have "fst (observe_state shard f ?ob) = Ok (fst (f (ext_new (state e))))"
    using assms(1) by (intro observe_queued) (simp_all add: handler_inv_def)
  moreover have "\<not> states_poisoned h" using assms(1) by (simp add: handler_inv_def)
  ultimately show ?thesis
    using w(1,2)
    by (intro exI [of _ "h\<lparr>states_map := hput shard (ext_new (state e), file_state_hash env (state e)) (states_map h),
           repository := r, observer := ?ob\<rparr>"]) (simp add: load_cloned_def execute_on_current_def)
qed

text \<open>C24: Restarting loses nothing: rebuilding the handler from its repository succeeds and gives every
  shard the same current state and hash as before.\<close>
theorem restart_recovers_states:
  assumes "handler_inv env h"
  shows "\<exists>h'. load_from_repository (file_ops env) (file_state_hash env) (repository h) ob = Ok h'
    \<and> (\<forall>s. hget (states_map h') s = hget (states_map h) s)"
proof -
  let ?r = "repository h"
  have inv: "repo_inv (file_usable env) (file_known env) (file_stored env) (\<lambda>e. file_state_hash env (state e)) ?r"
    using assms by (simp add: handler_inv_def file_repo_inv_def)
  have known: "hget (states_map h) s = (if s \<in> set (map fst (history ?r))
      then (case load_latest (file_ops env) s ?r of Ok e \<Rightarrow> Some (e, file_state_hash env (state e)) | Err _ \<Rightarrow> None)
      else None)" for s
  proof (cases "hget (states_map h) s")
    case None
    then have "hget (history ?r) s = None" using assms by (simp add: handler_inv_def)
    with None show ?thesis by (simp add: map_of_eq_None_iff)
  next
    case (Some p)
    obtain e x where p: "p = (e, x)" by (cases p)
    with Some obtain vs where x: "x = file_state_hash env (state e)"
      "versions (file_stored env) ?r s = Some (e # vs)" using assms unfolding handler_inv_def by blast
    then have "hget (history ?r) s \<noteq> None" by (auto simp: versions_def)
    then have "s \<in> set (map fst (history ?r))" by (simp add: map_of_eq_None_iff)
    with Some x p show ?thesis
      using sgx_files.load_latest_refines(2) [OF inv x(2)] by simp
  qed
  have "hget (fold (\<lambda>s m. case load_latest (file_ops env) s ?r of
        Ok e \<Rightarrow> hput s (e, file_state_hash env (state e)) m | Err _ \<Rightarrow> m) ss m) s
      = (if s \<in> set ss then (case load_latest (file_ops env) s ?r of
            Ok e \<Rightarrow> Some (e, file_state_hash env (state e)) | Err _ \<Rightarrow> hget m s) else hget m s)" for ss m s
    by (induction ss arbitrary: m) (auto split: result.split)
  then show ?thesis
    using known by (auto simp: load_from_repository_def load_all_latest_snapshots_def repository_list_shards_def
        split: result.split)
qed

text \<open>C30: The in-memory state is replaced before the snapshot is written: when the repository reports an
  error, \<open>write_after_mutation\<close> reports it too, but the shard's current state is already the new one
  while the observer has not been told.\<close>
theorem write_failure_changes_memory:
  assumes "update_snapshot ops now shard (prune_state_diff e) (hash (state e)) (repository h) = (Err x, r)"
    and "\<not> repository_poisoned h" "\<not> states_poisoned h"
  shows "\<exists>h'. write_after_mutation ops hash now e shard h = (Err x, h')
    \<and> load_cloned shard h' = Ok (prune_state_diff e, hash (state e)) \<and> observer h' = observer h"
proof -
  have "state (prune_state_diff e) = state e" by (simp add: prune_state_diff_def)
  with assms show ?thesis
    by (simp add: write_after_mutation_def update_state_snapshot_def Let_def load_cloned_def execute_on_current_def)
qed

text \<open>An empty handler over the example files, and the handler after one write to shard 1.\<close>

definition example_handler :: "state_dir state_handler" where
  "example_handler = \<lparr>repository = \<lparr>file_io = \<lparr>shard_dirs = [], fs_fails = False\<rparr>, cache_size = 2, history = []\<rparr>,
     repository_poisoned = False, states_map = [], states_poisoned = False, observer = observer_from_map []\<rparr>"

lemma example_handler_inv: "handler_inv example_file_env example_handler"
  using example_file_env_usable
  by (simp add: handler_inv_def example_handler_def observer_from_map_def file_repo_inv_def repo_inv_def)

lemma example_handler_fresh: "file_stored example_file_env shard now (file_io (repository example_handler)) = None"
  by (simp add: example_handler_def file_stored_def file_load_def state_file_def)

theorem write_after_mutation_coherent_witness:
  "\<exists>h'. write_after_mutation (file_ops example_file_env) (file_state_hash example_file_env) 10
       \<lparr>state = [([1], [2])], state_diff = [([1], Some [2])]\<rparr> 1 example_handler = (Ok 1, h')
     \<and> load_cloned 1 h' = Ok (ext_new [([1], [2])], 1)
     \<and> load_latest (file_ops example_file_env) 1 (repository h') = Ok (ext_new [([1], [2])])
     \<and> fst (observe_state 1 (\<lambda>e. (ext_get [1] e, e)) (observer h')) = Ok (Some [2])"
  using write_after_mutation_coherent [OF example_handler_inv _ example_handler_fresh, of 10
      "\<lparr>state = [([1], [2])], state_diff = [([1], Some [2])]\<rparr>" 1 "\<lambda>e. (ext_get [1] e, e)"]
  by (auto simp: example_file_env_def ext_get_def)

theorem restart_recovers_states_witness:
  "\<exists>h' h''. write_after_mutation (file_ops example_file_env) (file_state_hash example_file_env) 10
       (ext_new [([1], [2])]) 1 example_handler = (Ok 1, h')
     \<and> load_from_repository (file_ops example_file_env) (file_state_hash example_file_env) (repository h') (observer_from_map []) = Ok h''
     \<and> hget (states_map h'') 1 = Some (ext_new [([1], [2])], 1)"
proof -
  obtain h' where h': "write_after_mutation (file_ops example_file_env) (file_state_hash example_file_env) 10
       (ext_new [([1], [2])]) 1 example_handler = (Ok 1, h')" "handler_inv example_file_env h'"
    "hget (states_map h') 1 = Some (ext_new [([1], [2])], 1)"
    using write_after_mutation_ok [OF example_handler_inv _ example_handler_fresh, of 10 "ext_new [([1], [2])]" 1]
    by (auto simp: example_file_env_def)
  from restart_recovers_states [OF h'(2)] h' show ?thesis by metis
qed

theorem write_failure_changes_memory_witness:
  "\<exists>h'. write_after_mutation (file_ops example_file_env) (file_state_hash example_file_env) 10
       \<lparr>state = [([1], [2])], state_diff = [([1], Some [2])]\<rparr> 1
       (example_handler\<lparr>repository := (repository example_handler)\<lparr>file_io := \<lparr>shard_dirs = [], fs_fails = True\<rparr>\<rparr>\<rparr>) = (Err IOError, h')
     \<and> load_cloned 1 h' = Ok (ext_new [([1], [2])], 1) \<and> observer h' = observer_from_map []"
proof -
  let ?e = "\<lparr>state = [([1], [2])], state_diff = [([1], Some [2])]\<rparr> :: sgx_externalities"
  let ?h = "example_handler\<lparr>repository := (repository example_handler)\<lparr>file_io := \<lparr>shard_dirs = [], fs_fails = True\<rparr>\<rparr>\<rparr>"
  have "\<exists>r. update_snapshot (file_ops example_file_env) 10 1 (prune_state_diff ?e)
      (file_state_hash example_file_env (state ?e)) (repository ?h) = (Err IOError, r)"
    by (simp add: example_handler_def update_snapshot_def initialize_shard_with_snapshot_def file_ops_def
        file_initialize_shard_def create_shard_def)
  then obtain r where "update_snapshot (file_ops example_file_env) 10 1 (prune_state_diff ?e)
      (file_state_hash example_file_env (state ?e)) (repository ?h) = (Err IOError, r)" by blast
  from write_failure_changes_memory [where h = ?h and e = ?e and hash = "file_state_hash example_file_env", OF this] show ?thesis
    by (simp add: example_handler_def example_file_env_def prune_state_diff_def ext_new_def)
qed

end
