(* ===== verification/Parentchain_Dispatcher.thy ===== *)
theory Parentchain_Dispatcher
  imports Import_Queue
begin

text \<open>
  The parentchain block import dispatchers (core/parentchain/block-import-dispatcher). The block
  importer is the trait ImportParentchainBlocks: a function from its state, the blocks and the
  events to a result and its next state, an argument of every operation here.
\<close>

section \<open>State and operations\<close>

datatype 'ie dispatch_error =
    DispatchSgx | CanNotAssignTwoDispatcher | NoDispatcherAssigned
  | ImportQueueError queue_error | BlockImportError 'ie | DispatchOther

type_synonym ('i, 'b, 'ie) block_importer =
  "'i \<Rightarrow> 'b list \<Rightarrow> u8 list list \<Rightarrow> ('ie, unit) result \<times> 'i"

record ('i, 'b) triggered_dispatcher =
  block_importer :: 'i
  import_queue :: "'b import_queue"
  events_queue :: "u8 list import_queue"

definition run_importer ::
  "('i, 'b, 'ie) block_importer \<Rightarrow> 'b list \<Rightarrow> u8 list list \<Rightarrow> ('i, 'b) triggered_dispatcher
   \<Rightarrow> ('ie dispatch_error, unit) result \<times> ('i, 'b) triggered_dispatcher" where
  "run_importer imp bs es d =
     (let (r, i') = imp (block_importer d) bs es
      in (map_err BlockImportError r, d\<lparr>block_importer := i'\<rparr>))"

definition dispatch_import ::
  "('i, 'b, 'ie) block_importer \<Rightarrow> 'b list \<Rightarrow> u8 list list \<Rightarrow> bool \<Rightarrow> ('i, 'b) triggered_dispatcher
   \<Rightarrow> ('ie dispatch_error, unit) result \<times> ('i, 'b) triggered_dispatcher" where
  "dispatch_import imp blocks events immediate_import d =
     (if immediate_import then run_importer imp blocks events d
      else case push_multiple events (events_queue d) of
        (Err e, eq) \<Rightarrow> (Err (ImportQueueError e), d\<lparr>events_queue := eq\<rparr>)
      | (Ok _, eq) \<Rightarrow>
          (case push_multiple blocks (import_queue d) of
             (r, bq) \<Rightarrow> (map_err ImportQueueError r, d\<lparr>events_queue := eq, import_queue := bq\<rparr>)))"

definition last_opt :: "'a list \<Rightarrow> 'a option" where
  "last_opt xs = (if xs = [] then None else Some (last xs))"

definition import_all ::
  "('i, 'b, 'ie) block_importer \<Rightarrow> ('i, 'b) triggered_dispatcher
   \<Rightarrow> ('ie dispatch_error, 'b option) result \<times> ('i, 'b) triggered_dispatcher" where
  "import_all imp d =
     (case pop_all (import_queue d) of
        (Err e, bq) \<Rightarrow> (Err (ImportQueueError e), d\<lparr>import_queue := bq\<rparr>)
      | (Ok bs, bq) \<Rightarrow>
          (case pop_all (events_queue d) of
             (Err e, eq) \<Rightarrow> (Err (ImportQueueError e), d\<lparr>import_queue := bq, events_queue := eq\<rparr>)
           | (Ok es, eq) \<Rightarrow>
               (case run_importer imp bs es (d\<lparr>import_queue := bq, events_queue := eq\<rparr>) of
                  (Err e, d') \<Rightarrow> (Err e, d')
                | (Ok _, d') \<Rightarrow> (Ok (last_opt bs), d'))))"

definition import_all_but_latest ::
  "('i, 'b, 'ie) block_importer \<Rightarrow> ('i, 'b) triggered_dispatcher
   \<Rightarrow> ('ie dispatch_error, unit) result \<times> ('i, 'b) triggered_dispatcher" where
  "import_all_but_latest imp d =
     (case pop_all_but_last (import_queue d) of
        (Err e, bq) \<Rightarrow> (Err (ImportQueueError e), d\<lparr>import_queue := bq\<rparr>)
      | (Ok bs, bq) \<Rightarrow>
          (case pop_all_but_last (events_queue d) of
             (Err e, eq) \<Rightarrow> (Err (ImportQueueError e), d\<lparr>import_queue := bq, events_queue := eq\<rparr>)
           | (Ok es, eq) \<Rightarrow> run_importer imp bs es (d\<lparr>import_queue := bq, events_queue := eq\<rparr>)))"

definition import_until ::
  "('i, 'b, 'ie) block_importer \<Rightarrow> ('b \<Rightarrow> bool) \<Rightarrow> ('i, 'b) triggered_dispatcher
   \<Rightarrow> ('ie dispatch_error, 'b option) result \<times> ('i, 'b) triggered_dispatcher" where
  "import_until imp P d =
     (case pop_until P (import_queue d) of
        (Err e, bq) \<Rightarrow> (Err (ImportQueueError e), d\<lparr>import_queue := bq\<rparr>)
      | (Ok bs, bq) \<Rightarrow>
          (case pop_from_front_until (length bs) (events_queue d) of
             (Err e, eq) \<Rightarrow> (Err (ImportQueueError e), d\<lparr>import_queue := bq, events_queue := eq\<rparr>)
           | (Ok es, eq) \<Rightarrow>
               (case run_importer imp bs es (d\<lparr>import_queue := bq, events_queue := eq\<rparr>) of
                  (Err e, d') \<Rightarrow> (Err e, d')
                | (Ok _, d') \<Rightarrow> (Ok (last_opt bs), d'))))"

definition peek :: "('b \<Rightarrow> bool) \<Rightarrow> ('i, 'b) triggered_dispatcher \<Rightarrow> ('ie dispatch_error, 'b option) result" where
  "peek P d = map_err ImportQueueError (peek_find P (import_queue d))"

definition peek_latest :: "('i, 'b) triggered_dispatcher \<Rightarrow> ('ie dispatch_error, 'b option) result" where
  "peek_latest d = map_err ImportQueueError (peek_last (import_queue d))"

text \<open>The immediate dispatcher: its observers are callbacks on an environment state.\<close>

record ('i, 'w) immediate_dispatcher =
  imm_block_importer :: 'i
  import_event_observers :: "('w \<Rightarrow> 'w) list"

definition with_observer :: "('w \<Rightarrow> 'w) \<Rightarrow> ('i, 'w) immediate_dispatcher \<Rightarrow> ('i, 'w) immediate_dispatcher" where
  "with_observer f d = d\<lparr>import_event_observers := import_event_observers d @ [f]\<rparr>"

definition immediate_dispatch_import ::
  "('i, 'b, 'ie) block_importer \<Rightarrow> 'b list \<Rightarrow> u8 list list \<Rightarrow> bool
   \<Rightarrow> ('i, 'w) immediate_dispatcher \<Rightarrow> 'w
   \<Rightarrow> ('ie dispatch_error, unit) result \<times> ('i, 'w) immediate_dispatcher \<times> 'w" where
  "immediate_dispatch_import imp blocks events immediate d w =
     (case imp (imm_block_importer d) blocks events of
        (Err e, i') \<Rightarrow> (Err (BlockImportError e), d\<lparr>imm_block_importer := i'\<rparr>, w)
      | (Ok _, i') \<Rightarrow>
          (Ok (), d\<lparr>imm_block_importer := i'\<rparr>, fold (\<lambda>f w. f w) (import_event_observers d) w))"

datatype ('t, 'm) block_import_dispatcher =
  TriggeredDispatcher 't | ImmediateDispatcher 'm | EmptyDispatcher

fun dispatcher_dispatch_import ::
  "('i, 'b, 'ie) block_importer \<Rightarrow> 'b list \<Rightarrow> u8 list list \<Rightarrow> bool
   \<Rightarrow> (('i, 'b) triggered_dispatcher, ('i, 'w) immediate_dispatcher) block_import_dispatcher \<Rightarrow> 'w
   \<Rightarrow> ('ie dispatch_error, unit) result
      \<times> (('i, 'b) triggered_dispatcher, ('i, 'w) immediate_dispatcher) block_import_dispatcher \<times> 'w" where
  "dispatcher_dispatch_import imp bs es im (TriggeredDispatcher d) w =
     (case dispatch_import imp bs es im d of (r, d') \<Rightarrow> (r, TriggeredDispatcher d', w))"
| "dispatcher_dispatch_import imp bs es im (ImmediateDispatcher d) w =
     (case immediate_dispatch_import imp bs es im d w of (r, d', w') \<Rightarrow> (r, ImmediateDispatcher d', w'))"
| "dispatcher_dispatch_import imp bs es im EmptyDispatcher w = (Err NoDispatcherAssigned, EmptyDispatcher, w)"

section \<open>Every dispatched block reaches the importer once, in order\<close>

text \<open>
  \<open>logged imp\<close> is the importer \<open>imp\<close> that also records the block and event pairs it was handed.
\<close>

definition logged :: "('i, 'b, 'ie) block_importer \<Rightarrow> ('i \<times> ('b \<times> u8 list) list, 'b, 'ie) block_importer" where
  "logged imp = (\<lambda>(i, l) bs es. (case imp i bs es of (r, i') \<Rightarrow> (r, (i', l @ zip bs es))))"

definition aligned :: "('i, 'b) triggered_dispatcher \<Rightarrow> bool" where
  "aligned d \<longleftrightarrow> \<not> poisoned (import_queue d) \<and> \<not> poisoned (events_queue d)
     \<and> length (queue (import_queue d)) = length (queue (events_queue d))"

definition pending :: "('i, 'b) triggered_dispatcher \<Rightarrow> ('b \<times> u8 list) list" where
  "pending d = zip (queue (import_queue d)) (queue (events_queue d))"

datatype 'b command =
    Dispatch "'b list" "u8 list list" | ImportAll | ImportAllButLatest | ImportUntil "'b \<Rightarrow> bool"

fun exec_command :: "('i, 'b, 'ie) block_importer \<Rightarrow> 'b command \<Rightarrow> ('i, 'b) triggered_dispatcher \<Rightarrow> ('i, 'b) triggered_dispatcher" where
  "exec_command imp (Dispatch bs es) d = snd (dispatch_import imp bs es False d)"
| "exec_command imp ImportAll d = snd (import_all imp d)"
| "exec_command imp ImportAllButLatest d = snd (import_all_but_latest imp d)"
| "exec_command imp (ImportUntil P) d = snd (import_until imp P d)"

fun dispatched :: "'b command list \<Rightarrow> ('b \<times> u8 list) list" where
  "dispatched [] = []"
| "dispatched (Dispatch bs es # cs) = zip bs es @ dispatched cs"
| "dispatched (_ # cs) = dispatched cs"

fun paired :: "'b command \<Rightarrow> bool" where
  "paired (Dispatch bs es) = (length bs = length es)"
| "paired _ = True"

lemma run_importer_logged:
  "snd (run_importer (logged imp) bs es d) =
     d\<lparr>block_importer := (snd (imp (fst (block_importer d)) bs es), snd (block_importer d) @ zip bs es)\<rparr>"
  by (cases "block_importer d") (simp add: run_importer_def logged_def split: prod.split)

lemma snd_case_result_prod:
  "snd (case x of (Err e, d') \<Rightarrow> (Err e, d') | (Ok _, d') \<Rightarrow> (Ok y, d')) = snd x"
  by (cases x) (simp split: result.split)

lemma exec_command_conserves:
  assumes "aligned d" "paired c"
  shows "aligned (exec_command (logged imp) c d)"
    and "snd (block_importer (exec_command (logged imp) c d)) @ pending (exec_command (logged imp) c d)
         = snd (block_importer d) @ pending d @ dispatched [c]"
proof -
  let ?d' = "exec_command (logged imp) c d"
  have u: "\<not> poisoned (import_queue d)" "\<not> poisoned (events_queue d)"
    "length (queue (import_queue d)) = length (queue (events_queue d))"
    using assms(1) by (simp_all add: aligned_def)
  have "aligned ?d' \<and> snd (block_importer ?d') @ pending ?d' = snd (block_importer d) @ pending d @ dispatched [c]"
  proof (cases c)
    case (Dispatch bs es)
    with u assms(2) show ?thesis
      by (simp add: dispatch_import_def push_multiple_def aligned_def pending_def)
  next
    case ImportAll
    with u show ?thesis
      by (simp add: import_all_def pop_all_def drain_to_def snd_case_result_prod run_importer_logged
          aligned_def pending_def)
  next
    case ImportAllButLatest
    obtain bq where b: "pop_all_but_last (import_queue d) = (Ok (take (length (queue (import_queue d)) - 1) (queue (import_queue d))), bq)"
      "queue bq = drop (length (queue (import_queue d)) - 1) (queue (import_queue d))" "\<not> poisoned bq"
      using iq.deq_all_but_last_ok [OF u(1)] by blast
    obtain eq where e: "pop_all_but_last (events_queue d) = (Ok (take (length (queue (events_queue d)) - 1) (queue (events_queue d))), eq)"
      "queue eq = drop (length (queue (events_queue d)) - 1) (queue (events_queue d))" "\<not> poisoned eq"
      using iq.deq_all_but_last_ok [OF u(2)] by blast
    show ?thesis
      using ImportAllButLatest u(3) b e
      by (simp add: import_all_but_latest_def run_importer_logged aligned_def pending_def
          take_zip [symmetric] drop_zip [symmetric])
  next
    case (ImportUntil P)
    obtain bs bq where b: "pop_until P (import_queue d) = (Ok bs, bq)"
      using iq.deq_until_ok [OF u(1)] by blast
    obtain es eq where "pop_from_front_until (length bs) (events_queue d) = (Ok es, eq)"
      "\<not> poisoned eq" "\<not> poisoned bq" "length (queue bq) = length (queue eq)"
      "zip bs es @ zip (queue bq) (queue eq) = zip (queue (import_queue d)) (queue (events_queue d))"
      using iqs.aligned_after_until [OF u b] by blast
    with ImportUntil b show ?thesis
      by (simp add: import_until_def snd_case_result_prod run_importer_logged aligned_def pending_def)
  qed
  then show "aligned ?d'" "snd (block_importer ?d') @ pending ?d' = snd (block_importer d) @ pending d @ dispatched [c]"
    by simp_all
qed

lemma dispatched_Cons: "dispatched (c # cs) = dispatched [c] @ dispatched cs"
  by (cases c) simp_all

lemma exec_commands_conserve:
  assumes "aligned d" "list_all paired cs"
  shows "aligned (fold (exec_command (logged imp)) cs d)
    \<and> snd (block_importer (fold (exec_command (logged imp)) cs d)) @ pending (fold (exec_command (logged imp)) cs d)
      = snd (block_importer d) @ pending d @ dispatched cs"
  using assms
proof (induction cs arbitrary: d)
  case Nil
  then show ?case by simp
next
  case (Cons c cs)
  note step = exec_command_conserves [of d c imp]
  from Cons step show ?case by (simp add: dispatched_Cons [of c cs])
qed

section \<open>Properties\<close>

definition new_dispatcher :: "'i \<Rightarrow> ('i, 'b) triggered_dispatcher" where
  "new_dispatcher i = \<lparr>block_importer = i, import_queue = default_queue, events_queue = default_queue\<rparr>"



text \<open>C26: Triggering an import up to a block: with paired queues, if \<open>p\<close> is the position of the first
  queued block that matches, the importer gets exactly the blocks up to and including that one with
  their events, the rest stays queued, and on success the matching block is returned; if none
  matches, both queues are unchanged and the importer gets no blocks.\<close>
theorem import_until_spec:
  assumes "aligned d"
  shows "import_until imp P d =
    (case position P (queue (import_queue d)) of
       None \<Rightarrow>
         (case imp (block_importer d) [] [] of
            (Err e, i') \<Rightarrow> (Err (BlockImportError e), d\<lparr>block_importer := i'\<rparr>)
          | (Ok _, i') \<Rightarrow> (Ok None, d\<lparr>block_importer := i'\<rparr>))
     | Some p \<Rightarrow>
         (case imp (block_importer d) (take (Suc p) (queue (import_queue d))) (take (Suc p) (queue (events_queue d))) of
            (r, i') \<Rightarrow>
              (case r of Err e \<Rightarrow> Err (BlockImportError e) | Ok _ \<Rightarrow> Ok (Some (queue (import_queue d) ! p)),
               \<lparr>block_importer = i',
                import_queue = \<lparr>queue = drop (Suc p) (queue (import_queue d)), poisoned = False\<rparr>,
                events_queue = \<lparr>queue = drop (Suc p) (queue (events_queue d)), poisoned = False\<rparr>\<rparr>)))"
proof (cases "position P (queue (import_queue d))")
  case None
  with assms show ?thesis
    by (simp add: import_until_def aligned_def queue_pop_defs run_importer_def last_opt_def
        split: prod.split result.split)
next
  case (Some p)
  then have p: "Suc p \<le> length (queue (import_queue d))" and l: "last (take (Suc p) (queue (import_queue d))) = queue (import_queue d) ! p"
    by (auto simp: position_take_last position_Some)
  have "min (length (queue (events_queue d))) (Suc p) = Suc p" "queue (import_queue d) \<noteq> []"
    using p assms by (auto simp: aligned_def)
  with assms Some p l show ?thesis
    by (cases d; cases "import_queue d"; cases "events_queue d")
      (auto simp: import_until_def aligned_def queue_pop_defs run_importer_def last_opt_def
        split: prod.split result.split)
qed

theorem import_until_spec_witness:
  "import_until (\<lambda>(i::nat) bs es. (Ok () :: (nat, unit) result, i + length bs)) (\<lambda>b. b = 5)
     \<lparr>block_importer = 1, import_queue = \<lparr>queue = [4::nat, 5, 6], poisoned = False\<rparr>,
      events_queue = \<lparr>queue = [[1], [2], [3]], poisoned = False\<rparr>\<rparr>
   = (Ok (Some 5),
      \<lparr>block_importer = 3, import_queue = \<lparr>queue = [6], poisoned = False\<rparr>,
       events_queue = \<lparr>queue = [[3]], poisoned = False\<rparr>\<rparr>)"
  by (subst import_until_spec) (simp_all add: aligned_def)

text \<open>C31: When fewer event records than matching blocks are queued, the import trigger reports an error
  although the blocks have already left the block queue: they never reach the importer.\<close>
theorem import_until_drops_blocks:
  assumes "\<not> poisoned (import_queue d)" "\<not> poisoned (events_queue d)"
    and "position P (queue (import_queue d)) = Some p" "length (queue (events_queue d)) \<le> p"
  shows "\<exists>e. import_until imp P d =
    (Err (ImportQueueError e), d\<lparr>import_queue := (import_queue d)\<lparr>queue := drop (Suc p) (queue (import_queue d))\<rparr>\<rparr>)"
proof -
  from assms(3) have "min (length (queue (import_queue d))) (Suc p) = Suc p" by (auto simp: position_Some)
  with assms show ?thesis
    by (simp add: import_until_def queue_pop_defs)
qed

theorem import_until_drops_blocks_witness:
  "\<exists>e. import_until (\<lambda>(i::nat) bs es. (Ok () :: (nat, unit) result, i + length bs)) (\<lambda>b. b = 5)
     \<lparr>block_importer = 0, import_queue = \<lparr>queue = [4::nat, 5, 6], poisoned = False\<rparr>,
      events_queue = \<lparr>queue = [[1]], poisoned = False\<rparr>\<rparr>
   = (Err (ImportQueueError e),
      \<lparr>block_importer = 0, import_queue = \<lparr>queue = [6], poisoned = False\<rparr>,
       events_queue = \<lparr>queue = [[1]], poisoned = False\<rparr>\<rparr>)"
  using import_until_drops_blocks
    [of "\<lparr>block_importer = 0, import_queue = \<lparr>queue = [4::nat, 5, 6], poisoned = False\<rparr>,
      events_queue = \<lparr>queue = [[1]], poisoned = False\<rparr>\<rparr>" "\<lambda>b. b = 5" 1
      "\<lambda>(i::nat) bs es. (Ok () :: (nat, unit) result, i + length bs)"]
  by simp

end
