(* ===== verification/Block_Import.thy ===== *)
theory Block_Import
  imports Block_Composer State_Handler Parentchain_Dispatcher
begin

text \<open>
  Import of a sidechain block (sidechain/consensus/common, block_import.rs) as the aura block importer
  performs it (sidechain/consensus/aura, block_importer.rs and verifier.rs). The node keeps the state
  handler over the encrypted files, the parentchain dispatcher, the trusted operation pool and the block
  store; the record \<open>import_env\<close> holds what the importer calls outside of these: the parentchain importer
  and header hash, the validateer set of a parentchain header, the pool and the block store.
\<close>

section \<open>State and operations\<close>

definition SLOT_DURATION :: duration where
  "SLOT_DURATION = from_millis 1000"

datatype import_error =
    ErrBlockAncestryMismatch block_number h256 string
  | ErrInvalidFirstBlock block_number string
  | ErrBlockAlreadyImported block_number block_number
  | ErrVerification consensus_error
  | ErrCouldNotGetAuthorities string
  | ErrFailedToPopBlockImportQueue queue_error
  | ErrOther
  | Panicked

fun from_verification :: "consensus_error \<Rightarrow> import_error" where
  "from_verification (BlockAncestryMismatch a b c) = ErrBlockAncestryMismatch a b c"
| "from_verification (InvalidFirstBlock a b) = ErrInvalidFirstBlock a b"
| "from_verification (BlockAlreadyImported a b) = ErrBlockAlreadyImported a b"
| "from_verification e = ErrVerification e"

record ('i, 'b, 'p, 'w) node =
  node_handler :: "state_dir state_handler"
  node_dispatcher :: "('i, 'b) triggered_dispatcher"
  node_pool :: 'p
  node_store :: 'w

record ('k, 's, 'key, 'fk, 'i, 'b, 'ie, 'ph, 'p, 'w) import_env =
  chain :: "('k, 's, 'key) chain_env"
  files :: "'fk file_env"
  pc_importer :: "('i, 'b, 'ie) block_importer"
  pc_header :: "'b \<Rightarrow> 'ph"
  pc_hash :: "'ph \<Rightarrow> h256"
  validateers :: "'ph \<Rightarrow> shard_identifier \<Rightarrow> (string, public list) result"
  on_block_imported :: "h256 list \<Rightarrow> h256 \<Rightarrow> 'p \<Rightarrow> 'p"
  remove_calls_from_pool :: "shard_identifier \<Rightarrow> h256 list \<Rightarrow> 'p \<Rightarrow> 'p"
  store_sidechain_blocks :: "'s signed_block list \<Rightarrow> 'w \<Rightarrow> (string, unit) result \<times> 'w"

definition aura_verify ::
  "('k, 's, 'key, 'fk, 'i, 'b, 'ie, 'ph, 'p, 'w) import_env \<Rightarrow> sidechain_block option \<Rightarrow> 's signed_block \<Rightarrow> 'ph
   \<Rightarrow> shard_identifier \<Rightarrow> (import_error, 's signed_block) result" where
  "aura_verify env last_block sb pch shard =
     (case validateers env pch shard of
        Err e \<Rightarrow> Err (ErrCouldNotGetAuthorities e)
      | Ok authorities \<Rightarrow>
          (case verify_sidechain_block (env_crypto (chain env)) sb SLOT_DURATION last_block (pc_hash env pch) authorities of
             None \<Rightarrow> Err Panicked
           | Some r \<Rightarrow> map_err from_verification r))"

definition peek_parentchain_header ::
  "('k, 's, 'key, 'fk, 'i, 'b, 'ie, 'ph, 'p, 'w) import_env \<Rightarrow> sidechain_block \<Rightarrow> 'ph \<Rightarrow> ('i, 'b, 'p, 'w) node
   \<Rightarrow> (import_error, 'ph) result" where
  "peek_parentchain_header env b last_header n =
     (if layer_one_head (data b) = pc_hash env last_header then Ok last_header
      else case peek (\<lambda>pb. pc_hash env (pc_header env pb) = layer_one_head (data b)) (node_dispatcher n) :: ('ie dispatch_error, 'b option) result of
        Err _ \<Rightarrow> Err ErrOther
      | Ok None \<Rightarrow> Err ErrOther
      | Ok (Some pb) \<Rightarrow> Ok (pc_header env pb))"

definition import_parentchain_block ::
  "('k, 's, 'key, 'fk, 'i, 'b, 'ie, 'ph, 'p, 'w) import_env \<Rightarrow> sidechain_block \<Rightarrow> 'ph \<Rightarrow> ('i, 'b, 'p, 'w) node
   \<Rightarrow> (import_error, 'ph) result \<times> ('i, 'b, 'p, 'w) node" where
  "import_parentchain_block env b last_header n =
     (case import_until (pc_importer env) (\<lambda>pb. pc_hash env (pc_header env pb) = layer_one_head (data b)) (node_dispatcher n) of
        (Err _, d) \<Rightarrow> (Err ErrOther, n\<lparr>node_dispatcher := d\<rparr>)
      | (Ok latest, d) \<Rightarrow>
          (Ok (case latest of None \<Rightarrow> last_header | Some pb \<Rightarrow> pc_header env pb), n\<lparr>node_dispatcher := d\<rparr>))"

definition state_update_from_encrypted ::
  "('k, 's, 'key) chain_env \<Rightarrow> bytes \<Rightarrow> 'key \<Rightarrow> (import_error, state_update) result" where
  "state_update_from_encrypted env encrypted key =
     (case decrypt env key encrypted of
        None \<Rightarrow> Err ErrOther
      | Some payload \<Rightarrow> (case dec_update env payload of None \<Rightarrow> Err ErrOther | Some u \<Rightarrow> Ok u))"

definition mutate_state ::
  "('k, 's, 'key) chain_env \<Rightarrow> 'key \<Rightarrow> sidechain_block \<Rightarrow> sgx_externalities \<Rightarrow> (import_error, sgx_externalities) result" where
  "mutate_state env key b e =
     (case state_update_from_encrypted env (encrypted_state_diff (data b)) key of
        Err x \<Rightarrow> Err x
      | Ok u \<Rightarrow>
          (case apply_state_update (env_state_hash env) u e of
             (Err _, _) \<Rightarrow> Err ErrOther
           | (Ok _, e') \<Rightarrow> Ok (set_last_block (env_crypto env) (env_hashers env) (env_scale env) b e')))"

definition importer_apply_state_update ::
  "('k, 's, 'key, 'fk, 'i, 'b, 'ie, 'ph, 'p, 'w) import_env \<Rightarrow> state_id \<Rightarrow> shard_identifier
   \<Rightarrow> (sgx_externalities \<Rightarrow> (import_error, sgx_externalities) result) \<Rightarrow> ('i, 'b, 'p, 'w) node
   \<Rightarrow> (import_error, unit) result \<times> ('i, 'b, 'p, 'w) node" where
  "importer_apply_state_update env now shard mutating_function n =
     (case load_for_mutation shard (node_handler n) of
        Err _ \<Rightarrow> (Err ErrOther, n)
      | Ok e \<Rightarrow>
          (case mutating_function e of
             Err x \<Rightarrow> (Err x, n)
           | Ok e' \<Rightarrow>
               (case write_after_mutation (file_ops (files env)) (env_state_hash (chain env)) now e' shard (node_handler n) of
                  (Err _, h) \<Rightarrow> (Err ErrOther, n\<lparr>node_handler := h\<rparr>)
                | (Ok _, h) \<Rightarrow> (Ok (), n\<lparr>node_handler := h\<rparr>))))"

definition update_top_pool ::
  "('k, 's, 'key, 'fk, 'i, 'b, 'ie, 'ph, 'p, 'w) import_env \<Rightarrow> sidechain_block \<Rightarrow> 'p \<Rightarrow> 'p" where
  "update_top_pool env b p =
     remove_calls_from_pool env (shard_id (header b)) (signed_top_hashes (data b))
       (on_block_imported env (signed_top_hashes (data b)) (block_hash (env_crypto (chain env)) b) p)"

definition import_block ::
  "('k, 's, 'key, 'fk, 'i, 'b, 'ie, 'ph, 'p, 'w) import_env \<Rightarrow> state_id \<Rightarrow> 's signed_block \<Rightarrow> 'ph \<Rightarrow> ('i, 'b, 'p, 'w) node
   \<Rightarrow> (import_error, 'ph) result \<times> ('i, 'b, 'p, 'w) node" where
  "import_block env now sb parentchain_header n =
     (let b = block sb;
          shard = shard_id (header b);
          peeked = (case peek_parentchain_header env b parentchain_header n of Ok h \<Rightarrow> h | Err _ \<Rightarrow> parentchain_header)
      in case execute_on_current shard (\<lambda>e _. aura_verify env
                  (get_last_block (env_hashers (chain env)) (env_scale (chain env)) e) sb peeked shard) (node_handler n) of
           Err _ \<Rightarrow> (Err ErrOther, n)
         | Ok (Err e) \<Rightarrow> (Err e, n)
         | Ok (Ok params) \<Rightarrow>
             (case import_parentchain_block env b parentchain_header n of
                (Err e, n1) \<Rightarrow> (Err e, n1)
              | (Ok latest_header, n1) \<Rightarrow>
                  (case retrieve_key (chain env) of
                     None \<Rightarrow> (Err ErrOther, n1)
                   | Some key \<Rightarrow>
                       (case importer_apply_state_update env now shard (mutate_state (chain env) key (block params)) n1 of
                          (Err e, n2) \<Rightarrow> (Err e, n2)
                        | (Ok _, n2) \<Rightarrow>
                            let n3 = n2\<lparr>node_pool := update_top_pool env b (node_pool n2)\<rparr>
                            in case store_sidechain_blocks env [sb] (node_store n3) of
                                 (Err _, w) \<Rightarrow> (Err ErrOther, n3\<lparr>node_store := w\<rparr>)
                               | (Ok _, w) \<Rightarrow> (Ok latest_header, n3\<lparr>node_store := w\<rparr>)))))"

text \<open>With the slot duration of the settings and a representable number of authorities the verifier never
  panics, so the constructor \<^const>\<open>Panicked\<close> is never the outcome of an import.\<close>
lemma aura_verify_no_panic:
  assumes "\<And>auths. validateers env pch shard = Ok auths \<Longrightarrow> length auths < 2 ^ 64"
  shows "aura_verify env lb sb pch shard \<noteq> Err Panicked"
proof (cases "validateers env pch shard")
  case (Ok auths)
  obtain r where r: "verify_author (of_nat (unat (block_timestamp (data (block sb))) div 1000)) (block sb)
      (pc_hash env pch) auths = Some r"
    using verify_author_defined assms [OF Ok] by blast
  have "verify_sidechain_block (env_crypto (chain env)) sb SLOT_DURATION lb (pc_hash env pch) auths \<noteq> None"
    using r by (auto simp: verify_sidechain_block_def slot_from_timestamp_and_duration_def SLOT_DURATION_def
      split: result.split option.split)
  moreover have "Panicked \<noteq> from_verification e" for e
    by (cases e) simp_all
  ultimately show ?thesis
    using Ok by (auto simp: aura_verify_def map_err_Err_iff split: option.split)
qed (simp add: aura_verify_def)

section \<open>The last block of a shard\<close>

definition last_block_of ::
  "('k, 's, 'key, 'fk, 'i, 'b, 'ie, 'ph, 'p, 'w) import_env \<Rightarrow> shard_identifier \<Rightarrow> ('i, 'b, 'p, 'w) node \<Rightarrow> sidechain_block option" where
  "last_block_of env shard n =
     Option.bind (hget (states_map (node_handler n)) shard)
       (\<lambda>(e, _). get_last_block (env_hashers (chain env)) (env_scale (chain env)) e)"

definition node_wf :: "('i, 'b, 'p, 'w) node \<Rightarrow> bool" where
  "node_wf n \<longleftrightarrow> (\<forall>s e x. hget (states_map (node_handler n)) s = Some (e, x) \<longrightarrow> ext_wf e)"

lemma states_map_write:
  assumes "write_after_mutation ops hash now e shard h = (r, h')"
  shows "states_map h' = hput shard (prune_state_diff e, hash (state e)) (states_map h)"
proof -
  have "state (prune_state_diff e) = state e" by (simp add: prune_state_diff_def)
  with assms show ?thesis
    by (auto simp: write_after_mutation_def update_state_snapshot_def queue_state_update_def Let_def
        split: if_splits prod.splits result.splits)
qed

lemma ext_wf_apply_entries: "ext_wf e \<Longrightarrow> ext_wf (fold apply_entry d e)"
  by (induction d arbitrary: e) (auto simp: apply_entry_def split: option.split)

lemma ext_wf_prune [simp]: "ext_wf e \<Longrightarrow> ext_wf (prune_state_diff e)"
  by (simp add: ext_wf_def prune_state_diff_def)

lemma get_with_name_prune [simp]: "get_with_name h dec m s (prune_state_diff e) = get_with_name h dec m s e"
  by (simp add: get_with_name_def ext_get_def prune_state_diff_def)

lemma mutate_state_Ok:
  assumes "mutate_state env key b e = Ok e'" "ext_wf e"
  shows "\<exists>e1. ext_wf e1 \<and> e' = set_last_block (env_crypto env) (env_hashers env) (env_scale env) b e1"
  using assms(1) ext_wf_prune [OF ext_wf_apply_entries [OF assms(2)]]
  by (auto simp: mutate_state_def apply_state_update_def Let_def split: result.splits prod.splits if_splits)

lemma get_last_block_set:
  assumes "keys_separate h system_names" "ext_wf e" "dec_block c (enc_block c b) = Some b"
  shows "get_last_block h c (set_last_block cr h c b e) = Some b"
  using assms by (simp add: get_last_block_def set_last_block_def set_last_block_hash_def get_set_with_name [OF assms(1)])

text \<open>What applying the state update does to the node: nothing, or the shard gets a state whose last block is the imported one.\<close>

lemma importer_apply_cases:
  assumes "importer_apply_state_update env now shard (mutate_state (chain env) key b) n = (r, n')" "node_wf n"
  obtains "n' = n" "\<exists>e. r = Err e"
  | e1 where "ext_wf e1" "hget (states_map (node_handler n)) shard \<noteq> None"
    "states_map (node_handler n') = hput shard
       (prune_state_diff (set_last_block (env_crypto (chain env)) (env_hashers (chain env)) (env_scale (chain env)) b e1),
        env_state_hash (chain env) (state (set_last_block (env_crypto (chain env)) (env_hashers (chain env)) (env_scale (chain env)) b e1)))
       (states_map (node_handler n))"
proof (cases "load_for_mutation shard (node_handler n)")
  case (Err x)
  then show ?thesis using assms(1) that(1) by (auto simp: importer_apply_state_update_def)
next
  case (Ok e)
  then obtain x where sm: "hget (states_map (node_handler n)) shard = Some (e, x)"
    by (auto simp: load_for_mutation_def execute_on_current_def split: if_splits option.splits)
  with assms(2) have wf: "ext_wf e" by (auto simp: node_wf_def)
  show ?thesis
  proof (cases "mutate_state (chain env) key b e")
    case (Err y)
    with Ok show ?thesis using assms(1) that(1) by (auto simp: importer_apply_state_update_def)
  next
    case m: (Ok e')
    obtain w h where w: "write_after_mutation (file_ops (files env)) (env_state_hash (chain env)) now e' shard (node_handler n) = (w, h)"
      by fastforce
    obtain e1 where e1: "ext_wf e1" "e' = set_last_block (env_crypto (chain env)) (env_hashers (chain env)) (env_scale (chain env)) b e1"
      using mutate_state_Ok [OF m wf] by blast
    have "node_handler n' = h"
      using assms(1) Ok m w by (auto simp: importer_apply_state_update_def split: result.splits)
    then show ?thesis using that(2) [OF e1(1)] states_map_write [OF w] sm e1(2) by simp
  qed
qed

lemma import_parentchain_block_handler:
  "import_parentchain_block env b ph n = (r, n') \<Longrightarrow> node_handler n' = node_handler n"
  by (auto simp: import_parentchain_block_def split: prod.splits result.splits)

lemma last_block_of_handler:
  "states_map (node_handler n') = states_map (node_handler n) \<Longrightarrow> last_block_of env s n' = last_block_of env s n"
  by (simp add: last_block_of_def)

text \<open>A verified block extends the last block of its shard.\<close>

lemma aura_verify_Ok:
  assumes "aura_verify env l sb ph shard = Ok sb'"
  shows "sb' = sb" "extends_chain (env_crypto (chain env)) l (block sb)" "verify_signature (env_crypto (chain env)) sb"
proof -
  obtain authorities where v: "verify_sidechain_block (env_crypto (chain env)) sb SLOT_DURATION l (pc_hash env ph) authorities = Some (Ok sb')"
    using assms by (auto simp: aura_verify_def split: result.splits option.splits)
  then have "sb' = sb \<and> verify_signature (env_crypto (chain env)) sb
      \<and> (case l of Some x \<Rightarrow> verify_block_ancestry (env_crypto (chain env)) (block sb) x
                 | None \<Rightarrow> ensure_first_block (block sb)) = Ok ()"
    by (auto simp: verify_sidechain_block_def split: if_splits option.splits result.splits)
  then show "sb' = sb" "extends_chain (env_crypto (chain env)) l (block sb)" "verify_signature (env_crypto (chain env)) sb"
    by (simp_all add: ancestry_Ok)
qed

definition import_params_ok :: "('k, 's, 'key, 'fk, 'i, 'b, 'ie, 'ph, 'p, 'w) import_env \<Rightarrow> bool" where
  "import_params_ok env \<longleftrightarrow> keys_separate (env_hashers (chain env)) system_names
     \<and> (\<forall>b. dec_block (env_scale (chain env)) (enc_block (env_scale (chain env)) b) = Some b)"

abbreviation state_last_block ::
  "('k, 's, 'key, 'fk, 'i, 'b, 'ie, 'ph, 'p, 'w) import_env \<Rightarrow> sgx_externalities \<Rightarrow> sidechain_block option" where
  "state_last_block env \<equiv> get_last_block (env_hashers (chain env)) (env_scale (chain env))"

abbreviation with_last_block ::
  "('k, 's, 'key, 'fk, 'i, 'b, 'ie, 'ph, 'p, 'w) import_env \<Rightarrow> sidechain_block \<Rightarrow> sgx_externalities \<Rightarrow> sgx_externalities" where
  "with_last_block env \<equiv> set_last_block (env_crypto (chain env)) (env_hashers (chain env)) (env_scale (chain env))"

text \<open>An import attempt fails without touching any state, or the block was verified and became the last block of its shard.\<close>

lemma import_block_cases:
  assumes "node_wf n" "import_block env now sb ph n = (r, n')"
  obtains (unchanged) "states_map (node_handler n') = states_map (node_handler n)" "\<exists>e. r = Err e"
  | (applied) e x peeked e1 where
      "hget (states_map (node_handler n)) (shard_id (header (block sb))) = Some (e, x)"
      "aura_verify env (state_last_block env e) sb peeked (shard_id (header (block sb))) = Ok sb"
      "ext_wf e1"
      "states_map (node_handler n') = hput (shard_id (header (block sb)))
         (prune_state_diff (with_last_block env (block sb) e1),
          env_state_hash (chain env) (state (with_last_block env (block sb) e1))) (states_map (node_handler n))"
proof -
  let ?shard = "shard_id (header (block sb))"
  let ?peeked = "case peek_parentchain_header env (block sb) ph n of Ok h \<Rightarrow> h | Err _ \<Rightarrow> ph"
  let ?verified = "execute_on_current ?shard (\<lambda>e _. aura_verify env (state_last_block env e) sb ?peeked ?shard) (node_handler n)"
  show thesis
  proof (cases "\<exists>params. ?verified = Ok (Ok params)")
    case False
    then show thesis using assms(2) unchanged
      by (auto simp: import_block_def Let_def split: result.splits)
  next
    case True
    then obtain params where v: "?verified = Ok (Ok params)" by blast
    then obtain e x where sm: "hget (states_map (node_handler n)) ?shard = Some (e, x)"
      "aura_verify env (state_last_block env e) sb ?peeked ?shard = Ok params"
      by (auto simp: execute_on_current_def split: if_splits option.splits)
    have params: "params = sb" by (rule aura_verify_Ok(1) [OF sm(2)])
    obtain pr n1 where n1: "import_parentchain_block env (block sb) ph n = (pr, n1)" by fastforce
    note h1 = import_parentchain_block_handler [OF n1]
    have wf1: "node_wf n1" using assms(1) h1 by (simp add: node_wf_def)
    show thesis
    proof (cases "(\<exists>e. pr = Err e) \<or> retrieve_key (chain env) = None")
      case True
      then show thesis using assms(2) v n1 h1 unchanged
        by (auto simp: import_block_def Let_def split: result.splits)
    next
      case False
      then obtain hd key where k: "pr = Ok hd" "retrieve_key (chain env) = Some key" by (cases pr) auto
      obtain ar n2 where n2: "importer_apply_state_update env now ?shard (mutate_state (chain env) key (block sb)) n1 = (ar, n2)"
        by fastforce
      have h': "states_map (node_handler n') = states_map (node_handler n2)" "\<forall>e. ar = Err e \<longrightarrow> r = Err e"
        using assms(2) v n1 k n2 params by (auto simp: import_block_def Let_def split: result.splits prod.splits)
      from n2 wf1 show thesis
        by (cases rule: importer_apply_cases) (use h' h1 unchanged applied sm params in auto)
    qed
  qed
qed

lemma import_block_step:
  assumes "import_params_ok env" "node_wf n" "import_block env now sb ph n = (r, n')"
  shows "node_wf n' \<and>
    ((\<forall>s. last_block_of env s n' = last_block_of env s n) \<and> (\<exists>e. r = Err e)
     \<or> (last_block_of env (shard_id (header (block sb))) n' = Some (block sb)
        \<and> extends_chain (env_crypto (chain env)) (last_block_of env (shard_id (header (block sb))) n) (block sb)
        \<and> verify_signature (env_crypto (chain env)) sb
        \<and> (\<forall>s. s \<noteq> shard_id (header (block sb)) \<longrightarrow> last_block_of env s n' = last_block_of env s n)))"
  using assms(2,3)
proof (cases rule: import_block_cases)
  case unchanged
  then show ?thesis
    using assms(2) last_block_of_handler [OF unchanged(1), of env] by (auto simp: node_wf_def)
next
  case (applied e x peeked e1)
  let ?e' = "prune_state_diff (with_last_block env (block sb) e1)"
  have "state_last_block env ?e' = Some (block sb)" "ext_wf ?e'"
    using get_last_block_set [of "env_hashers (chain env)" e1 "env_scale (chain env)"] assms(1) applied(3)
    by (simp_all add: import_params_ok_def get_last_block_def)
  with applied aura_verify_Ok [OF applied(2)] assms(2) show ?thesis
    by (auto simp: last_block_of_def node_wf_def split: if_splits)
qed

section \<open>A concrete environment\<close>

text \<open>
  A codec of blocks as sequences of unary numbers, and an environment whose parentchain blocks are
  their own hashes and whose validateers are the keys 10, 11 and 12.
\<close>

definition enc_nats :: "nat list \<Rightarrow> bytes" where
  "enc_nats ns = concat (map (\<lambda>n. replicate n 1 @ [0]) ns)"

fun dec_nats :: "nat \<Rightarrow> bytes \<Rightarrow> nat list" where
  "dec_nats n [] = []"
| "dec_nats n (b # bs) = (if b = 0 then n # dec_nats 0 bs else dec_nats (Suc n) bs)"

lemma dec_enc_nats: "dec_nats 0 (enc_nats ns) = ns"
proof (induction ns)
  case (Cons n ns)
  have "dec_nats k (replicate n 1 @ 0 # bs) = (k + n) # dec_nats 0 bs" for k bs
    by (induction n arbitrary: k) auto
  with Cons show ?case by (simp add: enc_nats_def)
qed (simp add: enc_nats_def)

definition block_to_nats :: "sidechain_block \<Rightarrow> nat list" where
  "block_to_nats b =
     (let h = header b; d = data b
      in [unat (parent_hash h), unat (header_number h), unat (shard_id h), unat (block_data_hash h),
          unat (next_finalization_block_number h), unat (block_timestamp d), unat (layer_one_head d),
          unat (block_author d), length (signed_top_hashes d)]
         @ map unat (signed_top_hashes d) @ map unat (encrypted_state_diff d))"

definition block_from_nats :: "nat list \<Rightarrow> sidechain_block option" where
  "block_from_nats ns =
     (if length ns < 9 then None
      else Some \<lparr>header = \<lparr>parent_hash = of_nat (ns ! 0), header_number = of_nat (ns ! 1), shard_id = of_nat (ns ! 2),
              block_data_hash = of_nat (ns ! 3), next_finalization_block_number = of_nat (ns ! 4)\<rparr>,
            data = \<lparr>block_timestamp = of_nat (ns ! 5), layer_one_head = of_nat (ns ! 6), block_author = of_nat (ns ! 7),
              signed_top_hashes = map of_nat (take (ns ! 8) (drop 9 ns)),
              encrypted_state_diff = map of_nat (drop (ns ! 8) (drop 9 ns))\<rparr>\<rparr>)"

lemma block_nats_roundtrip: "block_from_nats (block_to_nats b) = Some b"
proof -
  have id: "map ((\<lambda>n. of_nat n) \<circ> unat) ws = (ws :: 'l::len word list)" for ws
    by (induction ws) simp_all
  show ?thesis
    by (cases b; cases "header b"; cases "data b") (simp add: block_to_nats_def block_from_nats_def id)
qed

definition block_scale :: scale where
  "block_scale = \<lparr>enc_u64 = (\<lambda>x. replicate (unat x) 0), dec_u64 = (\<lambda>v. Some (of_nat (length v))),
     enc_h256 = (\<lambda>x. replicate (unat x) 0), dec_h256 = (\<lambda>v. Some (of_nat (length v))),
     enc_block = (\<lambda>b. enc_nats (block_to_nats b)), dec_block = (\<lambda>v. block_from_nats (dec_nats 0 v))\<rparr>"

lemma block_scale_roundtrip: "dec_block block_scale (enc_block block_scale b) = Some b"
  by (simp add: block_scale_def dec_enc_nats block_nats_roundtrip)

lemma block_scale_ok: "scale_ok block_scale"
  by (simp add: scale_ok_def block_scale_def)

definition example_import_env ::
  "(h256, h256, unit, unit, nat, h256, string, h256, h256 list, h256 signed_block list) import_env" where
  "example_import_env = \<lparr>chain = example_env\<lparr>env_scale := block_scale\<rparr>, files = example_file_env,
     pc_importer = \<lambda>i bs es. (Ok (), i + length bs), pc_header = \<lambda>b. b, pc_hash = \<lambda>h. h,
     validateers = \<lambda>_ _. Ok [10, 11, 12], on_block_imported = \<lambda>_ _ p. p,
     remove_calls_from_pool = \<lambda>_ tops p. filter (\<lambda>t. t \<notin> set tops) p,
     store_sidechain_blocks = \<lambda>bs w. (Ok (), w @ bs)\<rparr>"

lemma example_import_params: "import_params_ok example_import_env"
  by (simp add: import_params_ok_def example_import_env_def example_env_def block_scale_roundtrip)

definition example_node :: "(nat, h256, h256 list, h256 signed_block list) node" where
  "example_node = \<lparr>node_handler = example_handler\<lparr>states_map := [(2, (ext_new [], 0))]\<rparr>,
     node_dispatcher = new_dispatcher 0, node_pool = [], node_store = []\<rparr>"

lemma example_node_wf: "node_wf example_node"
  by (simp add: node_wf_def example_node_def ext_wf_def split: if_splits)

end
