(* ===== verification/Block_Sync.thy ===== *)
theory Block_Sync
  imports Block_Import "HOL-Library.Multiset"
begin

text \<open>
  Peer synchronisation and the import queue worker (sidechain/consensus/common, peer_block_sync.rs and
  block_import_queue_worker.rs). Both are generic in the block importer, which is a function on the node
  state here; the locale \<open>chain_importer\<close> states what they rely on and is interpreted on the aura
  importer of \<open>Block_Import\<close>.
\<close>

section \<open>Operations\<close>

type_synonym ('n, 's, 'ph) import_fn = "'s signed_block \<Rightarrow> 'ph \<Rightarrow> 'n \<Rightarrow> (import_error, 'ph) result \<times> 'n"

record ('k, 's, 'n, 'ph) sync_env =
  sync_crypto :: "('k, 's) crypto"
  importer :: "('n, 's, 'ph) import_fn"
  fetch_blocks_from_peer :: "h256 \<Rightarrow> h256 option \<Rightarrow> shard_identifier \<Rightarrow> 'n \<Rightarrow> (string, 's signed_block list) result"
  confirm :: "sidechain_header \<Rightarrow> shard_identifier \<Rightarrow> sidechain_block_confirmation option \<Rightarrow> 'n \<Rightarrow> (confirm_error, unit) result \<times> 'n"

fun import_fetched :: "('n, 's, 'ph) import_fn \<Rightarrow> 's signed_block list \<Rightarrow> 'ph \<Rightarrow> 'n \<Rightarrow> (import_error, 'ph) result \<times> 'n" where
  "import_fetched imp [] ph n = (Ok ph, n)"
| "import_fetched imp (b # bs) ph n =
     (case imp b ph n of
        (Err e, n') \<Rightarrow> (Err e, n')
      | (Ok ph', n') \<Rightarrow> import_fetched imp bs ph' n')"

definition fetch_and_import_blocks_from_peer ::
  "('k, 's, 'n, 'ph) sync_env \<Rightarrow> h256 \<Rightarrow> h256 \<Rightarrow> 'ph \<Rightarrow> shard_identifier \<Rightarrow> 'n \<Rightarrow> (import_error, 'ph) result \<times> 'n" where
  "fetch_and_import_blocks_from_peer env last_imported import_until_hash ph shard n =
     (case fetch_blocks_from_peer env last_imported (Some import_until_hash) shard n of
        Err _ \<Rightarrow> (Err ErrOther, n)
      | Ok bs \<Rightarrow> import_fetched (importer env) bs ph n)"

definition sync_then_import ::
  "('k, 's, 'n, 'ph) sync_env \<Rightarrow> h256 \<Rightarrow> 's signed_block \<Rightarrow> 'ph \<Rightarrow> 'n \<Rightarrow> (import_error, 'ph) result \<times> 'n" where
  "sync_then_import env from_hash sb ph n =
     (case fetch_and_import_blocks_from_peer env from_hash (signed_hash (sync_crypto env) sb) ph
             (shard_id (header (block sb))) n of
        (Err e, n') \<Rightarrow> (Err e, n')
      | (Ok ph', n') \<Rightarrow> importer env sb ph' n')"

definition import_or_sync_block ::
  "('k, 's, 'n, 'ph) sync_env \<Rightarrow> 's signed_block \<Rightarrow> 'ph \<Rightarrow> sidechain_block_confirmation option \<Rightarrow> 'n
   \<Rightarrow> (import_error, 'ph) result \<times> 'n" where
  "import_or_sync_block env sb ph last_confirmation n =
     (case importer env sb ph n of
        (Err e, n') \<Rightarrow>
          (case e of
             ErrBlockAncestryMismatch _ last_hash _ \<Rightarrow> sync_then_import env last_hash sb ph n'
           | ErrInvalidFirstBlock _ _ \<Rightarrow> sync_then_import env 0 sb ph n'
           | ErrBlockAlreadyImported _ _ \<Rightarrow> (Ok ph, n')
           | _ \<Rightarrow> (Err e, n'))
      | (Ok ph', n') \<Rightarrow>
          (Ok ph', snd (confirm env (header (block sb)) (shard_id (header (block sb))) last_confirmation n')))"

function group_runs :: "('a \<Rightarrow> 'k) \<Rightarrow> 'a list \<Rightarrow> 'a list list" where
  "group_runs f [] = []"
| "group_runs f (x # xs) = (x # takeWhile (\<lambda>y. f y = f x) xs) # group_runs f (dropWhile (\<lambda>y. f y = f x) xs)"
  by pat_completeness auto
termination
  by (relation "measure (\<lambda>(f, xs). length xs)") (simp_all add: le_imp_less_Suc length_dropWhile_le)

fun import_first_competitor ::
  "('k, 's, 'n, 'ph) sync_env \<Rightarrow> sidechain_block_confirmation option \<Rightarrow> 's signed_block list \<Rightarrow> 'ph \<times> 'n \<Rightarrow> 'ph \<times> 'n" where
  "import_first_competitor env conf [] (ph, n) = (ph, n)"
| "import_first_competitor env conf (sb # sbs) (ph, n) =
     (case import_or_sync_block env sb ph conf n of
        (Ok ph', n') \<Rightarrow> (ph', n')
      | (Err _, n') \<Rightarrow> import_first_competitor env conf sbs (ph, n'))"

definition competitor_groups :: "('k, 's) crypto \<Rightarrow> 's signed_block list \<Rightarrow> 's signed_block list list" where
  "competitor_groups c blocks =
     map (sort_key (signed_hash c)) (group_runs signed_number (sort_key signed_number blocks))"

definition process_queue ::
  "('k, 's, 'n, 'ph) sync_env \<Rightarrow> 's signed_block import_queue \<Rightarrow> 'ph \<Rightarrow> sidechain_block_confirmation option \<Rightarrow> 'n
   \<Rightarrow> (import_error, 'ph) result \<times> 's signed_block import_queue \<times> 'n" where
  "process_queue env q ph conf n =
     (case pop_all q of
        (Err e, q') \<Rightarrow> (Err (ErrFailedToPopBlockImportQueue e), q', n)
      | (Ok blocks, q') \<Rightarrow>
          (case fold (import_first_competitor env conf) (competitor_groups (sync_crypto env) blocks) (ph, n) of
             (ph', n') \<Rightarrow> (Ok ph', q', n')))"

section \<open>Chains\<close>

fun chain_from :: "('k, 's) crypto \<Rightarrow> sidechain_block option \<Rightarrow> sidechain_block list \<Rightarrow> bool" where
  "chain_from c l [] = True"
| "chain_from c l (b # bs) = (extends_chain c l b \<and> chain_from c (Some b) bs)"

definition advances :: "('k, 's) crypto \<Rightarrow> sidechain_block option \<Rightarrow> sidechain_block option \<Rightarrow> bool" where
  "advances c l l' \<longleftrightarrow> (\<exists>bs. chain_from c l bs \<and> l' = (if bs = [] then l else Some (last bs)))"

lemma chain_from_append:
  "chain_from c l (bs @ bs') \<longleftrightarrow> chain_from c l bs \<and> chain_from c (if bs = [] then l else Some (last bs)) bs'"
  by (induction bs arbitrary: l) auto

lemma advances_refl [simp, intro]: "advances c l l"
  unfolding advances_def by (intro exI [of _ "[]"]) simp

lemma advances_step: "extends_chain c l b \<Longrightarrow> advances c l (Some b)"
  unfolding advances_def by (intro exI [of _ "[b]"]) simp

lemma advances_trans [trans]: "advances c l l' \<Longrightarrow> advances c l' l'' \<Longrightarrow> advances c l l''"
proof -
  assume "advances c l l'" "advances c l' l''"
  then obtain bs bs' where "chain_from c l bs" "l' = (if bs = [] then l else Some (last bs))"
    "chain_from c l' bs'" "l'' = (if bs' = [] then l' else Some (last bs'))"
    by (auto simp: advances_def)
  then show ?thesis unfolding advances_def
    by (intro exI [of _ "bs @ bs'"]) (auto simp: chain_from_append)
qed

lemma chain_from_numbers:
  "chain_from c l bs \<Longrightarrow> i < length bs \<Longrightarrow>
     unat (number_of (bs ! i)) = (case l of None \<Rightarrow> 0 | Some b \<Rightarrow> unat (number_of b)) + Suc i"
proof (induction bs arbitrary: l i)
  case Nil
  then show ?case by simp
next
  case (Cons b bs)
  have b: "unat (number_of b) = Suc (case l of None \<Rightarrow> 0 | Some b \<Rightarrow> unat (number_of b))"
    using Cons.prems(1) by (cases l) (auto simp: extends_chain_def)
  show ?case
  proof (cases i)
    case (Suc j)
    with Cons.IH [of "Some b" j] Cons.prems b show ?thesis by simp
  qed (simp add: b)
qed

section \<open>What synchronisation relies on\<close>

text \<open>
  \<open>last_of s n\<close> is the last block of shard \<open>s\<close> in node \<open>n\<close>. An import attempt keeps the node good and
  either fails without moving any shard or moves only the block's shard, to that block.
\<close>

locale chain_importer =
  fixes env :: "('k, 's, 'n, 'ph) sync_env"
    and good :: "'n \<Rightarrow> bool"
    and last_of :: "shard_identifier \<Rightarrow> 'n \<Rightarrow> sidechain_block option"
  assumes import_step: "good n \<Longrightarrow> importer env sb ph n = (r, n') \<Longrightarrow> good n' \<and>
      ((\<forall>s. last_of s n' = last_of s n) \<and> (\<exists>e. r = Err e)
       \<or> (last_of (shard_id (header (block sb))) n' = Some (block sb)
          \<and> extends_chain (sync_crypto env) (last_of (shard_id (header (block sb))) n) (block sb)
          \<and> (\<forall>s. s \<noteq> shard_id (header (block sb)) \<longrightarrow> last_of s n' = last_of s n)))"
    and confirm_step: "good n \<Longrightarrow> confirm env h s c n = (cres, n') \<Longrightarrow> good n' \<and> (\<forall>s. last_of s n' = last_of s n)"
begin

abbreviation moves :: "'n \<Rightarrow> 'n \<Rightarrow> bool" where
  "moves n n' \<equiv> good n' \<and> (\<forall>s. advances (sync_crypto env) (last_of s n) (last_of s n'))"

lemma moves_trans: "moves n n' \<Longrightarrow> moves n' n'' \<Longrightarrow> moves n n''"
  using advances_trans by blast

lemma import_moves: "good n \<Longrightarrow> importer env sb ph n = (r, n') \<Longrightarrow> moves n n'"
proof -
  assume "good n" "importer env sb ph n = (r, n')"
  note st = import_step [OF this]
  have "advances (sync_crypto env) (last_of s n) (last_of s n')" for s
    using st advances_step [of "sync_crypto env" "last_of s n" "block sb"]
    by (cases "s = shard_id (header (block sb))") auto
  with st show ?thesis by blast
qed

lemma import_fetched_moves: "good n \<Longrightarrow> import_fetched (importer env) bs ph n = (r, n') \<Longrightarrow> moves n n'"
proof (induction bs arbitrary: ph n)
  case Nil
  then show ?case by auto
next
  case (Cons b bs)
  obtain r1 n1 where n1: "importer env b ph n = (r1, n1)" by fastforce
  note m1 = import_moves [OF Cons.prems(1) n1]
  show ?case
  proof (cases r1)
    case (Err e)
    with Cons.prems n1 m1 show ?thesis by auto
  next
    case (Ok ph1)
    with Cons.prems(2) n1 have "import_fetched (importer env) bs ph1 n1 = (r, n')" by simp
    then have "moves n1 n'" using Cons.IH [of n1 ph1] m1 by blast
    with m1 show ?thesis by (rule moves_trans)
  qed
qed

lemma fetch_and_import_moves:
  assumes "good n" "fetch_and_import_blocks_from_peer env lh uh ph s n = (r, n')"
  shows "moves n n'"
proof (cases "fetch_blocks_from_peer env lh (Some uh) s n")
  case (Err e)
  with assms show ?thesis by (auto simp: fetch_and_import_blocks_from_peer_def)
next
  case (Ok bs)
  with assms import_fetched_moves show ?thesis by (simp add: fetch_and_import_blocks_from_peer_def)
qed

lemma sync_then_import_moves:
  assumes "good n" "sync_then_import env lh sb ph n = (r, n')"
  shows "moves n n'"
proof -
  obtain r1 n1 where n1: "fetch_and_import_blocks_from_peer env lh (signed_hash (sync_crypto env) sb) ph
      (shard_id (header (block sb))) n = (r1, n1)" by fastforce
  note m1 = fetch_and_import_moves [OF assms(1) n1]
  show ?thesis
  proof (cases r1)
    case (Err e)
    with assms n1 m1 show ?thesis by (simp add: sync_then_import_def)
  next
    case (Ok ph1)
    with assms(2) n1 have "importer env sb ph1 n1 = (r, n')" by (simp add: sync_then_import_def)
    then have "moves n1 n'" using import_moves [of n1 sb ph1] m1 by blast
    with m1 show ?thesis by (rule moves_trans)
  qed
qed

lemma import_or_sync_moves:
  assumes "good n" "import_or_sync_block env sb ph conf n = (r, n')"
  shows "moves n n'"
proof -
  obtain r1 n1 where n1: "importer env sb ph n = (r1, n1)" by fastforce
  note m1 = import_moves [OF assms(1) n1]
  show ?thesis
  proof (cases r1)
    case (Err e)
    then have "n' = n1 \<or> (\<exists>lh. sync_then_import env lh sb ph n1 = (r, n'))"
      using assms(2) n1 by (cases e) (auto simp: import_or_sync_block_def)
    then have "moves n1 n'" using sync_then_import_moves m1 by auto
    with m1 show ?thesis by (rule moves_trans)
  next
    case (Ok ph1)
    obtain r2 n2 where n2: "confirm env (header (block sb)) (shard_id (header (block sb))) conf n1 = (r2, n2)" by fastforce
    with Ok assms(2) n1 have "n' = n2" by (simp add: import_or_sync_block_def)
    with m1 confirm_step [OF _ n2] show ?thesis by simp
  qed
qed

lemma import_first_competitor_moves:
  "good n \<Longrightarrow> import_first_competitor env conf sbs (ph, n) = (ph', n') \<Longrightarrow> moves n n'"
proof (induction sbs arbitrary: n)
  case Nil
  then show ?case by auto
next
  case (Cons sb sbs)
  obtain r1 n1 where n1: "import_or_sync_block env sb ph conf n = (r1, n1)" by fastforce
  note m1 = import_or_sync_moves [OF Cons.prems(1) n1]
  show ?case
  proof (cases r1)
    case (Err e)
    with Cons.prems(2) n1 have "import_first_competitor env conf sbs (ph, n1) = (ph', n')" by simp
    then have "moves n1 n'" using Cons.IH [of n1] m1 by blast
    with m1 show ?thesis by (rule moves_trans)
  next
    case (Ok ph1)
    with Cons.prems(2) n1 m1 show ?thesis by simp
  qed
qed

lemma process_queue_moves:
  assumes "good n" "process_queue env q ph conf n = (r, q', n')"
  shows "moves n n'"
proof -
  have "moves n (snd (fold (import_first_competitor env conf) gs (ph, n)))" if "good n" for gs ph n
    using that
  proof (induction gs arbitrary: ph n)
    case Nil
    then show ?case by auto
  next
    case (Cons g gs)
    obtain ph1 n1 where n1: "import_first_competitor env conf g (ph, n) = (ph1, n1)" by fastforce
    note m1 = import_first_competitor_moves [OF Cons.prems n1]
    have "moves n1 (snd (fold (import_first_competitor env conf) gs (ph1, n1)))" using Cons.IH m1 by simp
    with m1 have "moves n (snd (fold (import_first_competitor env conf) gs (ph1, n1)))" by (rule moves_trans)
    with n1 show ?case by simp
  qed
  note run = this
  show ?thesis
  proof (cases "fst (pop_all q)")
    case (Err e)
    with assms show ?thesis by (auto simp: process_queue_def split: prod.splits)
  next
    case (Ok blocks)
    then have "n' = snd (fold (import_first_competitor env conf) (competitor_groups (sync_crypto env) blocks) (ph, n))"
      using assms(2) by (auto simp: process_queue_def split: prod.splits)
    with run [OF assms(1)] show ?thesis by simp
  qed
qed

end

section \<open>The aura importer\<close>

text \<open>
  The node with its clock and the state of the light client that confirmations are sent through. The
  clock moves by an arbitrary function between imports.
\<close>

type_synonym ('i, 'b, 'p, 'w, 'lc) running_node = "('i, 'b, 'p, 'w) node \<times> state_id \<times> 'lc"

definition aura_sync_env ::
  "('k, 's, 'key, 'fk, 'i, 'b, 'ie, 'ph, 'p, 'w) import_env \<Rightarrow> ('lc, 'x) confirm_env \<Rightarrow> (state_id \<Rightarrow> state_id)
   \<Rightarrow> (h256 \<Rightarrow> h256 option \<Rightarrow> shard_identifier \<Rightarrow> (string, 's signed_block list) result)
   \<Rightarrow> ('k, 's, ('i, 'b, 'p, 'w, 'lc) running_node, 'ph) sync_env" where
  "aura_sync_env env cenv tick fetch =
     \<lparr>sync_crypto = env_crypto (chain env),
      importer = (\<lambda>sb ph (n, t, lc). case import_block env t sb ph n of (r, n') \<Rightarrow> (r, (n', tick t, lc))),
      fetch_blocks_from_peer = (\<lambda>lh uh s _. fetch lh uh s),
      confirm = (\<lambda>h s c (n, t, lc). case confirm_import (env_crypto (chain env)) cenv h s c lc of (r, lc') \<Rightarrow> (r, (n, t, lc')))\<rparr>"

definition running_wf ::
  "('k, 's, 'key, 'fk, 'i, 'b, 'ie, 'ph, 'p, 'w) import_env \<Rightarrow> ('i, 'b, 'p, 'w, 'lc) running_node \<Rightarrow> bool" where
  "running_wf env rn \<longleftrightarrow> node_wf (fst rn) \<and> import_params_ok env"

definition running_last ::
  "('k, 's, 'key, 'fk, 'i, 'b, 'ie, 'ph, 'p, 'w) import_env \<Rightarrow> shard_identifier \<Rightarrow> ('i, 'b, 'p, 'w, 'lc) running_node
   \<Rightarrow> sidechain_block option" where
  "running_last env s rn = last_block_of env s (fst rn)"

interpretation aura_sync: chain_importer "aura_sync_env env cenv tick fetch" "running_wf env" "running_last env"
  for env cenv tick fetch
proof (unfold_locales, goal_cases)
  case (1 rn sb ph r rn')
  obtain n t lc where rn: "rn = (n, t, lc)" by (cases rn)
  obtain r1 n1 where i: "import_block env t sb ph n = (r1, n1)" by fastforce
  then have "r = r1" "rn' = (n1, tick t, lc)" using 1(2) rn by (simp_all add: aura_sync_env_def)
  with import_block_step [OF _ _ i] 1(1) rn show ?case
    by (auto simp: running_wf_def running_last_def aura_sync_env_def)
next
  case (2 rn h s c cres rn')
  then show ?case
    by (cases rn) (auto simp: running_wf_def running_last_def aura_sync_env_def split: prod.splits)
qed

section \<open>Import order\<close>

lemma run_of_sorted:
  assumes "sorted (map f (x # xs))"
  shows "takeWhile (\<lambda>y. f y = f x) xs = filter (\<lambda>y. f y = f x) xs"
    and "dropWhile (\<lambda>y. f y = f x) xs = filter (\<lambda>y. f y \<noteq> f x) xs"
proof -
  have "takeWhile (\<lambda>y. f y = f x) xs = filter (\<lambda>y. f y = f x) xs
      \<and> dropWhile (\<lambda>y. f y = f x) xs = filter (\<lambda>y. f y \<noteq> f x) xs"
    using assms
  proof (induction xs)
    case Nil
    then show ?case by simp
  next
    case (Cons y ys)
    show ?case
    proof (cases "f y = f x")
      case True
      with Cons show ?thesis by simp
    next
      case False
      with Cons.prems have "f z \<noteq> f x" if "z \<in> set ys" for z using that by fastforce
      then have "filter (\<lambda>y. f y = f x) ys = []" "filter (\<lambda>y. f y \<noteq> f x) ys = ys" by (auto simp: filter_empty_conv)
      with False show ?thesis by simp
    qed
  qed
  then show "takeWhile (\<lambda>y. f y = f x) xs = filter (\<lambda>y. f y = f x) xs"
    "dropWhile (\<lambda>y. f y = f x) xs = filter (\<lambda>y. f y \<noteq> f x) xs" by simp_all
qed

lemma group_runs_mset:
  "sorted (map f xs) \<Longrightarrow> sorted (map f ys) \<Longrightarrow> mset xs = mset ys \<Longrightarrow>
     list_all2 (\<lambda>g h. mset g = mset h \<and> set g \<subseteq> set xs) (group_runs f xs) (group_runs f ys)"
proof (induction f xs arbitrary: ys rule: group_runs.induct)
  case (1 f)
  then show ?case by simp
next
  case (2 f x xs)
  then obtain y ys' where ys: "ys = y # ys'" by (cases ys) auto
  have "set (x # xs) = set (y # ys')" using 2(4) ys by (metis set_mset_mset)
  then have "y \<in> set (x # xs)" "x \<in> set (y # ys')" by auto
  moreover have "\<forall>z\<in>set (x # xs). f x \<le> f z" "\<forall>z\<in>set (y # ys'). f y \<le> f z"
    using 2(2,3) ys by auto
  ultimately have fxy: "f x = f y" by (meson antisym)
  note rx = run_of_sorted [OF 2(2)] and ry = run_of_sorted [OF 2(3) [unfolded ys]]
  have m: "mset (x # filter (\<lambda>z. f z = f x) xs) = mset (y # filter (\<lambda>z. f z = f x) ys')"
    "mset (filter (\<lambda>z. f z \<noteq> f x) xs) = mset (filter (\<lambda>z. f z \<noteq> f x) ys')"
    using arg_cong [OF 2(4), of "filter_mset (\<lambda>z. f z = f x)"] arg_cong [OF 2(4), of "filter_mset (\<lambda>z. f z \<noteq> f x)"]
      ys fxy by simp_all
  have "sorted (map f (filter (\<lambda>z. f z \<noteq> f x) xs))" "sorted (map f (filter (\<lambda>z. f z \<noteq> f x) ys'))"
    using 2(2,3) ys by (auto intro: sorted_filter)
  from 2(1) [unfolded rx, OF this m(2)]
  have "list_all2 (\<lambda>g h. mset g = mset h \<and> set g \<subseteq> set (x # xs))
      (group_runs f (filter (\<lambda>z. f z \<noteq> f x) xs)) (group_runs f (filter (\<lambda>z. f z \<noteq> f x) ys'))"
    by (rule list_all2_mono) auto
  with m(1) rx ry fxy show ?case by (auto simp: ys)
qed

lemma sort_key_mset:
  assumes "mset xs = mset ys" "inj_on f (set xs)"
  shows "sort_key f xs = sort_key f ys"
  using assms by (intro sort_key_inj_key_eq) simp_all

lemma competitor_groups_mset:
  assumes "mset xs = mset ys" "inj_on (signed_hash c) (set xs)"
  shows "competitor_groups c xs = competitor_groups c ys"
proof -
  have "list_all2 (\<lambda>g h. mset g = mset h \<and> set g \<subseteq> set xs)
      (group_runs signed_number (sort_key signed_number xs)) (group_runs signed_number (sort_key signed_number ys))"
    using group_runs_mset [of signed_number "sort_key signed_number xs" "sort_key signed_number ys"] assms(1) by simp
  then have "list_all2 (\<lambda>g h. sort_key (signed_hash c) g = sort_key (signed_hash c) h)
      (group_runs signed_number (sort_key signed_number xs)) (group_runs signed_number (sort_key signed_number ys))"
    by (rule list_all2_mono) (use assms(2) in \<open>blast intro: sort_key_mset inj_on_subset\<close>)
  then show ?thesis unfolding competitor_groups_def
    by (simp add: list_all2_conv_all_nth list_eq_iff_nth_eq)
qed

section \<open>Properties\<close>


definition example_confirm_env :: "(sidechain_block_confirmation list, sidechain_block_confirmation) confirm_env" where
  "example_confirm_env = \<lparr>call_indexes = Ok (1, 2), create_extrinsics = \<lambda>_ _ _ c w. (Ok [c], w),
     send_extrinsics = \<lambda>xs w. (Ok (), w @ xs)\<rparr>"


text \<open>C4: The import order depends only on which blocks are queued: two queues that hold the same blocks in
  different order of arrival lead to the same result, the same parentchain header and the same node,
  provided that distinct queued blocks have distinct hashes.\<close>
theorem process_queue_order_independent:
  assumes "mset (queue q1) = mset (queue q2)" "\<not> poisoned q1" "\<not> poisoned q2"
    and "inj_on (signed_hash (sync_crypto env)) (set (queue q1))"
  shows "process_queue env q1 ph conf n = process_queue env q2 ph conf n"
proof -
  have "competitor_groups (sync_crypto env) (queue q1) = competitor_groups (sync_crypto env) (queue q2)"
    using assms(1,4) by (rule competitor_groups_mset)
  then show ?thesis
    using assms(2,3) by (cases q1; cases q2) (simp add: process_queue_def pop_all_def drain_to_def)
qed

theorem process_queue_order_independent_witness:
  "(let env = aura_sync_env example_import_env example_confirm_env Suc (\<lambda>_ _ _. Ok []);
        sb = first_block\<lparr>block := (block first_block)\<lparr>header := new_header 2 41 2 3 21\<rparr>\<rparr>
    in process_queue env \<lparr>queue = [sb, first_block], poisoned = False\<rparr> 5 None (example_node, 10, [])
       = process_queue env \<lparr>queue = [first_block, sb], poisoned = False\<rparr> 5 None (example_node, 10, []))"
  unfolding Let_def
  by (rule process_queue_order_independent)
    (simp_all add: aura_sync_env_def example_import_env_def example_env_def signed_hash_def block_hash_def
      first_block_def new_header_def)

end
