(* ===== verification/Sidechain_Storage.thy ===== *)
theory Sidechain_Storage
  imports Sidechain_Primitives
begin

text \<open>
  Block storage of the untrusted worker (sidechain/storage, storage.rs and db.rs): signed blocks by hash,
  the hash of each block by shard and number, the last block of each shard and the list of shards, in a
  rocksdb database behind an in-memory copy of the shards and last blocks.

  The four key families of the database are the constructors of \<open>db_key\<close>: their encodings are 14, 52, 40
  and 32 bytes long, so keys of different families never meet, and the values are tagged by the type the
  code encodes. The database itself is third-party code: the record \<open>rocksdb\<close> carries its read and its
  atomic batch write, and \<open>rocksdb_ok\<close> states what is documented of them.
\<close>

section \<open>Database\<close>

record last_sidechain_block =
  last_hash :: h256
  last_number :: block_number

datatype db_key =
    StoredShardsKey
  | LastBlockKey shard_identifier
  | NumberKey shard_identifier block_number
  | HashKey h256

datatype 's db_value =
    ShardsValue "shard_identifier list"
  | LastBlockValue last_sidechain_block
  | HashValue h256
  | BlockValue "'s signed_block"

datatype 's db_op = Put db_key "'s db_value" | Delete db_key

record ('d, 's) rocksdb =
  rocks_get :: "'d \<Rightarrow> db_key \<Rightarrow> (string, 's db_value option) result"
  rocks_write :: "'s db_op list \<Rightarrow> 'd \<Rightarrow> (string, unit) result \<times> 'd"

datatype storage_error =
    Operational string
  | LastBlockNotFound shard_identifier
  | LastBlockInfoNotFound
  | LastBlockMissing
  | FailedToFindParentBlock
  | DecodeError
  | HeaderAncestryMismatch

fun as_shards :: "'s db_value \<Rightarrow> shard_identifier list option" where
  "as_shards (ShardsValue x) = Some x"
| "as_shards _ = None"

fun as_last_block :: "'s db_value \<Rightarrow> last_sidechain_block option" where
  "as_last_block (LastBlockValue x) = Some x"
| "as_last_block _ = None"

fun as_hash :: "'s db_value \<Rightarrow> h256 option" where
  "as_hash (HashValue x) = Some x"
| "as_hash _ = None"

fun as_block :: "'s db_value \<Rightarrow> 's signed_block option" where
  "as_block (BlockValue x) = Some x"
| "as_block _ = None"

definition db_get :: "('d, 's) rocksdb \<Rightarrow> ('s db_value \<Rightarrow> 'v option) \<Rightarrow> db_key \<Rightarrow> 'd \<Rightarrow> (storage_error, 'v option) result" where
  "db_get r decode key d =
     (case rocks_get r d key of
        Err e \<Rightarrow> Err (Operational e)
      | Ok None \<Rightarrow> Ok None
      | Ok (Some encoded) \<Rightarrow> (case decode encoded of None \<Rightarrow> Err DecodeError | Some v \<Rightarrow> Ok (Some v)))"

definition db_write :: "('d, 's) rocksdb \<Rightarrow> 's db_op list \<Rightarrow> 'd \<Rightarrow> (storage_error, unit) result \<times> 'd" where
  "db_write r batch d = (case rocks_write r batch d of (res, d') \<Rightarrow> (map_err Operational res, d'))"

definition add_to_batch :: "'s db_op list \<Rightarrow> db_key \<Rightarrow> 's db_value \<Rightarrow> 's db_op list" where
  "add_to_batch batch key v = batch @ [Put key v]"

definition delete_to_batch :: "'s db_op list \<Rightarrow> db_key \<Rightarrow> 's db_op list" where
  "delete_to_batch batch key = batch @ [Delete key]"

section \<open>Storage\<close>

record 'd sidechain_storage =
  db :: 'd
  shards :: "shard_identifier list"
  last_blocks :: "(shard_identifier, last_sidechain_block) hmap"

definition get_block_hash ::
  "('d, 's) rocksdb \<Rightarrow> shard_identifier \<Rightarrow> block_number \<Rightarrow> 'd sidechain_storage \<Rightarrow> (storage_error, h256 option) result" where
  "get_block_hash r shard number st = db_get r as_hash (NumberKey shard number) (db st)"

definition get_block ::
  "('d, 's) rocksdb \<Rightarrow> h256 \<Rightarrow> 'd sidechain_storage \<Rightarrow> (storage_error, 's signed_block option) result" where
  "get_block r h st = db_get r as_block (HashKey h) (db st)"

definition load_shards_from_db ::
  "('d, 's) rocksdb \<Rightarrow> 'd sidechain_storage \<Rightarrow> (storage_error, shard_identifier list) result" where
  "load_shards_from_db r st =
     (case db_get r as_shards StoredShardsKey (db st) of
        Err e \<Rightarrow> Err e
      | Ok v \<Rightarrow> Ok (case v of None \<Rightarrow> [] | Some s \<Rightarrow> s))"

definition load_last_block_from_db ::
  "('d, 's) rocksdb \<Rightarrow> shard_identifier \<Rightarrow> 'd sidechain_storage \<Rightarrow> (storage_error, last_sidechain_block option) result" where
  "load_last_block_from_db r shard st = db_get r as_last_block (LastBlockKey shard) (db st)"

fun load_last_blocks ::
  "('d, 's) rocksdb \<Rightarrow> shard_identifier list \<Rightarrow> 'd sidechain_storage \<Rightarrow> (storage_error, 'd sidechain_storage) result" where
  "load_last_blocks r [] st = Ok st"
| "load_last_blocks r (s # ss) st =
     (case load_last_block_from_db r s st of
        Err e \<Rightarrow> Err e
      | Ok (Some l) \<Rightarrow> load_last_blocks r ss (st\<lparr>last_blocks := hput s l (last_blocks st)\<rparr>)
      | Ok None \<Rightarrow> load_last_blocks r ss st)"

definition load_from_base_path :: "('d, 's) rocksdb \<Rightarrow> 'd \<Rightarrow> (storage_error, 'd sidechain_storage) result" where
  "load_from_base_path r d =
     (let st = \<lparr>db = d, shards = [], last_blocks = []\<rparr>
      in case load_shards_from_db r st of
           Err e \<Rightarrow> Err e
         | Ok ss \<Rightarrow> load_last_blocks r ss (st\<lparr>shards := ss\<rparr>))"

definition last_block_of_shard :: "shard_identifier \<Rightarrow> 'd sidechain_storage \<Rightarrow> last_sidechain_block option" where
  "last_block_of_shard shard st = hget (last_blocks st) shard"

definition get_last_block_of_shard ::
  "('d, 's) rocksdb \<Rightarrow> shard_identifier \<Rightarrow> 'd sidechain_storage \<Rightarrow> (storage_error, last_sidechain_block) result" where
  "get_last_block_of_shard r shard st =
     (case hget (last_blocks st) shard of
        Some l \<Rightarrow> Ok l
      | None \<Rightarrow>
          (case load_last_block_from_db r shard st of
             Err e \<Rightarrow> Err e
           | Ok None \<Rightarrow> Err (LastBlockNotFound shard)
           | Ok (Some l) \<Rightarrow> Ok l))"

subsection \<open>Storing blocks\<close>

definition storage_verify_block_ancestry :: "sidechain_block \<Rightarrow> 'd sidechain_storage \<Rightarrow> bool" where
  "storage_verify_block_ancestry b st =
     (case last_block_of_shard (shard_id (header b)) st of
        None \<Rightarrow> False
      | Some l \<Rightarrow> last_number l = number_of b - 1)"

definition add_last_block ::
  "('k, 's) crypto \<Rightarrow> 's signed_block \<Rightarrow> 's db_op list \<Rightarrow> 'd sidechain_storage \<Rightarrow> 's db_op list \<times> 'd sidechain_storage" where
  "add_last_block c sb batch st =
     (let h = signed_hash c sb; number = signed_number sb; shard = shard_id (header (block sb));
          b1 = add_to_batch batch (HashKey h) (BlockValue sb);
          b2 = add_to_batch b1 (NumberKey shard number) (HashValue h);
          l = \<lparr>last_hash = h, last_number = number\<rparr>
      in (add_to_batch b2 (LastBlockKey shard) (LastBlockValue l), st\<lparr>last_blocks := hput shard l (last_blocks st)\<rparr>))"

definition add_block_to_batch ::
  "('k, 's) crypto \<Rightarrow> 's signed_block \<Rightarrow> bool \<times> 's db_op list \<times> 'd sidechain_storage
   \<Rightarrow> (storage_error, unit) result \<times> bool \<times> 's db_op list \<times> 'd sidechain_storage" where
  "add_block_to_batch c sb s =
     (case s of (new_shard, batch, st) \<Rightarrow>
        if shard_id (header (block sb)) \<in> set (shards st)
        then if \<not> storage_verify_block_ancestry (block sb) st then (Err HeaderAncestryMismatch, new_shard, batch, st)
             else (Ok (), new_shard, add_last_block c sb batch st)
        else (Ok (), True, add_last_block c sb batch (st\<lparr>shards := shards st @ [shard_id (header (block sb))]\<rparr>)))"

definition store_blocks ::
  "('d, 's) rocksdb \<Rightarrow> ('k, 's) crypto \<Rightarrow> 's signed_block list \<Rightarrow> 'd sidechain_storage
   \<Rightarrow> (storage_error, unit) result \<times> 'd sidechain_storage" where
  "store_blocks r c blocks st =
     (case fold (\<lambda>sb s. snd (add_block_to_batch c sb s)) blocks (False, [], st) of
        (new_shard, batch, st') \<Rightarrow>
          let batch' = (if new_shard then add_to_batch batch StoredShardsKey (ShardsValue (shards st')) else batch)
          in case db_write r batch' (db st') of (res, d) \<Rightarrow> (res, st'\<lparr>db := d\<rparr>))"

subsection \<open>Reading ranges\<close>

text \<open>The loops below follow links of the database and are partial functions: not returning is the value
  \<^term>\<open>None\<close>.\<close>

partial_function (option) collect_parents ::
  "('d, 's) rocksdb \<Rightarrow> ('k, 's) crypto \<Rightarrow> h256 \<Rightarrow> 'd sidechain_storage \<Rightarrow> 's signed_block \<Rightarrow> 's signed_block list
   \<Rightarrow> (storage_error, 's signed_block list) result option" where
  "collect_parents r c h st current_block blocks_to_return =
     (if signed_hash c current_block = h then Some (Ok blocks_to_return)
      else if parent_hash (header (block current_block)) = 0 then Some (Ok (blocks_to_return @ [current_block]))
      else case get_block r (parent_hash (header (block current_block))) st of
             Err e \<Rightarrow> Some (Err e)
           | Ok None \<Rightarrow> Some (Err FailedToFindParentBlock)
           | Ok (Some b) \<Rightarrow> collect_parents r c h st b (blocks_to_return @ [current_block]))"

definition get_blocks_after ::
  "('d, 's) rocksdb \<Rightarrow> ('k, 's) crypto \<Rightarrow> h256 \<Rightarrow> shard_identifier \<Rightarrow> 'd sidechain_storage
   \<Rightarrow> (storage_error, 's signed_block list) result option" where
  "get_blocks_after r c h shard st =
     (case (if h \<noteq> 0 then map_ok (\<lambda>b. b = None) (get_block r h st) else Ok False) of
        Err e \<Rightarrow> Some (Err e)
      | Ok True \<Rightarrow> Some (Ok [])
      | Ok False \<Rightarrow>
          (case last_block_of_shard shard st of
             None \<Rightarrow> Some (Err LastBlockInfoNotFound)
           | Some l \<Rightarrow>
               (case get_block r (last_hash l) st of
                  Err e \<Rightarrow> Some (Err e)
                | Ok None \<Rightarrow> Some (Err LastBlockMissing)
                | Ok (Some latest) \<Rightarrow> map_option (map_ok rev) (collect_parents r c h st latest []))))"

definition get_blocks_in_range ::
  "('d, 's) rocksdb \<Rightarrow> ('k, 's) crypto \<Rightarrow> h256 \<Rightarrow> h256 \<Rightarrow> shard_identifier \<Rightarrow> 'd sidechain_storage
   \<Rightarrow> (storage_error, 's signed_block list) result option" where
  "get_blocks_in_range r c from_hash until_hash shard st =
     map_option (map_ok (takeWhile (\<lambda>b. signed_hash c b \<noteq> until_hash))) (get_blocks_after r c from_hash shard st)"

subsection \<open>Deleting blocks\<close>

definition delete_block :: "'s db_op list \<Rightarrow> h256 \<Rightarrow> block_number \<Rightarrow> shard_identifier \<Rightarrow> 's db_op list" where
  "delete_block batch h number shard = delete_to_batch (delete_to_batch batch (HashKey h)) (NumberKey shard number)"

definition delete_last_block ::
  "'s db_op list \<Rightarrow> last_sidechain_block \<Rightarrow> shard_identifier \<Rightarrow> 'd sidechain_storage \<Rightarrow> 's db_op list \<times> 'd sidechain_storage" where
  "delete_last_block batch l shard st =
     (delete_block (delete_to_batch batch (LastBlockKey shard)) (last_hash l) (last_number l) shard,
      st\<lparr>last_blocks := hdel shard (last_blocks st)\<rparr>)"

definition get_previous_block ::
  "('d, 's) rocksdb \<Rightarrow> shard_identifier \<Rightarrow> block_number \<Rightarrow> 'd sidechain_storage \<Rightarrow> (storage_error, last_sidechain_block option) result" where
  "get_previous_block r shard current st =
     map_ok (map_option (\<lambda>h. \<lparr>last_hash = h, last_number = current - 1\<rparr>)) (get_block_hash r shard (current - 1) st)"

partial_function (option) purge_previous ::
  "('d, 's) rocksdb \<Rightarrow> shard_identifier \<Rightarrow> 'd sidechain_storage \<Rightarrow> block_number \<Rightarrow> 's db_op list
   \<Rightarrow> (storage_error, 's db_op list) result option" where
  "purge_previous r shard st current batch =
     (case get_previous_block r shard current st of
        Err e \<Rightarrow> Some (Err e)
      | Ok None \<Rightarrow> Some (Ok batch)
      | Ok (Some p) \<Rightarrow> purge_previous r shard st (last_number p) (delete_block batch (last_hash p) (last_number p) shard))"

definition purge_shard ::
  "('d, 's) rocksdb \<Rightarrow> shard_identifier \<Rightarrow> 'd sidechain_storage
   \<Rightarrow> ((storage_error, unit) result \<times> 'd sidechain_storage) option" where
  "purge_shard r shard st =
     (case get_last_block_of_shard r shard st of
        Err e \<Rightarrow> Some (Err e, st)
      | Ok l \<Rightarrow>
          (case delete_last_block [] l shard st of
             (batch, st1) \<Rightarrow>
               (case purge_previous r shard st1 (last_number l) batch of
                  None \<Rightarrow> None
                | Some (Err e) \<Rightarrow> Some (Err e, st1)
                | Some (Ok batch1) \<Rightarrow>
                    let st2 = st1\<lparr>shards := filter (\<lambda>x. x \<noteq> shard) (shards st1)\<rparr>;
                        batch2 = add_to_batch batch1 StoredShardsKey (ShardsValue (shards st2))
                    in case db_write r batch2 (db st2) of (res, d) \<Rightarrow> Some (res, st2\<lparr>db := d\<rparr>))))"

partial_function (option) prune_down ::
  "('d, 's) rocksdb \<Rightarrow> shard_identifier \<Rightarrow> 'd sidechain_storage \<Rightarrow> block_number \<Rightarrow> 's db_op list
   \<Rightarrow> (storage_error, 's db_op list) result option" where
  "prune_down r shard st current batch =
     (case get_block_hash r shard current st of
        Err e \<Rightarrow> Some (Err e)
      | Ok None \<Rightarrow> Some (Ok batch)
      | Ok (Some h) \<Rightarrow> prune_down r shard st (current - 1) (delete_block batch h current shard))"

definition prune_shard_from_block_number ::
  "('d, 's) rocksdb \<Rightarrow> shard_identifier \<Rightarrow> block_number \<Rightarrow> 'd sidechain_storage
   \<Rightarrow> ((storage_error, unit) result \<times> 'd sidechain_storage) option" where
  "prune_shard_from_block_number r shard number st =
     (case get_last_block_of_shard r shard st of
        Err e \<Rightarrow> Some (Err e, st)
      | Ok l \<Rightarrow>
          if last_number l = number then purge_shard r shard st
          else (case prune_down r shard st number [] of
                  None \<Rightarrow> None
                | Some (Err e) \<Rightarrow> Some (Err e, st)
                | Some (Ok batch) \<Rightarrow> (case db_write r batch (db st) of (res, d) \<Rightarrow> Some (res, st\<lparr>db := d\<rparr>))))"

definition prune_one ::
  "('d, 's) rocksdb \<Rightarrow> block_number \<Rightarrow> shard_identifier \<Rightarrow> 'd sidechain_storage \<Rightarrow> 'd sidechain_storage option" where
  "prune_one r keep shard st =
     (case last_block_of_shard shard st of
        None \<Rightarrow> Some st
      | Some l \<Rightarrow> map_option snd (prune_shard_from_block_number r shard (last_number l - keep) st))"

fun prune_all ::
  "('d, 's) rocksdb \<Rightarrow> block_number \<Rightarrow> shard_identifier list \<Rightarrow> 'd sidechain_storage \<Rightarrow> 'd sidechain_storage option" where
  "prune_all r keep [] st = Some st"
| "prune_all r keep (s # ss) st = Option.bind (prune_one r keep s st) (prune_all r keep ss)"

definition prune_shards ::
  "('d, 's) rocksdb \<Rightarrow> block_number \<Rightarrow> 'd sidechain_storage \<Rightarrow> 'd sidechain_storage option" where
  "prune_shards r keep st = prune_all r keep (shards st) st"

section \<open>What the database promises\<close>

type_synonym 's db_view = "db_key \<Rightarrow> 's db_value option"

fun apply_op :: "'s db_op \<Rightarrow> 's db_view \<Rightarrow> 's db_view" where
  "apply_op (Put k v) m = m(k \<mapsto> v)"
| "apply_op (Delete k) m = m(k := None)"

definition apply_batch :: "'s db_op list \<Rightarrow> 's db_view \<Rightarrow> 's db_view" where
  "apply_batch ops = fold apply_op ops"

text \<open>Reads return what the database holds, and a batch is written entirely or, on an error, not at all.\<close>

definition rocksdb_ok :: "('d, 's) rocksdb \<Rightarrow> ('d \<Rightarrow> 's db_view) \<Rightarrow> bool" where
  "rocksdb_ok r view \<longleftrightarrow>
     (\<forall>d k. rocks_get r d k = Ok (view d k))
     \<and> (\<forall>ops d. view (snd (rocks_write r ops d)) = (if is_ok (fst (rocks_write r ops d)) then apply_batch ops (view d) else view d))"

lemma apply_batch_simps [simp]:
  "apply_batch [] m = m"
  "apply_batch (ops @ ops') m = apply_batch ops' (apply_batch ops m)"
  "apply_batch (op # ops) m = apply_batch ops (apply_op op m)"
  by (simp_all add: apply_batch_def)

lemma db_get_ok:
  "rocksdb_ok r view \<Longrightarrow> db_get r decode k d =
     (case view d k of None \<Rightarrow> Ok None | Some v \<Rightarrow> (case decode v of None \<Rightarrow> Err DecodeError | Some x \<Rightarrow> Ok (Some x)))"
  by (simp add: rocksdb_ok_def db_get_def split: option.split)

lemma db_write_ok:
  "rocksdb_ok r view \<Longrightarrow> db_write r ops d = (res, d')
   \<Longrightarrow> view d' = (if is_ok res then apply_batch ops (view d) else view d)"
  by (auto simp: rocksdb_ok_def db_write_def split: prod.splits) (metis fst_conv snd_conv)+

section \<open>Chains of blocks as the abstract content\<close>

text \<open>The abstract content of a storage maps each shard to its stored blocks, oldest first: a nonempty run of
  consecutively numbered blocks of that shard.\<close>

type_synonym 's chains = "shard_identifier \<Rightarrow> 's signed_block list option"

abbreviation block_shard :: "'s signed_block \<Rightarrow> shard_identifier" where
  "block_shard sb \<equiv> shard_id (header (block sb))"

definition chain_ok :: "shard_identifier \<Rightarrow> 's signed_block list \<Rightarrow> bool" where
  "chain_ok s bs \<longleftrightarrow> bs \<noteq> [] \<and> (\<forall>b\<in>set bs. block_shard b = s \<and> signed_number b \<noteq> 0)
     \<and> successively (\<lambda>a b. unat (signed_number b) = Suc (unat (signed_number a))) bs"

definition stored :: "'s chains \<Rightarrow> 's signed_block \<Rightarrow> bool" where
  "stored A b \<longleftrightarrow> (\<exists>bs. A (block_shard b) = Some bs \<and> b \<in> set bs)"

definition last_of :: "('k, 's) crypto \<Rightarrow> 's signed_block list \<Rightarrow> last_sidechain_block" where
  "last_of c bs = \<lparr>last_hash = signed_hash c (last bs), last_number = signed_number (last bs)\<rparr>"

definition memory_rel :: "('k, 's) crypto \<Rightarrow> shard_identifier list \<Rightarrow> (shard_identifier, last_sidechain_block) hmap \<Rightarrow> 's chains \<Rightarrow> bool" where
  "memory_rel c ss lb A \<longleftrightarrow> distinct ss \<and> set ss = dom A \<and> (\<forall>s. hget lb s = map_option (last_of c) (A s))"

definition chains_wf :: "('k, 's) crypto \<Rightarrow> 's chains \<Rightarrow> bool" where
  "chains_wf c A \<longleftrightarrow> (\<forall>s bs. A s = Some bs \<longrightarrow> chain_ok s bs) \<and> inj_on (signed_hash c) {b. stored A b}"

definition blocks_rel :: "('k, 's) crypto \<Rightarrow> 's db_view \<Rightarrow> 's chains \<Rightarrow> bool" where
  "blocks_rel c V A \<longleftrightarrow>
     (\<forall>s. V (LastBlockKey s) = map_option (LastBlockValue \<circ> last_of c) (A s))
     \<and> (\<forall>s n v. V (NumberKey s n) = Some v \<longleftrightarrow>
          (\<exists>b. stored A b \<and> block_shard b = s \<and> signed_number b = n \<and> v = HashValue (signed_hash c b)))
     \<and> (\<forall>h v. V (HashKey h) = Some v \<longleftrightarrow> (\<exists>b. stored A b \<and> signed_hash c b = h \<and> v = BlockValue b))"

definition shards_rel :: "'s db_view \<Rightarrow> shard_identifier list \<Rightarrow> bool" where
  "shards_rel V ss \<longleftrightarrow> V StoredShardsKey = Some (ShardsValue ss) \<or> V StoredShardsKey = None \<and> ss = []"

definition storage_rel :: "('k, 's) crypto \<Rightarrow> ('d \<Rightarrow> 's db_view) \<Rightarrow> 'd sidechain_storage \<Rightarrow> 's chains \<Rightarrow> bool" where
  "storage_rel c view st A \<longleftrightarrow> chains_wf c A \<and> memory_rel c (shards st) (last_blocks st) A
     \<and> blocks_rel c (view (db st)) A \<and> shards_rel (view (db st)) (shards st)"

definition blocks_of :: "'s chains \<Rightarrow> shard_identifier \<Rightarrow> 's signed_block list" where
  "blocks_of A s = (case A s of None \<Rightarrow> [] | Some bs \<Rightarrow> bs)"

definition accepts :: "'s chains \<Rightarrow> 's signed_block \<Rightarrow> bool" where
  "accepts A sb = (case A (block_shard sb) of None \<Rightarrow> True | Some bs \<Rightarrow> signed_number (last bs) = signed_number sb - 1)"

definition accept_block :: "'s signed_block \<Rightarrow> 's chains \<Rightarrow> 's chains" where
  "accept_block sb A = (if accepts A sb then A(block_shard sb \<mapsto> blocks_of A (block_shard sb) @ [sb]) else A)"

subsection \<open>Storing refines appending\<close>

lemma chain_ok_snoc:
  assumes "chain_ok s bs" "block_shard sb = s" "signed_number sb \<noteq> 0" "signed_number (last bs) = signed_number sb - 1"
  shows "chain_ok s (bs @ [sb])"
proof -
  have "unat (signed_number sb) = Suc (unat (signed_number (last bs)))"
    using assms(3,4) by (simp add: unat_minus_one) (metis Suc_pred unat_gt_0)
  then show ?thesis
    using assms(1-3) by (auto simp: chain_ok_def successively_append_iff)
qed

lemma successively_numbers:
  assumes "successively (\<lambda>a b. f b = Suc (f a)) bs" "i < length bs"
  shows "f (bs ! i) = f (hd bs) + i"
  using assms
proof (induction bs arbitrary: i)
  case (Cons b bs)
  show ?case
  proof (cases i)
    case (Suc j)
    with Cons.prems have "f (bs ! j) = f (hd bs) + j" "f (hd bs) = Suc (f b)"
      by (auto intro: Cons.IH simp: successively_Cons)
    with Suc show ?thesis by simp
  qed simp
qed simp

lemma chain_ok_number: "chain_ok s bs \<Longrightarrow> i < length bs \<Longrightarrow> unat (signed_number (bs ! i)) = unat (signed_number (hd bs)) + i"
  unfolding chain_ok_def using successively_numbers [of "\<lambda>b. unat (signed_number b)"] by blast

lemma chain_ok_unique:
  assumes "chain_ok s bs" "a \<in> set bs" "b \<in> set bs" "signed_number a = signed_number b"
  shows "a = b"
  using assms(2,3) assms(4) chain_ok_number [OF assms(1)] by (metis add_left_cancel in_set_conv_nth)

lemma chains_wf_unique:
  assumes "chains_wf c A" "stored A a" "stored A b" "block_shard a = block_shard b" "signed_number a = signed_number b"
  shows "a = b"
  using assms chain_ok_unique by (fastforce simp: chains_wf_def stored_def)

lemma stored_blocks_of: "stored A b \<longleftrightarrow> b \<in> set (blocks_of A (block_shard b))"
  by (cases "A (block_shard b)") (simp_all add: stored_def blocks_of_def)

lemma stored_accept: "stored (accept_block sb A) b \<longleftrightarrow> stored A b \<or> accepts A sb \<and> b = sb"
proof (cases "accepts A sb")
  case True
  then show ?thesis
    by (cases "block_shard b = block_shard sb") (auto simp: accept_block_def stored_blocks_of blocks_of_def [of "fun_upd _ _ _"]
        simp flip: blocks_of_def)
next
  case False
  then show ?thesis by (simp add: accept_block_def)
qed

lemma chains_wf_accept:
  assumes "chains_wf c A" "signed_number sb \<noteq> 0" "inj_on (signed_hash c) (insert sb {b. stored A b})"
  shows "chains_wf c (accept_block sb A)"
  unfolding chains_wf_def
proof (intro conjI allI impI)
  show "inj_on (signed_hash c) {b. stored (accept_block sb A) b}"
    by (rule inj_on_subset [OF assms(3)]) (auto simp: stored_accept)
next
  fix s bs assume bs: "accept_block sb A s = Some bs"
  show "chain_ok s bs"
  proof (cases "accepts A sb \<and> s = block_shard sb")
    case True
    with bs have "bs = blocks_of A s @ [sb]" by (simp add: accept_block_def)
    with True assms(1,2) show ?thesis
      by (cases "A s") (simp_all add: blocks_of_def accepts_def chains_wf_def chain_ok_snoc, simp add: chain_ok_def)
  next
    case False
    with bs have "A s = Some bs" by (auto simp: accept_block_def split: if_splits)
    with assms(1) show ?thesis by (simp add: chains_wf_def)
  qed
qed

text \<open>Storing a block writes three entries; the pending batch is seen through \<^const>\<open>apply_batch\<close>.\<close>

lemma blocks_rel_accept:
  assumes rel: "blocks_rel c V A" and acc: "accepts A sb"
    and wf: "chains_wf c (accept_block sb A)"
  shows "blocks_rel c (V(HashKey (signed_hash c sb) \<mapsto> BlockValue sb,
      NumberKey (block_shard sb) (signed_number sb) \<mapsto> HashValue (signed_hash c sb),
      LastBlockKey (block_shard sb) \<mapsto> LastBlockValue \<lparr>last_hash = signed_hash c sb, last_number = signed_number sb\<rparr>))
    (accept_block sb A)"
proof -
  let ?A = "accept_block sb A"
  have st: "stored ?A b \<longleftrightarrow> stored A b \<or> b = sb" for b
    using acc by (simp add: stored_accept)
  have inj: "signed_hash c b = signed_hash c sb \<Longrightarrow> stored A b \<Longrightarrow> b = sb" for b
    using wf st by (auto simp: chains_wf_def inj_on_def)
  have num: "signed_number b = signed_number sb \<Longrightarrow> block_shard b = block_shard sb \<Longrightarrow> stored A b \<Longrightarrow> b = sb" for b
    using wf st by (metis chains_wf_unique)
  show ?thesis
    using rel acc inj num unfolding blocks_rel_def st
    by (auto simp: accept_block_def last_of_def)
qed

lemma memory_rel_accept:
  assumes "memory_rel c ss lb A" "accepts A sb"
  shows "memory_rel c (if block_shard sb \<in> set ss then ss else ss @ [block_shard sb])
    (hput (block_shard sb) \<lparr>last_hash = signed_hash c sb, last_number = signed_number sb\<rparr> lb) (accept_block sb A)"
  using assms by (auto simp: memory_rel_def accept_block_def last_of_def)

lemma verify_ancestry_accepts:
  assumes "memory_rel c (shards st) (last_blocks st) A" "block_shard sb \<in> set (shards st)"
  shows "storage_verify_block_ancestry (block sb) st \<longleftrightarrow> accepts A sb"
  using assms by (auto simp: memory_rel_def storage_verify_block_ancestry_def last_block_of_shard_def accepts_def last_of_def)

definition pending_rel ::
  "('k, 's) crypto \<Rightarrow> 's db_view \<Rightarrow> bool \<times> 's db_op list \<times> 'd sidechain_storage \<Rightarrow> 's chains \<Rightarrow> bool" where
  "pending_rel c V s A \<longleftrightarrow> (case s of (new_shard, batch, st) \<Rightarrow>
     chains_wf c A \<and> memory_rel c (shards st) (last_blocks st) A \<and> blocks_rel c (apply_batch batch V) A
     \<and> apply_batch batch V StoredShardsKey = V StoredShardsKey \<and> (\<not> new_shard \<longrightarrow> shards_rel V (shards st)))"

lemma add_block_pending:
  assumes "pending_rel c V (new_shard, batch, st) A" "signed_number sb \<noteq> 0"
    and "inj_on (signed_hash c) (insert sb {b. stored A b})"
  shows "pending_rel c V (snd (add_block_to_batch c sb (new_shard, batch, st))) (accept_block sb A)
    \<and> db (snd (snd (snd (add_block_to_batch c sb (new_shard, batch, st))))) = db st"
proof (cases "accepts A sb")
  case True
  have wf: "chains_wf c (accept_block sb A)"
    using assms by (intro chains_wf_accept) (simp_all add: pending_rel_def)
  have mem: "memory_rel c (shards st) (last_blocks st) A" using assms(1) by (simp add: pending_rel_def)
  note blocks_rel_accept [OF _ True wf, of "apply_batch batch V"] memory_rel_accept [OF mem True]
  with True wf assms(1) verify_ancestry_accepts [OF mem] show ?thesis
    by (auto simp: pending_rel_def add_block_to_batch_def add_last_block_def Let_def add_to_batch_def)
next
  case False
  then have "block_shard sb \<in> set (shards st)"
    using assms(1) by (auto simp: pending_rel_def memory_rel_def accepts_def split: option.splits)
  with False assms(1) verify_ancestry_accepts [of c st A sb] show ?thesis
    by (simp add: pending_rel_def add_block_to_batch_def accept_block_def)
qed

lemma add_blocks_pending:
  assumes "pending_rel c V s A" "\<forall>sb\<in>set blocks. signed_number sb \<noteq> 0"
    and "inj_on (signed_hash c) (set blocks \<union> {b. stored A b})"
  shows "pending_rel c V (fold (\<lambda>sb s. snd (add_block_to_batch c sb s)) blocks s) (fold accept_block blocks A)
    \<and> db (snd (snd (fold (\<lambda>sb s. snd (add_block_to_batch c sb s)) blocks s))) = db (snd (snd s))"
  using assms
proof (induction blocks arbitrary: s A)
  case (Cons sb blocks)
  obtain new_shard batch st where s: "s = (new_shard, batch, st)" by (cases s)
  have step: "pending_rel c V (snd (add_block_to_batch c sb s)) (accept_block sb A)
      \<and> db (snd (snd (snd (add_block_to_batch c sb s)))) = db st"
    using Cons.prems unfolding s by (intro add_block_pending) (auto intro: inj_on_subset)
  have "inj_on (signed_hash c) (set blocks \<union> {b. stored (accept_block sb A) b})"
    by (rule inj_on_subset [OF Cons.prems(3)]) (auto simp: stored_accept)
  with Cons.IH [of "snd (add_block_to_batch c sb s)" "accept_block sb A"] step Cons.prems(2)
  show ?case by (simp add: s)
qed simp

lemma store_blocks_rel:
  assumes "rocksdb_ok r view" "storage_rel c view st A"
    and "\<forall>sb\<in>set blocks. signed_number sb \<noteq> 0" "inj_on (signed_hash c) (set blocks \<union> {b. stored A b})"
    and "store_blocks r c blocks st = (res, st')"
  shows "if is_ok res then storage_rel c view st' (fold accept_block blocks A) else view (db st') = view (db st)"
proof -
  have "pending_rel c (view (db st)) (False, [], st) A"
    using assms(2) by (simp add: pending_rel_def storage_rel_def)
  note run = add_blocks_pending [OF this assms(3,4)]
  obtain new_shard batch st1 where f: "fold (\<lambda>sb s. snd (add_block_to_batch c sb s)) blocks (False, [], st) = (new_shard, batch, st1)"
    by (metis prod_cases3)
  obtain res' d where w: "db_write r (if new_shard then add_to_batch batch StoredShardsKey (ShardsValue (shards st1)) else batch) (db st1) = (res', d)"
    by (metis surj_pair)
  have res: "res = res'" "st' = st1\<lparr>db := d\<rparr>"
    using assms(5) f w by (auto simp: store_blocks_def Let_def)
  have d1: "db st1 = db st" using run f by simp
  have "blocks_rel c (m(StoredShardsKey \<mapsto> v)) B = blocks_rel c m B" for m v B
    by (simp add: blocks_rel_def)
  with run f d1 db_write_ok [OF assms(1) w] show ?thesis
    by (auto simp: res pending_rel_def storage_rel_def add_to_batch_def shards_rel_def split: if_splits)
qed

lemma empty_storage_rel:
  "view d = (\<lambda>_. None) \<Longrightarrow> storage_rel c view \<lparr>db = d, shards = [], last_blocks = []\<rparr> (\<lambda>_. None)"
  by (simp add: storage_rel_def chains_wf_def memory_rel_def blocks_rel_def shards_rel_def stored_def)

text \<open>A database whose first write fails if its flag is set, and two blocks of one shard.\<close>

definition example_rocksdb :: "(bool \<times> unit db_view, unit) rocksdb" where
  "example_rocksdb =
     \<lparr>rocks_get = \<lambda>d k. Ok (snd d k),
      rocks_write = \<lambda>ops d. if fst d then (Err ''io'', (False, snd d)) else (Ok (), (False, apply_batch ops (snd d)))\<rparr>"

definition example_ok_rocksdb :: "(bool \<times> unit db_view, unit) rocksdb" where
  "example_ok_rocksdb =
     \<lparr>rocks_get = \<lambda>d k. Ok (snd d k), rocks_write = \<lambda>ops d. (Ok (), (fst d, apply_batch ops (snd d)))\<rparr>"

definition number_crypto :: "(unit, unit) crypto" where
  "number_crypto =
     \<lparr>header_hash = \<lambda>h. ucast (header_number h), data_hash = \<lambda>_. 0, sign = \<lambda>_ _. (), verify = \<lambda>_ _ _. True, public_of = \<lambda>_. 0\<rparr>"

definition numbered_block :: "u64 \<Rightarrow> unit signed_block" where
  "numbered_block n = \<lparr>block = \<lparr>header = new_header n (ucast (n - 1)) 7 0 0, data = new_block_data 0 0 [] [] 0\<rparr>, signature = ()\<rparr>"

lemma example_rocksdb_ok: "rocksdb_ok example_rocksdb snd"
  by (simp add: rocksdb_ok_def example_rocksdb_def)

lemma numbered_block_simps [simp]:
  "signed_number (numbered_block n) = n" "block_shard (numbered_block n) = 7"
  "parent_hash (header (block (numbered_block n))) = ucast (n - 1)"
  "signed_hash number_crypto (numbered_block n) = ucast n"
  by (simp_all add: numbered_block_def new_header_def signed_hash_def block_hash_def number_crypto_def)

definition example_storage :: "(bool \<times> unit db_view) sidechain_storage" where
  "example_storage = snd (store_blocks example_rocksdb number_crypto [numbered_block 1, numbered_block 2, numbered_block 3]
     \<lparr>db = (False, \<lambda>_. None), shards = [], last_blocks = []\<rparr>)"

lemma example_chains:
  "fold accept_block [numbered_block 1, numbered_block 2, numbered_block 3] (\<lambda>_. None)
    = [7 \<mapsto> [numbered_block 1, numbered_block 2, numbered_block 3]]"
  by (simp add: accept_block_def accepts_def blocks_of_def)

lemma example_hashes_inj: "inj_on (signed_hash number_crypto) (set [numbered_block 1, numbered_block 2, numbered_block 3] \<union> {b. stored (\<lambda>_. None) b})"
  by (simp add: inj_on_def stored_def)

lemma example_storage_rel:
  "storage_rel number_crypto snd example_storage [7 \<mapsto> [numbered_block 1, numbered_block 2, numbered_block 3]]"
proof -
  let ?run = "store_blocks example_rocksdb number_crypto [numbered_block 1, numbered_block 2, numbered_block 3]
     \<lparr>db = (False, \<lambda>_. None), shards = [], last_blocks = []\<rparr>"
  have "is_ok (fst ?run)"
    by (simp add: store_blocks_def add_block_to_batch_def add_last_block_def Let_def db_write_def example_rocksdb_def
        storage_verify_block_ancestry_def last_block_of_shard_def)
  with store_blocks_rel [OF example_rocksdb_ok empty_storage_rel _ example_hashes_inj, of "(False, \<lambda>_. None)" "fst ?run" "snd ?run"]
  show ?thesis by (simp add: example_storage_def example_chains del: fold.simps)
qed

text \<open>C32: Storing blocks refines appending to chains: if the batch is written, the database, the in-memory
  last blocks and the list of shards afterwards represent the chains extended by exactly those blocks
  that continue their shard by number (or open a new shard); if the write fails, the database still
  represents the old chains.\<close>
theorem store_blocks_refines:
  assumes "rocksdb_ok r view" "storage_rel c view st A"
    and "\<forall>sb\<in>set blocks. signed_number sb \<noteq> 0" "inj_on (signed_hash c) (set blocks \<union> {b. stored A b})"
    and "store_blocks r c blocks st = (res, st')"
  shows "if is_ok res then storage_rel c view st' (fold accept_block blocks A) else view (db st') = view (db st)"
  using assms by (rule store_blocks_rel)

theorem store_blocks_refines_witness:
  "\<exists>res st'. store_blocks example_rocksdb number_crypto [numbered_block 4] example_storage = (res, st')
    \<and> (if is_ok res then storage_rel number_crypto snd st' (fold accept_block [numbered_block 4] [7 \<mapsto> [numbered_block 1, numbered_block 2, numbered_block 3]])
       else snd (db st') = snd (db example_storage))"
proof -
  obtain res st' where run: "store_blocks example_rocksdb number_crypto [numbered_block 4] example_storage = (res, st')"
    by fastforce
  have "inj_on (signed_hash number_crypto) (numbered_block ` {1, 2, 3, 4})"
    by (simp add: inj_on_def)
  then have "inj_on (signed_hash number_crypto)
      (set [numbered_block 4] \<union> {b. stored [7 \<mapsto> [numbered_block 1, numbered_block 2, numbered_block 3]] b})"
    by (rule inj_on_subset) (auto simp: stored_def split: if_splits)
  with store_blocks_refines [OF example_rocksdb_ok example_storage_rel _ _ run] run show ?thesis by auto
qed

subsection \<open>Restart\<close>

lemma load_last_blocks_ok:
  assumes "rocksdb_ok r view" "\<forall>s\<in>set ss. view (db st) (LastBlockKey s) = Some (LastBlockValue (l s))"
  shows "load_last_blocks r ss st = Ok (st\<lparr>last_blocks := fold (\<lambda>s. hput s (l s)) ss (last_blocks st)\<rparr>)"
  using assms(2)
  by (induction ss arbitrary: st) (simp_all add: load_last_block_from_db_def db_get_ok [OF assms(1)])

lemma hget_fold_put: "hget (fold (\<lambda>s. hput s (l s)) ss m) k = (if k \<in> set ss then Some (l k) else hget m k)"
  by (induction ss arbitrary: m) auto

text \<open>C35: Loading the storage again from its database gives back the same shards and the same last block of
  every shard, and represents the same chains.\<close>
theorem load_restores_storage:
  assumes "rocksdb_ok r view" "storage_rel c view st A"
  shows "\<exists>st'. load_from_base_path r (db st) = Ok st' \<and> shards st' = shards st
    \<and> (\<forall>s. last_block_of_shard s st' = last_block_of_shard s st) \<and> storage_rel c view st' A"
proof -
  let ?V = "view (db st)"
  have "db_get r as_shards StoredShardsKey (db st) = Ok (if ?V StoredShardsKey = None then None else Some (shards st))"
    using assms(2) by (auto simp: db_get_ok [OF assms(1)] storage_rel_def shards_rel_def)
  then have sh: "load_shards_from_db r \<lparr>db = db st, shards = [], last_blocks = []\<rparr> = Ok (shards st)"
    using assms(2) by (auto simp: load_shards_from_db_def storage_rel_def shards_rel_def)
  have "\<forall>s\<in>set (shards st). ?V (LastBlockKey s) = Some (LastBlockValue (last_of c (the (A s))))"
    using assms(2) by (auto simp: storage_rel_def blocks_rel_def memory_rel_def)
  with sh load_last_blocks_ok [OF assms(1), of "shards st" "\<lparr>db = db st, shards = shards st, last_blocks = []\<rparr>"]
  have load: "load_from_base_path r (db st) = Ok \<lparr>db = db st, shards = shards st,
      last_blocks = fold (\<lambda>s. hput s (last_of c (the (A s)))) (shards st) []\<rparr>"
    by (simp add: load_from_base_path_def)
  have "hget (fold (\<lambda>s. hput s (last_of c (the (A s)))) (shards st) []) s = hget (last_blocks st) s" for s
    using assms(2) by (auto simp: hget_fold_put storage_rel_def memory_rel_def domIff)
  with load assms(2) show ?thesis
    by (auto simp: last_block_of_shard_def storage_rel_def memory_rel_def)
qed

theorem load_restores_storage_witness:
  "\<exists>st'. load_from_base_path example_rocksdb (db example_storage) = Ok st' \<and> shards st' = shards example_storage
    \<and> (\<forall>s. last_block_of_shard s st' = last_block_of_shard s example_storage)
    \<and> storage_rel number_crypto snd st' [7 \<mapsto> [numbered_block 1, numbered_block 2, numbered_block 3]]"
  by (rule load_restores_storage [OF example_rocksdb_ok example_storage_rel])

subsection \<open>Ranges of a linked chain\<close>

definition linked :: "('k, 's) crypto \<Rightarrow> 's signed_block list \<Rightarrow> bool" where
  "linked c bs \<longleftrightarrow> successively (\<lambda>a b. parent_hash (header (block b)) = signed_hash c a) bs
     \<and> (\<forall>b\<in>set bs. signed_hash c b \<noteq> 0)"

lemma get_block_stored:
  assumes "rocksdb_ok r view" "storage_rel c view st A" "stored A b"
  shows "get_block r (signed_hash c b) st = Ok (Some b)"
proof -
  have "view (db st) (HashKey (signed_hash c b)) = Some (BlockValue b)"
    using assms(2,3) by (auto simp: storage_rel_def blocks_rel_def)
  then show ?thesis by (simp add: get_block_def db_get_ok [OF assms(1)])
qed

lemma collect_parents_linked:
  assumes "rocksdb_ok r view" "storage_rel c view st A" "linked c bs" "bs \<noteq> []"
    and "\<forall>b\<in>set bs. stored A b" "parent_hash (header (block (hd bs))) = 0 \<or> h \<in> signed_hash c ` set bs"
  shows "collect_parents r c h st (last bs) acc = Some (Ok (acc @ takeWhile (\<lambda>b. signed_hash c b \<noteq> h) (rev bs)))"
  using assms(3-)
proof (induction bs arbitrary: acc rule: rev_induct)
  case (snoc b bs)
  consider (found) "signed_hash c b = h"
    | (first) "signed_hash c b \<noteq> h" "bs = []" | (step) "signed_hash c b \<noteq> h" "bs \<noteq> []"
    by blast
  then show ?case
  proof cases
    case found
    then show ?thesis by (simp add: collect_parents.simps)
  next
    case first
    with snoc.prems show ?thesis by (simp add: collect_parents.simps)
  next
    case step
    have par: "parent_hash (header (block b)) = signed_hash c (last bs)" "signed_hash c (last bs) \<noteq> 0" "stored A (last bs)"
      using snoc.prems step by (auto simp: linked_def successively_append_iff)
    have "linked c bs" using snoc.prems(1) by (auto simp: linked_def successively_append_iff)
    with snoc.prems step par snoc.IH [of "acc @ [b]"] show ?thesis
      by (simp add: collect_parents.simps [of _ _ _ _ b] get_block_stored [OF assms(1,2)])
  qed
qed simp

lemma get_blocks_after_linked:
  assumes "rocksdb_ok r view" "storage_rel c view st A" "A s = Some bs" "linked c bs"
    and "h = 0 \<and> parent_hash (header (block (hd bs))) = 0 \<or> h \<in> signed_hash c ` set bs"
  shows "get_blocks_after r c h s st = Some (Ok (rev (takeWhile (\<lambda>b. signed_hash c b \<noteq> h) (rev bs))))"
proof -
  have ok: "chain_ok s bs" using assms(2,3) by (simp add: storage_rel_def chains_wf_def)
  then have ne: "bs \<noteq> []" and st: "\<forall>b\<in>set bs. stored A b"
    using assms(3) by (auto simp: chain_ok_def stored_def)
  have "last_block_of_shard s st = Some (last_of c bs)"
    using assms(2,3) by (simp add: storage_rel_def memory_rel_def last_block_of_shard_def)
  moreover have "get_block r (last_hash (last_of c bs)) st = Ok (Some (last bs))"
    using get_block_stored [OF assms(1,2), of "last bs"] st ne by (simp add: last_of_def)
  moreover have "h \<noteq> 0 \<Longrightarrow> \<exists>b. get_block r h st = Ok (Some b)"
    using assms(5) st get_block_stored [OF assms(1,2)] by blast
  ultimately show ?thesis
    using collect_parents_linked [OF assms(1,2,4) ne st, of h "[]"] assms(5)
    by (auto simp: get_blocks_after_def)
qed

lemma takeWhile_rev_key:
  assumes "distinct (map f xs)" "i < length xs"
  shows "rev (takeWhile (\<lambda>x. f x \<noteq> f (xs ! i)) (rev xs)) = drop (Suc i) xs"
proof -
  have "rev xs = rev (drop (Suc i) xs) @ xs ! i # rev (take i xs)"
    using assms(2) by (metis append.assoc append_Cons append_Nil id_take_nth_drop rev.simps(2) rev_append)
  moreover have "\<forall>x\<in>set (drop (Suc i) xs). f x \<noteq> f (xs ! i)"
    using assms by (auto simp: in_set_conv_nth distinct_conv_nth)
  ultimately show ?thesis by (auto simp: takeWhile_append)
qed

lemma takeWhile_key:
  assumes "distinct (map f xs)" "i < length xs"
  shows "takeWhile (\<lambda>x. f x \<noteq> f (xs ! i)) xs = take i xs"
proof (rule takeWhile_eq_take_P_nth)
  show "f (xs ! j) \<noteq> f (xs ! i)" if "j < i" "j < length xs" for j
    using assms that by (auto simp: distinct_conv_nth)
qed simp

lemma chain_hashes_distinct:
  assumes "storage_rel c view st A" "A s = Some bs"
  shows "distinct (map (signed_hash c) bs)"
proof -
  have ok: "chain_ok s bs" and inj: "inj_on (signed_hash c) {b. stored A b}"
    using assms by (auto simp: storage_rel_def chains_wf_def)
  have "distinct bs"
    using chain_ok_number [OF ok] by (metis add_left_cancel distinct_conv_nth)
  moreover have "set bs \<subseteq> {b. stored A b}" using ok assms(2) by (auto simp: stored_def chain_ok_def)
  ultimately show ?thesis using inj by (simp add: distinct_map) (blast intro: inj_on_subset)
qed

text \<open>C34: On a hash-linked chain the range query returns exactly the blocks strictly between its two bounds,
  oldest first; the query for all blocks after a stored block returns the blocks following it, and the
  query after the zero hash returns the whole chain when it reaches back to the first block. Both loops
  terminate.\<close>
theorem get_blocks_spec:
  assumes "rocksdb_ok r view" "storage_rel c view st A" "A s = Some bs" "linked c bs" "i < j" "j < length bs"
  shows "get_blocks_in_range r c (signed_hash c (bs ! i)) (signed_hash c (bs ! j)) s st = Some (Ok (drop (Suc i) (take j bs)))
    \<and> get_blocks_after r c (signed_hash c (bs ! i)) s st = Some (Ok (drop (Suc i) bs))
    \<and> (parent_hash (header (block (hd bs))) = 0 \<longrightarrow> get_blocks_after r c 0 s st = Some (Ok bs))"
proof -
  note dist = chain_hashes_distinct [OF assms(2,3)]
  have after: "get_blocks_after r c (signed_hash c (bs ! i)) s st = Some (Ok (drop (Suc i) bs))"
    using get_blocks_after_linked [OF assms(1-4), of "signed_hash c (bs ! i)"] takeWhile_rev_key [OF dist] assms(5,6) by simp
  have "takeWhile (\<lambda>b. signed_hash c b \<noteq> signed_hash c (drop (Suc i) bs ! (j - Suc i))) (drop (Suc i) bs)
      = take (j - Suc i) (drop (Suc i) bs)"
    using dist assms(5,6) by (intro takeWhile_key) (simp_all add: drop_map [symmetric])
  with after assms(5,6) have range: "get_blocks_in_range r c (signed_hash c (bs ! i)) (signed_hash c (bs ! j)) s st
      = Some (Ok (drop (Suc i) (take j bs)))"
    by (simp add: get_blocks_in_range_def drop_take)
  have "takeWhile (\<lambda>b. signed_hash c b \<noteq> 0) (rev bs) = rev bs"
    using assms(4) by (simp add: linked_def)
  with range after get_blocks_after_linked [OF assms(1-4), of 0] show ?thesis by simp
qed

theorem get_blocks_spec_witness:
  "get_blocks_in_range example_rocksdb number_crypto 1 3 7 example_storage = Some (Ok [numbered_block 2])
    \<and> get_blocks_after example_rocksdb number_crypto 1 7 example_storage = Some (Ok [numbered_block 2, numbered_block 3])
    \<and> get_blocks_after example_rocksdb number_crypto 0 7 example_storage = Some (Ok [numbered_block 1, numbered_block 2, numbered_block 3])"
proof -
  have "linked number_crypto [numbered_block 1, numbered_block 2, numbered_block 3]"
    by (simp add: linked_def)
  from get_blocks_spec [OF example_rocksdb_ok example_storage_rel _ this, of 7 0 2] show ?thesis by simp
qed

subsection \<open>Pruning keeps the newest blocks\<close>

definition delete_ops :: "('k, 's) crypto \<Rightarrow> shard_identifier \<Rightarrow> 's signed_block list \<Rightarrow> 's db_op list" where
  "delete_ops c s bs = concat (map (\<lambda>b. [Delete (HashKey (signed_hash c b)), Delete (NumberKey s (signed_number b))]) bs)"

definition keep_newest :: "nat \<Rightarrow> shard_identifier \<Rightarrow> 's chains \<Rightarrow> 's chains" where
  "keep_newest k s A =
     (case A s of
        None \<Rightarrow> A
      | Some bs \<Rightarrow> A(s := (if k = 0 then None else Some (drop (length bs - k) bs))))"

lemma apply_delete_ops:
  "apply_batch (delete_ops c s bs) V k =
     (if k \<in> HashKey ` signed_hash c ` set bs \<union> NumberKey s ` signed_number ` set bs then None else V k)"
  by (induction bs arbitrary: V) (auto simp: delete_ops_def)

lemma get_block_hash_stored:
  assumes "rocksdb_ok r view" "blocks_rel c (view (db st)) A" "stored A b"
  shows "get_block_hash r (block_shard b) (signed_number b) st = Ok (Some (signed_hash c b))"
proof -
  have "view (db st) (NumberKey (block_shard b) (signed_number b)) = Some (HashValue (signed_hash c b))"
    using assms(2,3) unfolding blocks_rel_def by blast
  then show ?thesis by (simp add: get_block_hash_def db_get_ok [OF assms(1)])
qed

lemma get_block_hash_absent:
  assumes "rocksdb_ok r view" "blocks_rel c (view (db st)) A" "\<And>b. stored A b \<Longrightarrow> block_shard b = s \<Longrightarrow> signed_number b \<noteq> n"
  shows "get_block_hash r s n st = Ok None"
proof -
  have "view (db st) (NumberKey s n) = None"
    using assms(2,3) unfolding blocks_rel_def by (metis not_None_eq)
  then show ?thesis by (simp add: get_block_hash_def db_get_ok [OF assms(1)])
qed

lemma stored_number_ge:
  assumes "chains_wf c A" "A s = Some bs" "stored A b" "block_shard b = s"
  obtains i where "i < length bs" "b = bs ! i" "unat (signed_number b) = unat (signed_number (hd bs)) + i"
  using assms chain_ok_number by (metis chains_wf_def in_set_conv_nth option.inject stored_def)

lemma number_below_head:
  assumes "chains_wf c A" "A s = Some bs" "stored A b" "block_shard b = s"
  shows "signed_number b \<noteq> signed_number (hd bs) - 1"
proof -
  have "signed_number (hd bs) \<noteq> 0"
    using assms(1,2) by (auto simp: chains_wf_def chain_ok_def)
  then have "unat (signed_number (hd bs) - 1) < unat (signed_number (hd bs))"
    by (simp add: unat_minus_one)  (metis diff_Suc_less unat_gt_0 One_nat_def)
  with stored_number_ge [OF assms] show ?thesis by (metis le_add1 not_le)
qed

lemma chain_ok_prev:
  assumes "chain_ok s (bs1 @ b # bs2)" "bs1 \<noteq> []"
  shows "signed_number b - 1 = signed_number (last bs1)"
proof -
  have "unat (signed_number b) = Suc (unat (signed_number (last bs1)))"
    using assms by (simp add: chain_ok_def successively_append_iff)
  then show ?thesis by (metis add_diff_cancel_right' succ_no_wrap)
qed

lemma prune_down_prefix:
  assumes "rocksdb_ok r view" "blocks_rel c (view (db st)) A" "chains_wf c A"
    and "A s = Some (bs1 @ bs2)" "bs1 \<noteq> []"
  shows "prune_down r s st (signed_number (last bs1)) batch = Some (Ok (batch @ delete_ops c s (rev bs1)))"
  using assms(4,5)
proof (induction bs1 arbitrary: bs2 batch rule: rev_induct)
  case (snoc b bs1)
  have b: "stored A b" "block_shard b = s"
    using snoc.prems(1) assms(3) by (auto simp: chains_wf_def chain_ok_def stored_def)
  have "prune_down r s st (signed_number b - 1) (delete_block batch (signed_hash c b) (signed_number b) s)
      = Some (Ok (batch @ delete_ops c s (b # rev bs1)))"
  proof (cases "bs1 = []")
    case True
    then have "get_block_hash r s (signed_number b - 1) st = Ok None"
      using number_below_head [OF assms(3) snoc.prems(1)] by (intro get_block_hash_absent [OF assms(1,2)]) auto
    with True show ?thesis
      by (simp add: prune_down.simps delete_block_def delete_to_batch_def delete_ops_def)
  next
    case False
    with snoc.prems(1) assms(3) have "signed_number b - 1 = signed_number (last bs1)"
      by (intro chain_ok_prev [of s _ _ bs2]) (simp_all add: chains_wf_def)
    with False snoc.IH [of "b # bs2"] snoc.prems show ?thesis
      by (simp add: delete_block_def delete_to_batch_def delete_ops_def)
  qed
  with get_block_hash_stored [OF assms(1,2) b(1)] b(2) show ?case
    by (simp add: prune_down.simps [of _ _ _ "signed_number b"])
qed simp

lemma purge_previous_eq:
  "prune_down r s st n batch = Some y \<Longrightarrow> purge_previous r s st (n + 1) batch = Some y"
  apply (erule prune_down.raw_induct [rotated])
  apply (subst purge_previous.simps)
  apply (auto simp: get_previous_block_def split: result.splits option.splits)
  apply (metis diff_add_cancel)
  done

lemma stored_update:
  assumes "chains_wf c A" "A s = Some (bs1 @ bs2)"
  shows "stored (A(s := if bs2 = [] then None else Some bs2)) b \<longleftrightarrow> stored A b \<and> b \<notin> set bs1"
proof -
  have ok: "chain_ok s (bs1 @ bs2)" using assms by (simp add: chains_wf_def)
  have "b \<in> set bs1 \<Longrightarrow> b \<notin> set bs2"
  proof
    assume "b \<in> set bs1" "b \<in> set bs2"
    then obtain i j where "i < length bs1" "j < length bs2" "b = bs1 ! i" "b = bs2 ! j"
      by (metis in_set_conv_nth)
    with chain_ok_number [OF ok, of i] chain_ok_number [OF ok, of "length bs1 + j"] show False
      by (simp add: nth_append)
  qed
  moreover have "x \<in> set bs1 \<union> set bs2 \<Longrightarrow> block_shard x = s" for x
    using ok by (auto simp: chain_ok_def)
  ultimately show ?thesis using assms(2) by (auto simp: stored_def split: if_splits)
qed

lemma blocks_rel_delete:
  assumes "blocks_rel c V A" "chains_wf c A" "A s = Some (bs1 @ bs2)"
    and "\<And>k. V' k = (if k \<in> HashKey ` signed_hash c ` set bs1 \<union> NumberKey s ` signed_number ` set bs1
      \<or> bs2 = [] \<and> k = LastBlockKey s then None else V k)"
  shows "blocks_rel c V' (A(s := if bs2 = [] then None else Some bs2))"
proof -
  let ?A = "A(s := if bs2 = [] then None else Some bs2)"
  have bs1: "b \<in> set bs1 \<Longrightarrow> stored A b \<and> block_shard b = s" for b
    using assms(2,3) by (auto simp: chains_wf_def chain_ok_def stored_def)
  have inj: "stored A b \<Longrightarrow> x \<in> set bs1 \<Longrightarrow> signed_hash c b = signed_hash c x \<Longrightarrow> b \<in> set bs1" for b x
    using assms(2) bs1 by (metis (mono_tags, lifting) chains_wf_def inj_onD mem_Collect_eq)
  have num: "stored A b \<Longrightarrow> block_shard b = s \<Longrightarrow> x \<in> set bs1 \<Longrightarrow> signed_number b = signed_number x \<Longrightarrow> b \<in> set bs1" for b x
    using assms(2) bs1 by (metis chains_wf_unique)
  have "V' (LastBlockKey t) = map_option (LastBlockValue \<circ> last_of c) (?A t)" for t
    using assms(1,3,4) by (auto simp: blocks_rel_def last_of_def)
  moreover have "V' (NumberKey t n) = Some v \<longleftrightarrow>
      (\<exists>b. stored ?A b \<and> block_shard b = t \<and> signed_number b = n \<and> v = HashValue (signed_hash c b))" for t n v
    using assms(1,4) bs1 num unfolding blocks_rel_def stored_update [OF assms(2,3)] by auto
  moreover have "V' (HashKey h) = Some v \<longleftrightarrow> (\<exists>b. stored ?A b \<and> signed_hash c b = h \<and> v = BlockValue b)" for h v
    using assms(1,4) inj unfolding blocks_rel_def stored_update [OF assms(2,3)] by auto
  ultimately show ?thesis by (simp add: blocks_rel_def)
qed

lemma chains_wf_delete:
  assumes "chains_wf c A" "A s = Some (bs1 @ bs2)"
  shows "chains_wf c (A(s := if bs2 = [] then None else Some bs2))"
proof -
  have "chain_ok s (bs1 @ bs2)" using assms by (simp add: chains_wf_def)
  then have "bs2 \<noteq> [] \<Longrightarrow> chain_ok s bs2" by (auto simp: chain_ok_def successively_append_iff)
  moreover have "inj_on (signed_hash c) {b. stored (A(s := if bs2 = [] then None else Some bs2)) b}"
    using assms(1) unfolding stored_update [OF assms] chains_wf_def by (auto intro: inj_on_subset)
  ultimately show ?thesis using assms(1) by (simp add: chains_wf_def)
qed

definition writes_succeed :: "('d, 's) rocksdb \<Rightarrow> bool" where
  "writes_succeed r \<longleftrightarrow> (\<forall>ops d. is_ok (fst (rocks_write r ops d)))"

lemma db_write_succeeds:
  assumes "rocksdb_ok r view" "writes_succeed r"
  obtains d' where "db_write r ops d = (Ok (), d')" "view d' = apply_batch ops (view d)"
proof -
  obtain res d' where w: "db_write r ops d = (res, d')" by fastforce
  have "is_ok res"
    using assms(2) w by (auto simp: writes_succeed_def db_write_def split: prod.splits) (metis fst_conv)
  then have "res = Ok ()" by (cases res) simp_all
  with w db_write_ok [OF assms(1) w] show ?thesis by (intro that) simp_all
qed

lemma purge_previous_all:
  assumes "rocksdb_ok r view" "blocks_rel c (view (db st)) A" "chains_wf c A" "A s = Some bs"
  shows "purge_previous r s st (signed_number (last bs)) (batch @ delete_ops c s [last bs]) = Some (Ok (batch @ delete_ops c s (rev bs)))"
proof -
  have ne: "bs \<noteq> []" using assms(3,4) by (auto simp: chains_wf_def chain_ok_def)
  then have bs: "A s = Some (butlast bs @ [last bs])" using assms(4) by simp
  let ?b0 = "batch @ delete_ops c s [last bs]"
  have "prune_down r s st (signed_number (last bs) - 1) ?b0 = Some (Ok (?b0 @ delete_ops c s (rev (butlast bs))))"
  proof (cases "butlast bs = []")
    case True
    then have "last bs = hd bs" using ne by (cases bs) (auto split: if_splits)
    with number_below_head [OF assms(3,4)] have "get_block_hash r s (signed_number (last bs) - 1) st = Ok None"
      by (intro get_block_hash_absent [OF assms(1,2)]) auto
    with True show ?thesis by (simp add: prune_down.simps delete_ops_def)
  next
    case False
    then have "signed_number (last bs) - 1 = signed_number (last (butlast bs))"
      using bs assms(3) by (intro chain_ok_prev [of s _ _ "[]"]) (simp_all add: chains_wf_def)
    with prune_down_prefix [OF assms(1-3) bs False] show ?thesis by simp
  qed
  from purge_previous_eq [OF this] ne show ?thesis
    by (cases bs rule: rev_cases) (simp_all add: delete_ops_def)
qed

lemma purge_shard_refines:
  assumes "rocksdb_ok r view" "writes_succeed r" "storage_rel c view st A" "A s = Some bs"
  shows "\<exists>st'. purge_shard r s st = Some (Ok (), st') \<and> storage_rel c view st' (A(s := None))"
proof -
  have wf: "chains_wf c A" and br: "blocks_rel c (view (db st)) A"
    and mem: "memory_rel c (shards st) (last_blocks st) A"
    using assms(3) by (auto simp: storage_rel_def)
  let ?st1 = "st\<lparr>last_blocks := hdel s (last_blocks st)\<rparr>"
  let ?ss = "filter (\<lambda>x. x \<noteq> s) (shards st)"
  let ?batch = "([Delete (LastBlockKey s)] @ delete_ops c s (rev bs)) @ [Put StoredShardsKey (ShardsValue ?ss)]"
  obtain d' where w: "db_write r ?batch (db st) = (Ok (), d')" and d': "view d' = apply_batch ?batch (view (db st))"
    using db_write_succeeds [OF assms(1,2)] by metis
  have "get_last_block_of_shard r s st = Ok (last_of c bs)"
    using mem assms(4) by (simp add: get_last_block_of_shard_def memory_rel_def)
  moreover have "purge_previous r s ?st1 (signed_number (last bs)) ([Delete (LastBlockKey s)] @ delete_ops c s [last bs])
      = Some (Ok ([Delete (LastBlockKey s)] @ delete_ops c s (rev bs)))"
    using br by (intro purge_previous_all [OF assms(1) _ wf assms(4)]) simp
  ultimately have run: "purge_shard r s st = Some (Ok (), ?st1\<lparr>shards := ?ss, db := d'\<rparr>)"
    using w by (simp add: purge_shard_def delete_last_block_def delete_block_def delete_to_batch_def add_to_batch_def Let_def
        delete_ops_def [of _ _ "[_]"] last_of_def)
  have "blocks_rel c (view d') (A(s := if ([]::'b signed_block list) = [] then None else Some []))"
  proof (rule blocks_rel_delete [where ?bs1.0 = bs])
    show "blocks_rel c ((view (db st))(StoredShardsKey \<mapsto> ShardsValue ?ss)) A"
      using br by (simp add: blocks_rel_def)
  qed (use wf assms(4) d' in \<open>auto simp: apply_delete_ops\<close>)
  moreover have "chains_wf c (A(s := None))" using chains_wf_delete [of c A s bs "[]"] wf assms(4) by simp
  ultimately show ?thesis
    using run mem d' by (auto simp: storage_rel_def memory_rel_def shards_rel_def)
qed

lemma below_or_wrapped:
  assumes "unat (l::u64) = h + (n - 1)" "n \<le> unat k" "unat x = h + i" "i < n" "0 < unat k"
  shows "x \<noteq> l - k"
proof (cases "unat k \<le> unat l")
  case True
  then have "unat (l - k) = unat l - unat k" by (simp add: unat_minus_u64 word_le_nat_alt)
  with assms True show ?thesis by auto
next
  case False
  have "unat (l - k) = unat l + 2 ^ 64 - unat k"
    using False by (simp add: unat_sub_if_size word_size)
  moreover have "unat k < 2 ^ 64" by (rule unat_u64_less)
  ultimately have "unat l < unat (l - k)" by linarith
  with assms show ?thesis by auto
qed

lemma prune_down_threshold:
  assumes "rocksdb_ok r view" "blocks_rel c (view (db st)) A" "chains_wf c A" "A s = Some bs" "keep \<noteq> 0"
  shows "prune_down r s st (signed_number (last bs) - keep) []
    = Some (Ok (delete_ops c s (rev (take (length bs - unat keep) bs))))"
proof -
  let ?m = "length bs - unat keep"
  have ok: "chain_ok s bs" using assms(3,4) by (simp add: chains_wf_def)
  then have ne: "bs \<noteq> []" and hd: "0 < unat (signed_number (hd bs))"
    by (auto simp: chain_ok_def unat_gt_0)
  have lst: "unat (signed_number (last bs)) = unat (signed_number (hd bs)) + (length bs - 1)"
    using chain_ok_number [OF ok, of "length bs - 1"] ne by (simp add: last_conv_nth)
  have k: "0 < unat keep" using assms(5) by (simp add: unat_gt_0)
  show ?thesis
  proof (cases "unat keep < length bs")
    case True
    then have "unat (signed_number (last (take ?m bs))) = unat (signed_number (hd bs)) + (?m - 1)"
      using chain_ok_number [OF ok, of "?m - 1"] ne k by (simp add: last_conv_nth)
    moreover have "unat (signed_number (last bs) - keep) = unat (signed_number (last bs)) - unat keep"
      using lst hd True by (intro unat_minus_u64) (simp add: word_le_nat_alt)
    ultimately have "signed_number (last bs) - keep = signed_number (last (take ?m bs))"
      using lst True by (simp add: word_unat_eq_iff)
    with prune_down_prefix [OF assms(1-3), of s "take ?m bs" "drop ?m bs" "[]"] assms(4) True ne show ?thesis by simp
  next
    case False
    have "signed_number b \<noteq> signed_number (last bs) - keep" if b: "stored A b" "block_shard b = s" for b
    proof -
      obtain i where i: "i < length bs" "unat (signed_number b) = unat (signed_number (hd bs)) + i"
        by (rule stored_number_ge [OF assms(3,4) b])
      show ?thesis by (rule below_or_wrapped [OF lst _ i(2,1) k]) (use False in simp)
    qed
    then have "get_block_hash r s (signed_number (last bs) - keep) st = Ok None"
      by (rule get_block_hash_absent [OF assms(1,2)])
    with False show ?thesis by (simp add: prune_down.simps delete_ops_def)
  qed
qed

lemma prune_one_refines:
  assumes "rocksdb_ok r view" "writes_succeed r" "storage_rel c view st A"
  shows "\<exists>st'. prune_one r keep s st = Some st' \<and> storage_rel c view st' (keep_newest (unat keep) s A)"
proof (cases "A s")
  case None
  with assms(3) show ?thesis
    by (simp add: prune_one_def keep_newest_def storage_rel_def memory_rel_def last_block_of_shard_def)
next
  case (Some bs)
  have wf: "chains_wf c A" and br: "blocks_rel c (view (db st)) A"
    and mem: "memory_rel c (shards st) (last_blocks st) A"
    using assms(3) by (auto simp: storage_rel_def)
  have lb: "last_block_of_shard s st = Some (last_of c bs)" "get_last_block_of_shard r s st = Ok (last_of c bs)"
    using mem Some by (simp_all add: memory_rel_def last_block_of_shard_def get_last_block_of_shard_def)
  show ?thesis
  proof (cases "keep = 0")
    case True
    with purge_shard_refines [OF assms Some] lb Some show ?thesis
      by (auto simp: prune_one_def prune_shard_from_block_number_def keep_newest_def)
  next
    case False
    let ?m = "length bs - unat keep"
    let ?batch = "delete_ops c s (rev (take ?m bs))"
    have drop: "drop ?m bs \<noteq> []"
    proof -
      have "bs \<noteq> []" using wf Some by (auto simp: chains_wf_def chain_ok_def)
      moreover have "0 < unat keep" using False by (simp add: unat_gt_0)
      ultimately show ?thesis by (simp add: not_le diff_less)
    qed
    obtain d' where w: "db_write r ?batch (db st) = (Ok (), d')" and d': "view d' = apply_batch ?batch (view (db st))"
      using db_write_succeeds [OF assms(1,2)] by metis
    have run: "prune_one r keep s st = Some (st\<lparr>db := d'\<rparr>)"
      using lb w prune_down_threshold [OF assms(1) br wf Some False] False
      by (simp add: prune_one_def prune_shard_from_block_number_def last_of_def)
    have A': "keep_newest (unat keep) s A = A(s := if drop ?m bs = [] then None else Some (drop ?m bs))"
      using Some drop False by (simp add: keep_newest_def unat_eq_zero)
    have Some': "A s = Some (take ?m bs @ drop ?m bs)" using Some by simp
    have "blocks_rel c (view d') (keep_newest (unat keep) s A)"
      unfolding A' by (rule blocks_rel_delete [OF br wf Some']) (use drop d' in \<open>simp add: apply_delete_ops\<close>)
    moreover have "chains_wf c (keep_newest (unat keep) s A)"
      unfolding A' by (rule chains_wf_delete [OF wf Some'])
    moreover have "shards_rel (view d') (shards st)"
      using assms(3) d' by (auto simp: storage_rel_def shards_rel_def apply_delete_ops)
    moreover have "memory_rel c (shards st) (last_blocks st) (keep_newest (unat keep) s A)"
      using mem Some drop unfolding A' by (auto simp: memory_rel_def last_of_def)
    ultimately show ?thesis using run by (simp add: storage_rel_def)
  qed
qed

lemma prune_all_refines:
  assumes "rocksdb_ok r view" "writes_succeed r" "storage_rel c view st A"
  shows "\<exists>st'. prune_all r keep ss st = Some st' \<and> storage_rel c view st' (fold (keep_newest (unat keep)) ss A)"
  using assms(3)
proof (induction ss arbitrary: st A)
  case (Cons s ss)
  from prune_one_refines [OF assms(1,2) Cons.prems, of keep s] Cons.IH show ?case by fastforce
qed simp

lemma fold_keep_newest:
  "distinct ss \<Longrightarrow> fold (keep_newest k) ss A s =
     (if s \<in> set ss then Option.bind (A s) (\<lambda>bs. if k = 0 then None else Some (drop (length bs - k) bs)) else A s)"
proof (induction ss arbitrary: A)
  case (Cons t ss)
  have "keep_newest k t A s = (if s = t then Option.bind (A s) (\<lambda>bs. if k = 0 then None else Some (drop (length bs - k) bs)) else A s)"
    by (auto simp: keep_newest_def split: option.split)
  with Cons show ?case by auto
qed simp

text \<open>C33: Pruning terminates and leaves of every shard exactly its newest blocks, as many as are to be kept:
  the storage then represents each chain cut down to its last \<open>keep\<close> blocks, and no chain at all when
  nothing is to be kept. This includes the subtraction that wraps below zero for chains that are shorter
  than the number of blocks to keep.\<close>
theorem prune_keeps_newest:
  assumes "rocksdb_ok r view" "writes_succeed r" "storage_rel c view st A"
  shows "\<exists>st'. prune_shards r keep st = Some st'
    \<and> storage_rel c view st' (\<lambda>s. Option.bind (A s) (\<lambda>bs. if keep = 0 then None else Some (drop (length bs - unat keep) bs)))"
proof -
  have "distinct (shards st)" "set (shards st) = dom A"
    using assms(3) by (auto simp: storage_rel_def memory_rel_def)
  then have "fold (keep_newest (unat keep)) (shards st) A
      = (\<lambda>s. Option.bind (A s) (\<lambda>bs. if keep = 0 then None else Some (drop (length bs - unat keep) bs)))"
    by (intro ext) (auto simp: fold_keep_newest unat_eq_zero domIff)
  with prune_all_refines [OF assms, of keep "shards st"] show ?thesis by (simp add: prune_shards_def)
qed

theorem prune_keeps_newest_witness:
  "\<exists>st'. prune_shards example_ok_rocksdb 2 example_storage = Some st'
    \<and> storage_rel number_crypto snd st' [7 \<mapsto> [numbered_block 2, numbered_block 3]]"
proof -
  have eq: "(\<lambda>s. Option.bind ([7 \<mapsto> [numbered_block 1, numbered_block 2, numbered_block 3]] s)
      (\<lambda>bs. if (2::u64) = 0 then None else Some (drop (length bs - unat (2::u64)) bs))) = [7 \<mapsto> [numbered_block 2, numbered_block 3]]"
    by (rule ext) simp
  have "rocksdb_ok example_ok_rocksdb snd" "writes_succeed example_ok_rocksdb"
    by (simp_all add: rocksdb_ok_def writes_succeed_def example_ok_rocksdb_def)
  from prune_keeps_newest [OF this example_storage_rel, of 2] show ?thesis unfolding eq .
qed



end
