(* ===== verification/Stf_Primitives.thy ===== *)
theory Stf_Primitives
  imports Worker_Prelude Externalities
begin

text \<open>
  Trusted operations (core-primitives/stf-primitives, types.rs): calls and getters, how a caller refers to
  them and how the pool validates them. Sender, nonce and the SCALE and blake2 functions of a call come
  from the type of calls: the record \<open>call_env\<close> carries them.
\<close>

type_synonym account_id = h256
type_synonym nonce = u32

datatype ('t, 'g) trusted_operation = IndirectCall 't | DirectCall 't | Get 'g

datatype ('t, 'g) trusted_operation_or_hash =
    OperationHash h256
  | OperationEncoded bytes
  | Operation "('t, 'g) trusted_operation"

datatype parentchain_id = IntegriteeId | TargetAId | TargetBId

datatype parentchain_call = IntegriteeCall bytes | TargetACall bytes | TargetBCall bytes

record valid_transaction =
  vt_priority :: u64
  vt_requires :: "bytes list"
  vt_provides :: "bytes list"
  vt_longevity :: u64
  vt_propagate :: bool

datatype validity_error = InvalidTransaction | UnknownTransaction

record ('t, 'g) call_env =
  sender_account :: "'t \<Rightarrow> account_id"
  call_nonce :: "'t \<Rightarrow> nonce"
  call_verify_signature :: "'t \<Rightarrow> bytes \<Rightarrow> shard_identifier \<Rightarrow> bool"
  encode_account_nonce :: "account_id \<times> nonce \<Rightarrow> bytes"
  top_hash :: "('t, 'g) trusted_operation \<Rightarrow> h256"
  getter_validate :: "'g \<Rightarrow> (validity_error, valid_transaction) result"

fun to_call :: "('t, 'g) trusted_operation \<Rightarrow> 't option" where
  "to_call (DirectCall c) = Some c"
| "to_call (IndirectCall c) = Some c"
| "to_call _ = None"

fun signed_caller_account :: "('t, 'g) call_env \<Rightarrow> ('t, 'g) trusted_operation \<Rightarrow> account_id option" where
  "signed_caller_account env (DirectCall c) = Some (sender_account env c)"
| "signed_caller_account env (IndirectCall c) = Some (sender_account env c)"
| "signed_caller_account env _ = None"

definition validate_trusted_call :: "('t, 'g) call_env \<Rightarrow> 't \<Rightarrow> valid_transaction" where
  "validate_trusted_call env c =
     \<lparr>vt_priority = 2 ^ 20, vt_requires = [], vt_provides = [encode_account_nonce env (sender_account env c, call_nonce env c)],
      vt_longevity = 64, vt_propagate = True\<rparr>"

fun validate_operation :: "('t, 'g) call_env \<Rightarrow> ('t, 'g) trusted_operation \<Rightarrow> (validity_error, valid_transaction) result" where
  "validate_operation env (DirectCall c) = Ok (validate_trusted_call env c)"
| "validate_operation env (IndirectCall c) = Ok (validate_trusted_call env c)"
| "validate_operation env (Get g) = getter_validate env g"

definition from_top :: "('t, 'g) trusted_operation \<Rightarrow> ('t, 'g) trusted_operation_or_hash" where
  "from_top op = Operation op"

end
