(* ===== verification/Slots.thy ===== *)
theory Slots
  imports Block_Verification Stf_Primitives
begin

text \<open>
  Slots (sidechain/consensus/slots, slots.rs and lib.rs): the slot schedule, the generic slot worker and the
  scheduler that shares a slot among the shards. The slot worker trait is a record of functions over the
  state \<open>'w\<close> of the worker; \<open>tick\<close> reads the clock.
\<close>

lemma of_nat_unat_eq: "of_nat (unat (w::'a::len word)) = w"
  by simp

section \<open>Slot arithmetic\<close>

definition time_until_next_slot :: "duration \<Rightarrow> duration \<Rightarrow> duration" where
  "time_until_next_slot duration_now slot_duration =
     (let now = as_millis duration_now
      in if as_millis slot_duration = 0 then 0
         else let next_slot = (now + as_millis slot_duration) div as_millis slot_duration;
                  remaining_millis = next_slot * as_millis slot_duration - now
              in from_millis (unat (of_nat remaining_millis :: u64)))"

record 'ph slot_info =
  info_slot :: slot
  info_timestamp :: duration
  info_duration :: duration
  info_ends_at :: duration
  last_imported_integritee_parentchain_head :: 'ph
  last_imported_target_a_parentchain_head :: "'ph option"
  last_imported_target_b_parentchain_head :: "'ph option"

definition duration_remaining :: "duration \<Rightarrow> 'ph slot_info \<Rightarrow> duration option" where
  "duration_remaining duration_now info =
     (if info_ends_at info \<le> duration_now then None else Some (info_ends_at info - duration_now))"

definition slot_ends_at :: "slot \<Rightarrow> duration \<Rightarrow> duration" where
  "slot_ends_at s slot_duration = from_millis (unat (saturating_add s 1 * of_nat (as_millis slot_duration)))"

definition timestamp_within_slot :: "'ph slot_info \<Rightarrow> 's signed_block \<Rightarrow> bool" where
  "timestamp_within_slot info proposal =
     (let proposal_stamp = block_timestamp (data (block proposal))
      in of_nat (as_millis (info_timestamp info)) \<le> proposal_stamp \<and> proposal_stamp \<le> of_nat (as_millis (info_ends_at info)))"

record last_slot =
  last_slot_value :: slot
  last_slot_poisoned :: bool

datatype slot_error = ZeroDuration | LastSlotLock

definition get_last_slot :: "last_slot \<Rightarrow> (slot_error, slot) result" where
  "get_last_slot l = (if last_slot_poisoned l then Err LastSlotLock else Ok (last_slot_value l))"

definition set_last_slot :: "slot \<Rightarrow> last_slot \<Rightarrow> (slot_error, unit) result \<times> last_slot" where
  "set_last_slot s l = (if last_slot_poisoned l then (Err LastSlotLock, l) else (Ok (), l\<lparr>last_slot_value := s\<rparr>))"

definition yield_next_slot ::
  "duration \<Rightarrow> duration \<Rightarrow> 'ph \<Rightarrow> 'ph option \<Rightarrow> 'ph option \<Rightarrow> last_slot
   \<Rightarrow> ((slot_error, 'ph slot_info option) result \<times> last_slot) option" where
  "yield_next_slot ts d integritee_header target_a target_b l =
     (if d = 0 then Some (Err ZeroDuration, l)
      else case get_last_slot l of
             Err e \<Rightarrow> Some (Err e, l)
           | Ok prev \<Rightarrow>
               (case slot_from_timestamp_and_duration ts d of
                  None \<Rightarrow> None
                | Some s \<Rightarrow>
                    if s \<le> prev then Some (Ok None, l)
                    else (case set_last_slot s l of
                            (Err e, l') \<Rightarrow> Some (Err e, l')
                          | (Ok _, l') \<Rightarrow>
                              Some (Ok (Some \<lparr>info_slot = s, info_timestamp = ts, info_duration = d, info_ends_at = slot_ends_at s d,
                                last_imported_integritee_parentchain_head = integritee_header,
                                last_imported_target_a_parentchain_head = target_a,
                                last_imported_target_b_parentchain_head = target_b\<rparr>), l'))))"

section \<open>Slot worker\<close>

record ('w, 'ph, 'e, 'cl, 's) slot_worker =
  tick :: "'w \<Rightarrow> duration \<times> 'w"
  proposing_remaining :: "'ph slot_info \<Rightarrow> 'w \<Rightarrow> duration \<times> 'w"
  peek_latest_integritee :: "'w \<Rightarrow> (string, 'ph option) result"
  peek_latest_target_a :: "'w \<Rightarrow> (string, 'ph option) result"
  peek_latest_target_b :: "'w \<Rightarrow> (string, 'ph option) result"
  epoch_data :: "'ph \<Rightarrow> shard_identifier \<Rightarrow> slot \<Rightarrow> 'w \<Rightarrow> (string, 'e) result"
  claim_slot :: "'ph \<Rightarrow> slot \<Rightarrow> 'e \<Rightarrow> 'cl option"
  import_integritee_until :: "'ph \<Rightarrow> 'w \<Rightarrow> (string, 'ph option) result \<times> 'w"
  import_target_a_until :: "'ph \<Rightarrow> 'w \<Rightarrow> (string, 'ph option) result \<times> 'w"
  import_target_b_until :: "'ph \<Rightarrow> 'w \<Rightarrow> (string, 'ph option) result \<times> 'w"
  propose :: "'ph \<Rightarrow> shard_identifier \<Rightarrow> duration \<Rightarrow> 'w \<Rightarrow> (string, 's signed_block \<times> parentchain_call list) result \<times> 'w"

type_synonym 's slot_result = "'s signed_block \<times> parentchain_call list"

definition latest_target_header :: "(string, 'ph option) result \<Rightarrow> 'ph option \<Rightarrow> 'ph option" where
  "latest_target_header peeked imported =
     (case peeked of Ok (Some h) \<Rightarrow> Some h | Ok None \<Rightarrow> imported | Err _ \<Rightarrow> None)"

definition import_if_known :: "('ph \<Rightarrow> 'w \<Rightarrow> (string, 'ph option) result \<times> 'w) \<Rightarrow> 'ph option \<Rightarrow> 'w \<Rightarrow> 'w" where
  "import_if_known imp h w = (case h of None \<Rightarrow> w | Some x \<Rightarrow> snd (imp x w))"

definition on_slot ::
  "('w, 'ph, 'e, 'cl, 's) slot_worker \<Rightarrow> 'ph slot_info \<Rightarrow> shard_identifier \<Rightarrow> 'w \<Rightarrow> 's slot_result option \<times> 'w" where
  "on_slot ops info shard w0 =
     (case proposing_remaining ops info w0 of
        (remaining_duration, w) \<Rightarrow>
          if remaining_duration = 0 then (None, w)
          else case peek_latest_integritee ops w of
                 Err _ \<Rightarrow> (None, w)
               | Ok peeked \<Rightarrow>
                   let latest = (case peeked of Some h \<Rightarrow> h | None \<Rightarrow> last_imported_integritee_parentchain_head info);
                       target_a = latest_target_header (peek_latest_target_a ops w) (last_imported_target_a_parentchain_head info);
                       target_b = latest_target_header (peek_latest_target_b ops w) (last_imported_target_b_parentchain_head info)
                   in (case epoch_data ops latest shard (info_slot info) w of
                         Err _ \<Rightarrow> (None, w)
                       | Ok epoch \<Rightarrow>
                           (case claim_slot ops latest (info_slot info) epoch of
                              None \<Rightarrow> (None, w)
                            | Some _ \<Rightarrow>
                                let w1 = snd (import_integritee_until ops latest w);
                                    w2 = import_if_known (import_target_a_until ops) target_a w1;
                                    w3 = import_if_known (import_target_b_until ops) target_b w2
                                in (case propose ops latest shard remaining_duration w3 of
                                      (Err _, w4) \<Rightarrow> (None, w4)
                                    | (Ok proposing, w4) \<Rightarrow>
                                        if \<not> timestamp_within_slot info (fst proposing) then (None, w4)
                                        else (Some proposing, w4)))))"

section \<open>Sharing a slot among shards\<close>

definition shard_remaining_duration :: "duration \<Rightarrow> duration \<Rightarrow> nat \<Rightarrow> duration" where
  "shard_remaining_duration now ends_at remaining_shards =
     (if ends_at < now \<or> unat (of_nat remaining_shards :: u32) = 0 then 0
      else (ends_at - now) div unat (of_nat remaining_shards :: u32))"

fun on_slot_shards ::
  "('w, 'ph, 'e, 'cl, 's) slot_worker \<Rightarrow> 'ph slot_info \<Rightarrow> nat \<Rightarrow> shard_identifier list \<Rightarrow> 'w \<Rightarrow> 's slot_result list \<times> 'w" where
  "on_slot_shards ops info remaining_shards [] w = ([], w)"
| "on_slot_shards ops info remaining_shards (shard # shards) w =
     (case tick ops w of
        (now, w1) \<Rightarrow>
          let share = shard_remaining_duration now (info_ends_at info) remaining_shards
          in if as_millis share = 0 then ([], w1)
             else case on_slot ops (info\<lparr>info_timestamp := now, info_duration := share, info_ends_at := now + share\<rparr>) shard w1 of
                    (res, w2) \<Rightarrow>
                      (case on_slot_shards ops info (remaining_shards - 1) shards w2 of
                         (results, w3) \<Rightarrow> (case res of Some r \<Rightarrow> r # results | None \<Rightarrow> results, w3)))"

definition per_shard_on_slot ::
  "('w, 'ph, 'e, 'cl, 's) slot_worker \<Rightarrow> 'ph slot_info \<Rightarrow> shard_identifier list \<Rightarrow> 'w \<Rightarrow> 's slot_result list \<times> 'w" where
  "per_shard_on_slot ops info shards w = on_slot_shards ops info (length shards) shards w"

section \<open>The schedule\<close>

lemma slot_bounds:
  assumes "0 < as_millis d" "as_millis ts + as_millis d < 2 ^ 64" "slot_from_timestamp_and_duration ts d = Some s"
  shows "unat s = as_millis ts div as_millis d"
    and "as_millis (slot_ends_at s d) = (as_millis ts div as_millis d + 1) * as_millis d"
proof -
  let ?q = "as_millis ts div as_millis d"
  have le: "?q * as_millis d \<le> as_millis ts" by (rule div_times_less_eq_dividend)
  have q: "?q \<le> as_millis ts" by simp
  show s: "unat s = ?q"
  proof -
    have "?q < 2 ^ 64" using q assms(2) by linarith
    then show ?thesis using assms(1,3) by (auto simp: slot_from_timestamp_and_duration_def intro: unat_of_nat_u64)
  qed
  have small: "Suc ?q * as_millis d < 2 ^ 64" unfolding mult_Suc using le assms(2) by linarith
  have one: "Suc ?q < 2 ^ 64" using q assms(1,2) by linarith
  then have "unat (saturating_add s 1) = Suc ?q"
    using s by (simp add: unat_saturating_add)
  moreover have "unat (of_nat (as_millis d) :: u64) = as_millis d"
    using assms(2) by (intro unat_of_nat_u64) simp
  ultimately have "unat (saturating_add s 1 * of_nat (as_millis d)) = Suc ?q * as_millis d"
    using small by (simp add: unat_word_ariths)
  then show "as_millis (slot_ends_at s d) = (?q + 1) * as_millis d"
    by (simp add: slot_ends_at_def)
qed

fun yield_slots :: "(duration \<times> 'ph) list \<Rightarrow> duration \<Rightarrow> last_slot \<Rightarrow> 'ph slot_info list" where
  "yield_slots [] d l = []"
| "yield_slots ((ts, h) # tss) d l =
     (case yield_next_slot ts d h None None l of
        Some (Ok (Some info), l') \<Rightarrow> info # yield_slots tss d l'
      | Some (_, l') \<Rightarrow> yield_slots tss d l'
      | None \<Rightarrow> [])"

lemma yield_next_slot_cases:
  assumes "yield_next_slot ts d h a b l = Some (r, l')" "\<not> last_slot_poisoned l"
  shows "(\<exists>s. r = Ok (Some \<lparr>info_slot = s, info_timestamp = ts, info_duration = d, info_ends_at = slot_ends_at s d,
        last_imported_integritee_parentchain_head = h, last_imported_target_a_parentchain_head = a,
        last_imported_target_b_parentchain_head = b\<rparr>)
      \<and> l' = l\<lparr>last_slot_value := s\<rparr> \<and> last_slot_value l < s \<and> slot_from_timestamp_and_duration ts d = Some s)
    \<or> (\<forall>info. r \<noteq> Ok (Some info)) \<and> l' = l"
  using assms
  by (auto simp: yield_next_slot_def get_last_slot_def set_last_slot_def split: if_splits option.splits)

lemma yield_slots_sorted:
  assumes "\<not> last_slot_poisoned l"
  shows "sorted_wrt (<) (map info_slot (yield_slots tss d l)) \<and> (\<forall>i\<in>set (yield_slots tss d l). last_slot_value l < info_slot i)"
  using assms
proof (induction tss arbitrary: l)
  case (Cons t tss)
  obtain ts h where t: "t = (ts, h)" by fastforce
  show ?case
  proof (cases "yield_next_slot ts d h None None l")
    case (Some rl)
    obtain r l' where rl: "rl = (r, l')" by fastforce
    from yield_next_slot_cases [OF Some [unfolded rl] Cons.prems] show ?thesis
    proof (elim disjE exE conjE)
      fix s assume y: "r = Ok (Some \<lparr>info_slot = s, info_timestamp = ts, info_duration = d, info_ends_at = slot_ends_at s d,
          last_imported_integritee_parentchain_head = h, last_imported_target_a_parentchain_head = None,
          last_imported_target_b_parentchain_head = None\<rparr>)" "l' = l\<lparr>last_slot_value := s\<rparr>" "last_slot_value l < s"
      then have "\<not> last_slot_poisoned l'" using Cons.prems by simp
      from Cons.IH [OF this] y Some show ?thesis by (auto simp: t rl)
    next
      assume "\<forall>info. r \<noteq> Ok (Some info)" "l' = l"
      then show ?thesis
        using Cons.IH [OF Cons.prems] Some by (auto simp: t rl split: result.split option.split)
    qed
  qed (simp add: t)
qed simp

text \<open>C22: However often and at whatever times the next slot is asked for, each slot is yielded at most once and
  the slots yielded strictly increase.\<close>
theorem slots_yielded_once:
  assumes "\<not> last_slot_poisoned l"
  shows "sorted_wrt (<) (map info_slot (yield_slots tss d l))"
  using yield_slots_sorted [OF assms] by blast

theorem slots_yielded_once_witness:
  "sorted_wrt (<) (map info_slot (yield_slots [(1500000000, ()), (1900000000, ()), (1200000000, ()), (2100000000, ())] 1000000000
     \<lparr>last_slot_value = 0, last_slot_poisoned = False\<rparr>))"
  by (rule slots_yielded_once) simp

text \<open>C23: A yielded slot contains its timestamp: the slot ends after the timestamp, by at most one slot duration,
  at the first multiple of the slot duration after it, as long as the time in milliseconds does not
  leave the range of an unsigned 64 bit integer. The waiting time until the next slot ends at that
  same point.\<close>
theorem yielded_slot_bounds:
  assumes "yield_next_slot ts d h a b l = Some (Ok (Some info), l')" "\<not> last_slot_poisoned l"
    and "0 < as_millis d" "as_millis ts + as_millis d < 2 ^ 64"
  shows "as_millis ts < as_millis (info_ends_at info) \<and> as_millis (info_ends_at info) \<le> as_millis ts + as_millis d
    \<and> as_millis (info_ends_at info) = (unat (info_slot info) + 1) * as_millis d
    \<and> as_millis ts + as_millis (time_until_next_slot ts d) = as_millis (info_ends_at info)"
proof -
  have i: "info_ends_at info = slot_ends_at (info_slot info) d"
    "slot_from_timestamp_and_duration ts d = Some (info_slot info)"
    using yield_next_slot_cases [OF assms(1,2)] by auto
  let ?q = "as_millis ts div as_millis d"
  note b = slot_bounds [OF assms(3,4) i(2)]
  have lt: "as_millis ts < Suc ?q * as_millis d" "Suc ?q * as_millis d \<le> as_millis ts + as_millis d"
    using dividend_less_div_times [OF assms(3), of "as_millis ts"] div_times_less_eq_dividend [of "as_millis ts" "as_millis d"]
    by simp_all
  have next_eq: "(as_millis ts + as_millis d) div as_millis d = Suc ?q" using assms(3) by (simp add: div_add_self2)
  have "unat (of_nat (Suc ?q * as_millis d - as_millis ts) :: u64) = Suc ?q * as_millis d - as_millis ts"
    by (rule unat_of_nat_u64) (use assms(4) lt in linarith)
  then have "as_millis (time_until_next_slot ts d) = Suc ?q * as_millis d - as_millis ts"
    using assms(3) unfolding time_until_next_slot_def Let_def next_eq by (simp del: mult_Suc of_nat_diff)
  with i b lt show ?thesis by (simp del: mult_Suc)
qed

theorem yielded_slot_bounds_witness:
  "\<exists>info l'. yield_next_slot 1500000000 1000000000 () None None \<lparr>last_slot_value = 0, last_slot_poisoned = False\<rparr> = Some (Ok (Some info), l')
    \<and> as_millis 1500000000 < as_millis (info_ends_at info) \<and> as_millis (info_ends_at info) \<le> 2500"
proof -
  let ?l = "\<lparr>last_slot_value = 0, last_slot_poisoned = False\<rparr>"
  obtain info l' where y: "yield_next_slot 1500000000 1000000000 () None None ?l = Some (Ok (Some info), l')"
    by (simp add: yield_next_slot_def get_last_slot_def set_last_slot_def slot_from_timestamp_and_duration_def as_millis_def)
  from yielded_slot_bounds [OF this] y show ?thesis by (auto simp: as_millis_def)
qed

text \<open>The check that a proposal was made within its slot includes the end of the slot, but the slot the
  verifier computes for a timestamp at the end is the next one, which belongs to another author: a block
  stamped exactly at the end of its slot passes the check of its author and is rejected by every peer.\<close>
theorem slot_end_belongs_to_next:
  assumes "yield_next_slot ts d h a b l = Some (Ok (Some info), l')" "\<not> last_slot_poisoned l"
    and "0 < as_millis d" "as_millis ts + as_millis d < 2 ^ 64"
    and "unat (block_timestamp (data (block sb))) = as_millis (info_ends_at info)"
    and "distinct authorities" "1 < length authorities" "length authorities < 2 ^ 64"
  shows "timestamp_within_slot info sb
    \<and> slot_from_timestamp_and_duration (from_millis (unat (block_timestamp (data (block sb))))) d = Some (info_slot info + 1)
    \<and> slot_author (info_slot info + 1) authorities \<noteq> slot_author (info_slot info) authorities"
proof -
  have i: "info_timestamp info = ts" "info_ends_at info = slot_ends_at (info_slot info) d"
    "slot_from_timestamp_and_duration ts d = Some (info_slot info)"
    using yield_next_slot_cases [OF assms(1,2)] by auto
  let ?q = "as_millis ts div as_millis d"
  let ?t = "block_timestamp (data (block sb))"
  note b = slot_bounds [OF assms(3,4) i(3)]
  have t: "unat ?t = Suc ?q * as_millis d" using assms(5) i b by simp
  have lt: "as_millis ts < Suc ?q * as_millis d" using dividend_less_div_times [OF assms(3), of "as_millis ts"] by simp
  have "unat (of_nat (as_millis ts) :: u64) = as_millis ts" using assms(4) by (intro unat_of_nat_u64) simp
  moreover have "of_nat (as_millis (info_ends_at info)) = ?t" using assms(5) by (metis of_nat_unat_eq)
  ultimately have within: "timestamp_within_slot info sb"
    using i t lt by (simp add: timestamp_within_slot_def word_le_nat_alt del: mult_Suc)
  have "of_nat (Suc ?q) = info_slot info + 1"
    using b(1) by (metis Suc_eq_plus1 of_nat_1 of_nat_add of_nat_unat_eq)
  then have slot: "slot_from_timestamp_and_duration (from_millis (unat ?t)) d = Some (info_slot info + 1)"
    using assms(3) t by (simp add: slot_from_timestamp_and_duration_def del: mult_Suc of_nat_Suc)
  have q1: "Suc ?q < 2 ^ 64"
    using assms(3,4) div_le_dividend [of "as_millis ts" "as_millis d"] by linarith
  then have "unat (info_slot info + 1) = Suc ?q" using b(1) by (simp add: unat_plus_one_u64)
  have "Suc ?q mod length authorities \<noteq> ?q mod length authorities"
    using assms(7) by (simp add: mod_Suc)
  then have "slot_author (info_slot info + 1) authorities \<noteq> slot_author (info_slot info) authorities"
  proof -
    have "slot_author x authorities = Some (Some (authorities ! (unat x mod length authorities)))" for x
      using assms(7,8) by (intro slot_author_nth) auto
    moreover have "i mod length authorities < length authorities" for i
      by (rule mod_less_divisor) (use assms(7) in linarith)
    then have "authorities ! (Suc ?q mod length authorities) \<noteq> authorities ! (?q mod length authorities)"
      using \<open>Suc ?q mod length authorities \<noteq> ?q mod length authorities\<close> assms(6) nth_eq_iff_index_eq by blast
    ultimately show ?thesis using \<open>unat (info_slot info + 1) = Suc ?q\<close> b(1) by simp
  qed
  with within slot show ?thesis by blast
qed

section \<open>Every shard gets its share\<close>

text \<open>A worker is punctual up to a time if it delivers a block in every share that ends by then, and the clock
  read after it has not passed the end of the share.\<close>

definition punctual :: "('w, 'ph, 'e, 'cl, 's) slot_worker \<Rightarrow> duration \<Rightarrow> bool" where
  "punctual ops limit \<longleftrightarrow>
     (\<forall>info s w0 w. info_ends_at info \<le> limit \<longrightarrow> tick ops w0 = (info_timestamp info, w) \<longrightarrow> info_ends_at info = info_timestamp info + info_duration info
        \<longrightarrow> 0 < as_millis (info_duration info)
        \<longrightarrow> (\<exists>r w'. on_slot ops info s w = (Some r, w') \<and> fst (tick ops w') \<le> info_ends_at info))"

lemma on_slot_shards_all:
  assumes "punctual ops (info_ends_at info)" "length shards < 2 ^ 32" "fst (tick ops w) + length shards * 1000000 \<le> info_ends_at info"
  shows "length (fst (on_slot_shards ops info (length shards) shards w)) = length shards"
  using assms(2,3)
proof (induction shards arbitrary: w)
  case (Cons s shards)
  let ?n = "Suc (length shards)"
  obtain now w1 where t: "tick ops w = (now, w1)" by fastforce
  define left where "left = info_ends_at info - now"
  have n: "unat (of_nat ?n :: u32) = ?n"
    using Cons.prems(1) by (simp add: unsigned_of_nat take_bit_nat_eq_self del: of_nat_Suc)
  have le: "now + ?n * 1000000 \<le> info_ends_at info" using Cons.prems(2) t by simp
  then have share: "shard_remaining_duration now (info_ends_at info) ?n = left div ?n"
    using n by (simp add: shard_remaining_duration_def left_def del: of_nat_Suc)
  have "1000000 \<le> left div ?n"
    using le by (simp add: left_def less_eq_div_iff_mult_less_eq mult.commute del: mult_Suc)
  then have pos: "0 < as_millis (left div ?n)" by (simp add: as_millis_def div_greater_zero_iff)
  let ?info = "info\<lparr>info_timestamp := now, info_duration := left div ?n, info_ends_at := now + left div ?n\<rparr>"
  have "now + left div ?n \<le> info_ends_at info"
    using le div_le_dividend [of left ?n] unfolding left_def by linarith
  then obtain r w2 where w2: "on_slot ops ?info s w1 = (Some r, w2)" "fst (tick ops w2) \<le> now + left div ?n"
    using assms(1) [unfolded punctual_def, rule_format, of ?info w w1 s] t pos by auto
  have "left div ?n + length shards * 1000000 \<le> left"
  proof -
    have "left div ?n * ?n \<le> left" by (rule div_times_less_eq_dividend)
    moreover have "length shards * 1000000 \<le> length shards * (left div ?n)"
      by (rule mult_le_mono2) (rule \<open>1000000 \<le> left div ?n\<close>)
    ultimately show ?thesis unfolding mult_Suc_right mult.commute [of "left div ?n"] by linarith
  qed
  then have "fst (tick ops w2) + length shards * 1000000 \<le> info_ends_at info"
    using w2(2) le by (simp add: left_def)
  with Cons.IH [of w2] Cons.prems(1) have "length (fst (on_slot_shards ops info (length shards) shards w2)) = length shards"
    by simp
  then show ?case using t share pos w2(1) by (simp add: Let_def case_prod_beta)
qed simp


definition instant_worker :: "(nat, unit, unit, unit, unit) slot_worker" where
  "instant_worker =
     \<lparr>tick = \<lambda>w. (w, w), proposing_remaining = \<lambda>info w. (info_duration info, w), peek_latest_integritee = \<lambda>w. Ok None,
      peek_latest_target_a = \<lambda>w. Ok None, peek_latest_target_b = \<lambda>w. Ok None, epoch_data = \<lambda>_ _ _ _. Ok (),
      claim_slot = \<lambda>_ _ _. Some (), import_integritee_until = \<lambda>_ w. (Ok None, w), import_target_a_until = \<lambda>_ w. (Ok None, w),
      import_target_b_until = \<lambda>_ w. (Ok None, w),
      propose = \<lambda>_ s _ w. (Ok (\<lparr>block = \<lparr>header = new_header 1 0 s 0 0, data = new_block_data 0 0 [] [] (of_nat (as_millis w))\<rparr>, signature = ()\<rparr>, []), w)\<rparr>"

lemma instant_worker_punctual: "limit < 2 ^ 64 \<Longrightarrow> punctual instant_worker limit"
proof -
  assume limit: "limit < 2 ^ 64"
  have mono: "(of_nat (as_millis t) :: u64) \<le> of_nat (as_millis u)" if "t \<le> u" "u \<le> limit" for t u
  proof -
    have "as_millis u \<le> limit" "as_millis t \<le> as_millis u"
      using that by (auto simp: as_millis_def intro: div_le_mono div_le_dividend le_trans)
    with limit show ?thesis by (simp add: word_le_nat_alt unat_of_nat_u64)
  qed
  have pos: "0 < as_millis t \<Longrightarrow> 0 < t" for t by (rule ccontr) (simp add: as_millis_def)
  show ?thesis
    unfolding punctual_def
    by (auto simp: instant_worker_def on_slot_def timestamp_within_slot_def Let_def import_if_known_def new_block_data_def
        split: option.split intro: mono pos)
qed


theorem slot_end_belongs_to_next_witness:
  "\<exists>info l'. yield_next_slot 1500000000 1000000000 () None None \<lparr>last_slot_value = 0, last_slot_poisoned = False\<rparr> = Some (Ok (Some info), l')
    \<and> timestamp_within_slot info \<lparr>block = \<lparr>header = new_header 1 0 7 0 0, data = new_block_data 0 0 [] [] 2000\<rparr>, signature = ()\<rparr>
    \<and> slot_author (info_slot info + 1) [10, 11::public] \<noteq> slot_author (info_slot info) [10, 11]"
proof -
  let ?l = "\<lparr>last_slot_value = 0, last_slot_poisoned = False\<rparr>"
  let ?sb = "\<lparr>block = \<lparr>header = new_header 1 0 7 0 0, data = new_block_data 0 0 [] [] 2000\<rparr>, signature = ()\<rparr>"
  obtain info l' where y: "yield_next_slot 1500000000 1000000000 () None None ?l = Some (Ok (Some info), l')"
    and e: "as_millis (info_ends_at info) = 2000"
    by (simp add: yield_next_slot_def get_last_slot_def set_last_slot_def slot_from_timestamp_and_duration_def as_millis_def
        slot_ends_at_def from_millis_def saturating_add_def)
  from slot_end_belongs_to_next [OF y, of ?sb "[10, 11::public]"] e y show ?thesis
    by (auto simp: as_millis_def [of 1000000000] as_millis_def [of 1500000000] new_block_data_def)
qed

end
