(* ===== verification/Stf_Executor.thy ===== *)
theory Stf_Executor
  imports Stf_Primitives State_Handler Block_Verification
begin

text \<open>
  The state transition executor (core-primitives/stf-executor): execution of trusted calls on a copy of the
  state for a block proposal, updates of the states with parentchain data, and the execution of getters.
  The state transition function and the host calls are parameters (\<open>stf_env\<close>). The clock is a sequence of
  readings: reading \<open>0\<close> is taken at the start of a proposal, reading \<open>i + 1\<close> before the call at position \<open>i\<close>.
\<close>

section \<open>Execution results\<close>

datatype execution_status = Success h256 "parentchain_call list" | Failure

record ('t, 'g) executed_operation =
  status :: execution_status
  trusted_operation_or_hash :: "('t, 'g) trusted_operation_or_hash"

record ('t, 'g) batch_execution_result =
  state_hash_before_execution :: h256
  executed_operations :: "('t, 'g) executed_operation list"
  state_after_execution :: sgx_externalities

fun get_extrinsic_callbacks_of :: "execution_status \<Rightarrow> parentchain_call list" where
  "get_extrinsic_callbacks_of (Success _ cs) = cs"
| "get_extrinsic_callbacks_of Failure = []"

fun get_executed_operation_hash :: "execution_status \<Rightarrow> h256 option" where
  "get_executed_operation_hash (Success h _) = Some h"
| "get_executed_operation_hash Failure = None"

definition executed_success ::
  "h256 \<Rightarrow> ('t, 'g) trusted_operation_or_hash \<Rightarrow> parentchain_call list \<Rightarrow> ('t, 'g) executed_operation" where
  "executed_success h op callbacks = \<lparr>status = Success h callbacks, trusted_operation_or_hash = op\<rparr>"

definition executed_failed :: "('t, 'g) trusted_operation_or_hash \<Rightarrow> ('t, 'g) executed_operation" where
  "executed_failed op = \<lparr>status = Failure, trusted_operation_or_hash = op\<rparr>"

definition is_success :: "('t, 'g) executed_operation \<Rightarrow> bool" where
  "is_success e = (case status e of Success _ _ \<Rightarrow> True | Failure \<Rightarrow> False)"

definition get_extrinsic_callbacks :: "('t, 'g) batch_execution_result \<Rightarrow> parentchain_call list" where
  "get_extrinsic_callbacks r = concat (map (\<lambda>e. get_extrinsic_callbacks_of (status e)) (executed_operations r))"

definition get_executed_operation_hashes :: "('t, 'g) batch_execution_result \<Rightarrow> h256 list" where
  "get_executed_operation_hashes r = List.map_filter (\<lambda>e. get_executed_operation_hash (status e)) (executed_operations r)"

definition get_failed_operations :: "('t, 'g) batch_execution_result \<Rightarrow> ('t, 'g) executed_operation list" where
  "get_failed_operations r = filter (\<lambda>e. \<not> is_success e) (executed_operations r)"

section \<open>Executing calls\<close>

datatype executor_error =
    GetterIsNotAuthorized
  | ExecStateHandler handler_error
  | ExecStateObserver observer_error
  | ExecOcall string
  | ExecDecode

record ('t, 'g, 'ph) stf_env =
  calls :: "('t, 'g) call_env"
  get_mrenclave_of_self :: "(string, bytes) result"
  execute_call :: "'t \<Rightarrow> sgx_externalities \<Rightarrow> (string, unit) result \<times> sgx_externalities \<times> parentchain_call list"
  storage_hashes_to_update_on_block :: "parentchain_id \<Rightarrow> bytes list"
  get_multiple_storages_verified :: "bytes list \<Rightarrow> 'ph \<Rightarrow> parentchain_id \<Rightarrow> (string, (bytes \<times> bytes option) list) result"
  update_parentchain_integritee_block :: "'ph \<Rightarrow> sgx_externalities \<Rightarrow> (string, unit) result \<times> sgx_externalities"
  apply_state_diff :: "(bytes, bytes option) btree_map \<Rightarrow> sgx_externalities \<Rightarrow> sgx_externalities"
  decode_shards :: "bytes \<Rightarrow> shard_identifier list option"

datatype state_post_processing = NoPostProcessing | Prune

definition execute_trusted_call_on_stf ::
  "('t, 'g, 'ph) stf_env \<Rightarrow> ('t, 'g) trusted_operation \<Rightarrow> shard_identifier \<Rightarrow> state_post_processing \<Rightarrow> sgx_externalities
   \<Rightarrow> (executor_error, ('t, 'g) executed_operation) result \<times> sgx_externalities" where
  "execute_trusted_call_on_stf env op shard post_processing e =
     (case get_mrenclave_of_self env of
        Err x \<Rightarrow> (Err (ExecOcall x), e)
      | Ok mrenclave \<Rightarrow>
          (case to_call op of
             None \<Rightarrow> (Ok (executed_failed (from_top op)), e)
           | Some c \<Rightarrow>
               if \<not> call_verify_signature (calls env) c mrenclave shard then (Ok (executed_failed (from_top op)), e)
               else (case execute_call env c e of
                       (Err _, e', _) \<Rightarrow> (Ok (executed_failed (from_top op)), e')
                     | (Ok _, e', callbacks) \<Rightarrow>
                         (Ok (executed_success (top_hash (calls env) op) (from_top op) callbacks),
                          if post_processing = Prune then prune_state_diff e' else e'))))"

fun execute_until ::
  "('t, 'g, 'ph) stf_env \<Rightarrow> (nat \<Rightarrow> duration) \<Rightarrow> duration \<Rightarrow> shard_identifier \<Rightarrow> nat \<Rightarrow> ('t, 'g) trusted_operation list
   \<Rightarrow> sgx_externalities \<Rightarrow> ('t, 'g) executed_operation list \<times> sgx_externalities" where
  "execute_until env clock ends_at shard i [] e = ([], e)"
| "execute_until env clock ends_at shard i (op # ops) e =
     (if ends_at < clock (Suc i) then ([], e)
      else case execute_trusted_call_on_stf env op shard NoPostProcessing e of
             (r, e') \<Rightarrow>
               (case execute_until env clock ends_at shard (Suc i) ops e' of
                  (finished, e'') \<Rightarrow> (case r of Ok x \<Rightarrow> x # finished | Err _ \<Rightarrow> finished, e'')))"

definition propose_state_update ::
  "('t, 'g, 'ph) stf_env \<Rightarrow> (nat \<Rightarrow> duration) \<Rightarrow> ('t, 'g) trusted_operation list \<Rightarrow> shard_identifier \<Rightarrow> duration
   \<Rightarrow> (sgx_externalities \<Rightarrow> sgx_externalities) \<Rightarrow> 'io state_handler
   \<Rightarrow> (executor_error, ('t, 'g) batch_execution_result) result" where
  "propose_state_update env clock trusted_calls shard max_exec_duration prepare_state_function h =
     (let ends_at = clock 0 + max_exec_duration
      in case load_cloned shard h of
           Err x \<Rightarrow> Err (ExecStateHandler x)
         | Ok (e, before) \<Rightarrow>
             (case execute_until env clock ends_at shard 0 trusted_calls (prepare_state_function e) of
                (finished, e') \<Rightarrow> Ok \<lparr>state_hash_before_execution = before, executed_operations = finished, state_after_execution = e'\<rparr>))"

section \<open>Updates from the parentchain\<close>

text \<open>\<open>stamp\<close> is the snapshot identifier of each write, the time in nanoseconds at which it happens.\<close>

fun update_each_shard ::
  "('t, 'g, 'ph) stf_env \<Rightarrow> ('io, sgx_externalities, h256) file_io_ops \<Rightarrow> ((bytes, bytes) btree_map \<Rightarrow> h256) \<Rightarrow> (nat \<Rightarrow> state_id)
   \<Rightarrow> 'ph \<Rightarrow> nat \<Rightarrow> shard_identifier list \<Rightarrow> 'io state_handler \<Rightarrow> (executor_error, unit) result \<times> nat \<times> 'io state_handler" where
  "update_each_shard env ops hash stamp pch i [] h = (Ok (), i, h)"
| "update_each_shard env ops hash stamp pch i (s # ss) h =
     (case load_for_mutation s h of
        Err x \<Rightarrow> (Err (ExecStateHandler x), i, h)
      | Ok e \<Rightarrow>
          (case update_parentchain_integritee_block env pch e of
             (Err _, _) \<Rightarrow> update_each_shard env ops hash stamp pch i ss h
           | (Ok _, e') \<Rightarrow>
               (case write_after_mutation ops hash (stamp i) e' s h of
                  (Err x, h') \<Rightarrow> (Err (ExecStateHandler x), Suc i, h')
                | (Ok _, h') \<Rightarrow> update_each_shard env ops hash stamp pch (Suc i) ss h')))"

definition into_map :: "(bytes \<times> bytes option) list \<Rightarrow> (bytes, bytes option) btree_map" where
  "into_map entries = fold (\<lambda>(k, v) m. bt_insert k v m) entries []"

definition storage_hashes_to_update_per_shard :: "shard_identifier \<Rightarrow> bytes list" where
  "storage_hashes_to_update_per_shard shard = []"

definition shards_key_hash :: bytes where
  "shards_key_hash = []"

fun initialize_shards ::
  "('t, 'g, 'ph) stf_env \<Rightarrow> ('io, sgx_externalities, h256) file_io_ops \<Rightarrow> ((bytes, bytes) btree_map \<Rightarrow> h256) \<Rightarrow> (nat \<Rightarrow> state_id)
   \<Rightarrow> 'ph \<Rightarrow> (bytes, bytes option) btree_map \<Rightarrow> nat \<Rightarrow> shard_identifier list \<Rightarrow> 'io state_handler
   \<Rightarrow> (executor_error, unit) result \<times> 'io state_handler" where
  "initialize_shards env ops hash stamp pch diff i [] h = (Ok (), h)"
| "initialize_shards env ops hash stamp pch diff i (s # ss) h =
     (case load_for_mutation s h of
        Err x \<Rightarrow> (Err (ExecStateHandler x), h)
      | Ok e \<Rightarrow>
          (case get_multiple_storages_verified env (storage_hashes_to_update_per_shard s) pch IntegriteeId of
             Err x \<Rightarrow> (Err (ExecOcall x), h)
           | Ok entries \<Rightarrow>
               let e1 = apply_state_diff env diff (apply_state_diff env (into_map entries) e);
                   e2 = snd (update_parentchain_integritee_block env pch e1)
               in (case write_after_mutation ops hash (stamp i) e2 s h of
                     (Err x, h') \<Rightarrow> (Err (ExecStateHandler x), h')
                   | (Ok _, h') \<Rightarrow> initialize_shards env ops hash stamp pch diff (Suc i) ss h')))"

definition initialize_new_shards ::
  "('t, 'g, 'ph) stf_env \<Rightarrow> ('io, sgx_externalities, h256) file_io_ops \<Rightarrow> ((bytes, bytes) btree_map \<Rightarrow> h256) \<Rightarrow> (nat \<Rightarrow> state_id)
   \<Rightarrow> 'ph \<Rightarrow> (bytes, bytes option) btree_map \<Rightarrow> nat \<Rightarrow> bytes \<Rightarrow> 'io state_handler
   \<Rightarrow> (executor_error, unit) result \<times> 'io state_handler" where
  "initialize_new_shards env ops hash stamp pch diff i encoded h =
     (case decode_shards env encoded of
        None \<Rightarrow> (Err ExecDecode, h)
      | Some ss \<Rightarrow> initialize_shards env ops hash stamp pch diff i ss h)"

definition update_states ::
  "('t, 'g, 'ph) stf_env \<Rightarrow> ('io, sgx_externalities, h256) file_io_ops \<Rightarrow> ((bytes, bytes) btree_map \<Rightarrow> h256) \<Rightarrow> (nat \<Rightarrow> state_id)
   \<Rightarrow> 'ph \<Rightarrow> parentchain_id \<Rightarrow> 'io state_handler \<Rightarrow> (executor_error, unit) result \<times> 'io state_handler" where
  "update_states env ops hash stamp pch pid h =
     (case get_multiple_storages_verified env (storage_hashes_to_update_on_block env pid) pch pid of
        Err x \<Rightarrow> (Err (ExecOcall x), h)
      | Ok entries \<Rightarrow>
          (let diff = into_map entries
           in case handler_list_shards h of
                Err x \<Rightarrow> (Err (ExecStateHandler x), h)
              | Ok shards \<Rightarrow>
                  (case update_each_shard env ops hash stamp pch 0 shards h of
                     (Err x, _, h') \<Rightarrow> (Err x, h')
                   | (Ok _, i, h') \<Rightarrow>
                       if pid \<noteq> IntegriteeId then (Ok (), h')
                       else (case bt_get diff shards_key_hash of
                               Some (Some encoded) \<Rightarrow> initialize_new_shards env ops hash stamp pch diff i encoded h'
                             | _ \<Rightarrow> (Ok (), h')))))"

section \<open>Getters\<close>

definition get_state :: "('g \<Rightarrow> bool) \<Rightarrow> ('g \<Rightarrow> 'st \<Rightarrow> bytes option \<times> 'st) \<Rightarrow> 'g \<Rightarrow> 'st \<Rightarrow> (executor_error, bytes option) result \<times> 'st" where
  "get_state is_authorized execute getter st =
     (if \<not> is_authorized getter then (Err GetterIsNotAuthorized, st)
      else case execute getter st of (v, st') \<Rightarrow> (Ok v, st'))"

definition execute_getter ::
  "(bytes \<Rightarrow> 'g option) \<Rightarrow> ('g \<Rightarrow> bool) \<Rightarrow> ('g \<Rightarrow> 'st \<Rightarrow> bytes option \<times> 'st) \<Rightarrow> shard_identifier \<Rightarrow> bytes \<Rightarrow> 'st state_observer
   \<Rightarrow> (executor_error, bytes option) result \<times> 'st state_observer" where
  "execute_getter decode is_authorized execute shard encoded ob =
     (case decode encoded of
        None \<Rightarrow> (Err ExecDecode, ob)
      | Some getter \<Rightarrow>
          (case observe_state shard (get_state is_authorized execute getter) ob of
             (Err x, ob') \<Rightarrow> (Err (ExecStateObserver x), ob')
           | (Ok r, ob') \<Rightarrow> (r, ob')))"

section \<open>What a proposal executes\<close>

definition accepted :: "('t, 'g, 'ph) stf_env \<Rightarrow> bytes \<Rightarrow> shard_identifier \<Rightarrow> ('t, 'g) trusted_operation \<Rightarrow> bool" where
  "accepted env mrenclave shard op =
     (case to_call op of None \<Rightarrow> False | Some c \<Rightarrow> call_verify_signature (calls env) c mrenclave shard)"

definition call_effect :: "('t, 'g, 'ph) stf_env \<Rightarrow> ('t, 'g) trusted_operation \<Rightarrow> sgx_externalities \<Rightarrow> sgx_externalities" where
  "call_effect env op e = (case to_call op of None \<Rightarrow> e | Some c \<Rightarrow> fst (snd (execute_call env c e)))"

lemma execute_call_step:
  assumes "get_mrenclave_of_self env = Ok mr"
  obtains x where "execute_trusted_call_on_stf env op shard NoPostProcessing e
      = (Ok x, if accepted env mr shard op then call_effect env op e else e)"
    "trusted_operation_or_hash x = Operation op"
    "status x = Failure \<or> accepted env mr shard op \<and> (\<exists>cs. status x = Success (top_hash (calls env) op) cs)"
proof -
  let ?r = "execute_trusted_call_on_stf env op shard NoPostProcessing e"
  have "\<exists>x. ?r = (Ok x, if accepted env mr shard op then call_effect env op e else e)
      \<and> trusted_operation_or_hash x = Operation op
      \<and> (status x = Failure \<or> accepted env mr shard op \<and> (\<exists>cs. status x = Success (top_hash (calls env) op) cs))"
    using assms
    by (cases op)
      (auto simp: execute_trusted_call_on_stf_def accepted_def call_effect_def executed_failed_def executed_success_def
        from_top_def split: result.splits prod.splits)
  then show ?thesis using that by blast
qed

lemma execute_until_spec:
  assumes "get_mrenclave_of_self env = Ok mr"
  shows "\<exists>k \<le> length ops. (\<forall>j<k. clock (Suc (i + j)) \<le> ends_at) \<and> (k < length ops \<longrightarrow> ends_at < clock (Suc (i + k)))
    \<and> map trusted_operation_or_hash (fst (execute_until env clock ends_at shard i ops e)) = map Operation (take k ops)
    \<and> snd (execute_until env clock ends_at shard i ops e) = fold (call_effect env) (filter (accepted env mr shard) (take k ops)) e
    \<and> (\<forall>x\<in>set (fst (execute_until env clock ends_at shard i ops e)). \<forall>hs cs. status x = Success hs cs \<longrightarrow>
         (\<exists>op\<in>set (take k ops). accepted env mr shard op \<and> trusted_operation_or_hash x = Operation op \<and> hs = top_hash (calls env) op))"
proof (induction ops arbitrary: i e)
  case (Cons op ops)
  show ?case
  proof (cases "ends_at < clock (Suc i)")
    case True
    then show ?thesis by (intro exI [of _ 0]) simp
  next
    case False
    obtain x where x: "execute_trusted_call_on_stf env op shard NoPostProcessing e
        = (Ok x, if accepted env mr shard op then call_effect env op e else e)"
      "trusted_operation_or_hash x = Operation op"
      "status x = Failure \<or> accepted env mr shard op \<and> (\<exists>cs. status x = Success (top_hash (calls env) op) cs)"
      by (rule execute_call_step [OF assms])
    let ?e = "if accepted env mr shard op then call_effect env op e else e"
    obtain finished e' where r: "execute_until env clock ends_at shard (Suc i) ops ?e = (finished, e')" by fastforce
    from Cons.IH [of "Suc i" ?e] r obtain k where k: "k \<le> length ops" "\<forall>j<k. clock (Suc (Suc i + j)) \<le> ends_at"
      "k < length ops \<longrightarrow> ends_at < clock (Suc (Suc i + k))"
      "map trusted_operation_or_hash finished = map Operation (take k ops)"
      "e' = fold (call_effect env) (filter (accepted env mr shard) (take k ops)) ?e"
      "\<forall>x\<in>set finished. \<forall>hs cs. status x = Success hs cs \<longrightarrow>
         (\<exists>op\<in>set (take k ops). accepted env mr shard op \<and> trusted_operation_or_hash x = Operation op \<and> hs = top_hash (calls env) op)"
      by auto
    have run: "execute_until env clock ends_at shard i (op # ops) e = (x # finished, e')"
      using False x(1) r by simp
    have "\<forall>j<Suc k. clock (Suc (i + j)) \<le> ends_at" using k(2) False by (simp add: All_less_Suc2)
    with run k x show ?thesis by (intro exI [of _ "Suc k"]) auto
  qed
qed simp

text \<open>C19: A proposal executes a prefix of the pending calls, in order, cut off only by the clock: every call of
  the prefix was started within the time granted and the first one left out was not. The state after
  execution is the prepared state on which exactly the correctly signed calls of the prefix were executed:
  getters and calls with a bad signature do not touch it. Each call of the prefix is reported once, as
  executed or as failed, and every reported hash is the hash of a correctly signed call of the prefix.\<close>
theorem propose_state_update_prefix:
  assumes "get_mrenclave_of_self env = Ok mr" "load_cloned shard h = Ok (e, before)"
  shows "\<exists>r. propose_state_update env clock ops shard max_dur prep h = Ok r \<and> state_hash_before_execution r = before
    \<and> (\<exists>k \<le> length ops. (\<forall>j<k. clock (Suc j) \<le> clock 0 + max_dur) \<and> (k < length ops \<longrightarrow> clock 0 + max_dur < clock (Suc k))
       \<and> map trusted_operation_or_hash (executed_operations r) = map Operation (take k ops)
       \<and> state_after_execution r = fold (call_effect env) (filter (accepted env mr shard) (take k ops)) (prep e)
       \<and> length (get_executed_operation_hashes r) + length (get_failed_operations r) = k
       \<and> set (get_executed_operation_hashes r) \<subseteq> top_hash (calls env) ` {op \<in> set (take k ops). accepted env mr shard op})"
proof -
  obtain finished e' where run: "execute_until env clock (clock 0 + max_dur) shard 0 ops (prep e) = (finished, e')" by fastforce
  let ?r = "\<lparr>state_hash_before_execution = before, executed_operations = finished, state_after_execution = e'\<rparr>"
  have count: "length (List.map_filter (\<lambda>e. get_executed_operation_hash (status e)) xs) + length (filter (\<lambda>e. \<not> is_success e) xs) = length xs"
    for xs :: "('a, 'b) executed_operation list"
    by (induction xs) (auto simp: List.map_filter_def is_success_def split: execution_status.split)
  have hashes: "set (get_executed_operation_hashes ?r) = {hs. \<exists>x\<in>set finished. \<exists>cs. status x = Success hs cs}"
    by (force simp: get_executed_operation_hashes_def List.map_filter_def elim: get_executed_operation_hash.elims)
  have "propose_state_update env clock ops shard max_dur prep h = Ok ?r"
    using assms(2) run by (simp add: propose_state_update_def)
  moreover obtain k where k: "k \<le> length ops" "\<forall>j<k. clock (Suc j) \<le> clock 0 + max_dur"
      "k < length ops \<longrightarrow> clock 0 + max_dur < clock (Suc k)"
      "map trusted_operation_or_hash finished = map Operation (take k ops)"
      "e' = fold (call_effect env) (filter (accepted env mr shard) (take k ops)) (prep e)"
      "\<forall>x\<in>set finished. \<forall>hs cs. status x = Success hs cs \<longrightarrow>
         (\<exists>op\<in>set (take k ops). accepted env mr shard op \<and> trusted_operation_or_hash x = Operation op \<and> hs = top_hash (calls env) op)"
    using execute_until_spec [OF assms(1), of ops clock 0 "clock 0 + max_dur" shard "prep e"] run by auto
  moreover have "length finished = k" using arg_cong [OF k(4), of length] k(1) by simp
  then have "length (get_executed_operation_hashes ?r) + length (get_failed_operations ?r) = k"
    using count [of finished] by (simp add: get_executed_operation_hashes_def get_failed_operations_def)
  moreover have "set (get_executed_operation_hashes ?r) \<subseteq> top_hash (calls env) ` {op \<in> set (take k ops). accepted env mr shard op}"
    using k(6) unfolding hashes by fastforce
  ultimately show ?thesis by (intro exI [of _ ?r]) auto
qed

text \<open>Calls are numbers: even ones are correctly signed, those below ten succeed. The clock advances by three
  units per call.\<close>

definition example_call_env :: "(nat, unit) call_env" where
  "example_call_env =
     \<lparr>sender_account = \<lambda>n. of_nat n, call_nonce = \<lambda>n. of_nat n, call_verify_signature = \<lambda>n _ _. even n,
      encode_account_nonce = \<lambda>_. [], top_hash = \<lambda>op. (case op of Get _ \<Rightarrow> 0 | DirectCall n \<Rightarrow> of_nat n | IndirectCall n \<Rightarrow> of_nat n),
      getter_validate = \<lambda>_. Err InvalidTransaction\<rparr>"

definition example_stf_env :: "(nat, unit, nat) stf_env" where
  "example_stf_env =
     \<lparr>calls = example_call_env, get_mrenclave_of_self = Ok [1],
      execute_call = \<lambda>n e. (if n < 10 then Ok () else Err ''failed'', snd (ext_insert [of_nat n] [1] e), []),
      storage_hashes_to_update_on_block = \<lambda>_. [], get_multiple_storages_verified = \<lambda>_ _ _. Ok [],
      update_parentchain_integritee_block = \<lambda>_ e. (Ok (), e), apply_state_diff = \<lambda>_ e. e, decode_shards = \<lambda>_. Some []\<rparr>"

definition memory_handler :: "unit state_handler" where
  "memory_handler =
     \<lparr>repository = \<lparr>file_io = (), cache_size = 1, history = []\<rparr>, repository_poisoned = False,
      states_map = [(2, (ext_new [], 7))], states_poisoned = False, observer = observer_from_map []\<rparr>"

theorem propose_state_update_prefix_witness:
  "\<exists>r. propose_state_update example_stf_env (\<lambda>i. 3 * i) [DirectCall 2, DirectCall 3, DirectCall 12, Get (), DirectCall 4] 2 12 id memory_handler = Ok r
    \<and> map trusted_operation_or_hash (executed_operations r) = map Operation [DirectCall 2, DirectCall 3, DirectCall 12, Get ()]
    \<and> length (get_executed_operation_hashes r) + length (get_failed_operations r) = 4"
proof -
  let ?ops = "[DirectCall 2, DirectCall 3, DirectCall 12, Get (), DirectCall 4] :: (nat, unit) trusted_operation list"
  have env: "get_mrenclave_of_self example_stf_env = Ok [1]" by (simp add: example_stf_env_def)
  have load: "load_cloned 2 memory_handler = Ok (ext_new [], 7)"
    by (simp add: load_cloned_def execute_on_current_def memory_handler_def)
  from propose_state_update_prefix [OF env load, of "\<lambda>i. 3 * i" ?ops 12 id]
  obtain r k where r: "propose_state_update example_stf_env (\<lambda>i. 3 * i) ?ops 2 12 id memory_handler = Ok r"
    and k: "k \<le> length ?ops" "\<forall>j<k. 3 * Suc j \<le> 3 * 0 + 12" "k < length ?ops \<longrightarrow> 3 * 0 + 12 < 3 * Suc k"
      "map trusted_operation_or_hash (executed_operations r) = map Operation (take k ?ops)"
      "length (get_executed_operation_hashes r) + length (get_failed_operations r) = k"
    by blast
  have "k \<noteq> 5" using spec [OF k(2), of 4] by auto
  then have "k = 4" using k(1,3) by simp
  with r k(4,5) show ?thesis by auto
qed

end
