(* ===== verification/Aura.thy ===== *)
theory Aura
  imports Slots Stf_Executor Block_Import
begin

text \<open>
  The aura slot worker (sidechain/consensus/aura, lib.rs, proposer_factory.rs and slot_proposer.rs): claiming
  slots, importing pending parentchain blocks and proposing a sidechain block from the pending trusted
  calls. \<open>aura_slot_worker\<close> instantiates the generic slot worker of \<open>Slots\<close>. The state handler is shared with
  the parentchain importer: \<open>importer_writes\<close> is what an import has written to it.

  Duration::mul_f32 with the factor 0.7 is floating point arithmetic: the parameter \<open>proposal_portion\<close>
  stands for it. The \<open>n\<close>-th reading of the system clock is \<open>clock_reading n\<close>; the state counts the readings.
\<close>

section \<open>Environment and state\<close>

datatype slot_claim_strategy = Always | RoundRobin

record ('i, 'b, 'p) aura_state =
  integritee_trigger :: "('i, 'b) triggered_dispatcher"
  target_a_trigger :: "('i, 'b) triggered_dispatcher option"
  target_b_trigger :: "('i, 'b) triggered_dispatcher option"
  aura_handler :: "state_dir state_handler"
  aura_pool :: 'p
  clock_index :: nat

record ('k, 's, 'key, 'i, 'b, 'ie, 'ph, 'p, 't, 'g) aura_env =
  aura_chain :: "('k, 's, 'key) chain_env"
  aura_stf :: "('t, 'g, 'ph) stf_env"
  authority_pair :: 'k
  claim_strategy :: slot_claim_strategy
  aura_importer :: "('i, 'b, 'ie) block_importer"
  importer_writes :: "'i \<Rightarrow> state_dir state_handler \<Rightarrow> state_dir state_handler"
  aura_header :: "'b \<Rightarrow> 'ph"
  aura_header_hash :: "'ph \<Rightarrow> h256"
  current_validateers :: "'ph \<Rightarrow> shard_identifier \<Rightarrow> (string, public list) result"
  get_pending_trusted_calls :: "shard_identifier \<Rightarrow> 'p \<Rightarrow> ('t, 'g) trusted_operation list"
  pool_remove_calls :: "shard_identifier \<Rightarrow> (('t, 'g) trusted_operation_or_hash \<times> bool) list \<Rightarrow> 'p \<Rightarrow> 'p"
  clock_reading :: "nat \<Rightarrow> duration"
  proposal_portion :: "duration \<Rightarrow> duration"

section \<open>The slot worker\<close>

definition aura_tick ::
  "('k, 's, 'key, 'i, 'b, 'ie, 'ph, 'p, 't, 'g) aura_env \<Rightarrow> ('i, 'b, 'p) aura_state \<Rightarrow> duration \<times> ('i, 'b, 'p) aura_state" where
  "aura_tick env w = (clock_reading env (clock_index w), w\<lparr>clock_index := Suc (clock_index w)\<rparr>)"

definition proposing_remaining_duration :: "(duration \<Rightarrow> duration) \<Rightarrow> 'ph slot_info \<Rightarrow> duration \<Rightarrow> duration" where
  "proposing_remaining_duration portion info now =
     (let proposing_duration = portion (info_duration info);
          slot_remaining = (if now \<le> info_ends_at info then portion (info_ends_at info - now) else 0)
      in min slot_remaining proposing_duration)"

definition aura_proposing_remaining ::
  "('k, 's, 'key, 'i, 'b, 'ie, 'ph, 'p, 't, 'g) aura_env \<Rightarrow> 'ph slot_info \<Rightarrow> ('i, 'b, 'p) aura_state
   \<Rightarrow> duration \<times> ('i, 'b, 'p) aura_state" where
  "aura_proposing_remaining env info w =
     (case aura_tick env w of (now, w') \<Rightarrow> (proposing_remaining_duration (proposal_portion env) info now, w'))"

definition aura_claim_slot ::
  "('k, 's, 'key, 'i, 'b, 'ie, 'ph, 'p, 't, 'g) aura_env \<Rightarrow> slot \<Rightarrow> public list \<Rightarrow> public option" where
  "aura_claim_slot env s epoch =
     (case slot_author s epoch of
        Some (Some expected_author) \<Rightarrow>
          (let own = public_of (env_crypto (aura_chain env)) (authority_pair env)
           in if expected_author = own then Some own
              else if claim_strategy env = Always then Some own
              else None)
      | _ \<Rightarrow> None)"

definition peek_latest_header ::
  "('k, 's, 'key, 'i, 'b, 'ie, 'ph, 'p, 't, 'g) aura_env \<Rightarrow> ('i, 'b) triggered_dispatcher option \<Rightarrow> (string, 'ph option) result" where
  "peek_latest_header env trigger =
     (case trigger of
        None \<Rightarrow> Err ''no target assigned''
      | Some d \<Rightarrow>
          (case peek_latest d :: ('ie dispatch_error, 'b option) result of
             Err _ \<Rightarrow> Err ''peek failed''
           | Ok b \<Rightarrow> Ok (map_option (aura_header env) b)))"

definition import_header_until ::
  "('k, 's, 'key, 'i, 'b, 'ie, 'ph, 'p, 't, 'g) aura_env \<Rightarrow> 'ph \<Rightarrow> ('i, 'b) triggered_dispatcher
   \<Rightarrow> (string, 'ph option) result \<times> ('i, 'b) triggered_dispatcher" where
  "import_header_until env h d =
     (case import_until (aura_importer env) (\<lambda>b. aura_header_hash env (aura_header env b) = aura_header_hash env h) d of
        (Err _, d') \<Rightarrow> (Err ''import failed'', d')
      | (Ok b, d') \<Rightarrow> (Ok (map_option (aura_header env) b), d'))"

definition import_integritee_parentchain_blocks_until ::
  "('k, 's, 'key, 'i, 'b, 'ie, 'ph, 'p, 't, 'g) aura_env \<Rightarrow> 'ph \<Rightarrow> ('i, 'b, 'p) aura_state
   \<Rightarrow> (string, 'ph option) result \<times> ('i, 'b, 'p) aura_state" where
  "import_integritee_parentchain_blocks_until env h w =
     (case import_header_until env h (integritee_trigger w) of (r, d) \<Rightarrow> (r, w\<lparr>integritee_trigger := d, aura_handler := importer_writes env (block_importer d) (aura_handler w)\<rparr>))"

definition import_target_a_parentchain_blocks_until ::
  "('k, 's, 'key, 'i, 'b, 'ie, 'ph, 'p, 't, 'g) aura_env \<Rightarrow> 'ph \<Rightarrow> ('i, 'b, 'p) aura_state
   \<Rightarrow> (string, 'ph option) result \<times> ('i, 'b, 'p) aura_state" where
  "import_target_a_parentchain_blocks_until env h w =
     (case target_a_trigger w of
        None \<Rightarrow> (Err ''no target_a assigned'', w)
      | Some t \<Rightarrow> (case import_header_until env h t of (r, d) \<Rightarrow> (r, w\<lparr>target_a_trigger := Some d, aura_handler := importer_writes env (block_importer d) (aura_handler w)\<rparr>)))"

definition import_target_b_parentchain_blocks_until ::
  "('k, 's, 'key, 'i, 'b, 'ie, 'ph, 'p, 't, 'g) aura_env \<Rightarrow> 'ph \<Rightarrow> ('i, 'b, 'p) aura_state
   \<Rightarrow> (string, 'ph option) result \<times> ('i, 'b, 'p) aura_state" where
  "import_target_b_parentchain_blocks_until env h w =
     (case target_b_trigger w of
        None \<Rightarrow> (Err ''no target_b assigned'', w)
      | Some t \<Rightarrow> (case import_header_until env h t of (r, d) \<Rightarrow> (r, w\<lparr>target_b_trigger := Some d, aura_handler := importer_writes env (block_importer d) (aura_handler w)\<rparr>)))"

section \<open>Proposing a block\<close>

definition prepare_state :: "('k, 's, 'key) chain_env \<Rightarrow> timestamp \<Rightarrow> sgx_externalities \<Rightarrow> sgx_externalities" where
  "prepare_state env now_millis e =
     (let h = env_hashers env; c = env_scale env;
          e1 = reset_events h e;
          e2 = set_block_number h c (case get_block_number h c e1 of None \<Rightarrow> 1 | Some n \<Rightarrow> n + 1) e1
      in set_timestamp h c now_millis e2)"

text \<open>The clock is read once for the deadline, once for the timestamp of the state, before each call and once
  for the timestamp of the block.\<close>

definition execute_pending ::
  "('k, 's, 'key, 'i, 'b, 'ie, 'ph, 'p, 't, 'g) aura_env \<Rightarrow> shard_identifier \<Rightarrow> duration \<Rightarrow> ('i, 'b, 'p) aura_state
   \<Rightarrow> (executor_error, ('t, 'g) batch_execution_result) result" where
  "execute_pending env shard max_duration w =
     (let n = clock_index w
      in propose_state_update (aura_stf env) (\<lambda>i. clock_reading env (if i = 0 then n else n + 1 + i))
           (get_pending_trusted_calls env shard (aura_pool w)) shard max_duration
           (prepare_state (aura_chain env) (of_nat (as_millis (clock_reading env (n + 1))))) (aura_handler w))"

definition propose_block ::
  "('k, 's, 'key, 'i, 'b, 'ie, 'ph, 'p, 't, 'g) aura_env \<Rightarrow> 'ph \<Rightarrow> shard_identifier \<Rightarrow> duration \<Rightarrow> ('i, 'b, 'p) aura_state
   \<Rightarrow> (string, 's signed_block \<times> parentchain_call list) result \<times> ('i, 'b, 'p) aura_state" where
  "propose_block env pch shard max_duration w =
     (let pending = length (get_pending_trusted_calls env shard (aura_pool w));
          n = clock_index w;
          w1 = w\<lparr>clock_index := n + 3 + pending\<rparr>
      in case execute_pending env shard max_duration w of
           Err _ \<Rightarrow> (Err ''state update failed'', w1)
         | Ok r \<Rightarrow>
             (let failed = map (\<lambda>x. (trusted_operation_or_hash x, is_success x)) (get_failed_operations r);
                  w2 = w1\<lparr>aura_pool := pool_remove_calls env shard failed (aura_pool w1)\<rparr>
              in case compose_block (aura_chain env) (authority_pair env)
                        (of_nat (as_millis (clock_reading env (n + 2 + pending)))) (aura_header_hash env pch)
                        (get_executed_operation_hashes r) shard (state_hash_before_execution r) (state_after_execution r) of
                   Err _ \<Rightarrow> (Err ''block composition failed'', w2)
                 | Ok sb \<Rightarrow> (Ok (sb, get_extrinsic_callbacks r), w2)))"

definition aura_slot_worker ::
  "('k, 's, 'key, 'i, 'b, 'ie, 'ph, 'p, 't, 'g) aura_env
   \<Rightarrow> (('i, 'b, 'p) aura_state, 'ph, public list, public, 's) slot_worker" where
  "aura_slot_worker env =
     \<lparr>tick = aura_tick env,
      proposing_remaining = aura_proposing_remaining env,
      peek_latest_integritee = \<lambda>w. peek_latest_header env (Some (integritee_trigger w)),
      peek_latest_target_a = \<lambda>w. peek_latest_header env (target_a_trigger w),
      peek_latest_target_b = \<lambda>w. peek_latest_header env (target_b_trigger w),
      epoch_data = \<lambda>pch shard _ _. current_validateers env pch shard,
      claim_slot = \<lambda>_ s epoch. aura_claim_slot env s epoch,
      import_integritee_until = import_integritee_parentchain_blocks_until env,
      import_target_a_until = import_target_a_parentchain_blocks_until env,
      import_target_b_until = import_target_b_parentchain_blocks_until env,
      propose = propose_block env\<rparr>"

section \<open>What a proposal contains\<close>

text \<open>What the proposal relies on of the state transition function: its calls change the state only through the
  externalities, so that the diff records every change, and they leave the last sidechain block alone.\<close>

definition calls_tracked :: "('t, 'g, 'ph) stf_env \<Rightarrow> bool" where
  "calls_tracked env \<longleftrightarrow> (\<forall>c e s. tracks s e \<longrightarrow> tracks s (fst (snd (execute_call env c e))))"

definition calls_keep_last_block :: "('t, 'g, 'ph) stf_env \<Rightarrow> ('k, 's, 'key) chain_env \<Rightarrow> bool" where
  "calls_keep_last_block env ch \<longleftrightarrow> (\<forall>c e. ext_wf e \<longrightarrow>
     get_last_block (env_hashers ch) (env_scale ch) (fst (snd (execute_call env c e))) = get_last_block (env_hashers ch) (env_scale ch) e)"

lemma execute_until_inv:
  assumes "\<And>c e. P e \<Longrightarrow> P (fst (snd (execute_call env c e)))" "P e"
  shows "P (snd (execute_until env clock ends_at shard i ops e))"
  using assms(2)
proof (induction ops arbitrary: i e)
  case (Cons op ops)
  have "P (snd (execute_trusted_call_on_stf env op shard NoPostProcessing e))"
    using Cons.prems assms(1) [of e]
    by (auto simp: execute_trusted_call_on_stf_def split: result.split option.split prod.split) (metis fst_conv snd_conv)+
  with Cons show ?case by (auto split: prod.splits) (metis snd_conv)+
qed simp

lemma reset_events_tracks: "tracks s e \<Longrightarrow> tracks s (reset_events h e)"
  by (simp add: reset_events_def clear_prefix_with_name_def clear_with_name_def ext_clear_prefix_def Let_def tracks_ops)

lemma ext_wf_remove_all: "ext_wf e \<Longrightarrow> ext_wf (fold (\<lambda>k e. snd (ext_remove k e)) ks e)"
  by (induction ks arbitrary: e) simp_all

lemma ext_wf_reset_events: "ext_wf e \<Longrightarrow> ext_wf (reset_events h e)"
  by (simp add: reset_events_def clear_prefix_with_name_def clear_with_name_def ext_clear_prefix_def Let_def ext_wf_remove_all)

lemma prepare_state_tracks: "tracks s e \<Longrightarrow> tracks s (prepare_state env t e)"
  by (simp add: prepare_state_def Let_def set_timestamp_def set_block_number_def set_with_name_def tracks_ops reset_events_tracks)

lemma prepare_state_last_block:
  assumes "keys_separate (env_hashers ch) system_names" "ext_wf e"
  shows "get_last_block (env_hashers ch) (env_scale ch) (prepare_state ch t e) = get_last_block (env_hashers ch) (env_scale ch) e"
proof -
  let ?h = "env_hashers ch" and ?c = "env_scale ch"
  have wf1: "ext_wf (reset_events ?h e)" using assms(2) by (rule ext_wf_reset_events)
  then show ?thesis
    by (simp add: prepare_state_def Let_def named_getters named_setters get_set_with_name [OF assms(1)]
        get_reset_events [OF assms])
qed

lemma prepare_state_block_number:
  assumes "keys_separate (env_hashers ch) system_names" "scale_ok (env_scale ch)" "ext_wf e"
  shows "get_block_number (env_hashers ch) (env_scale ch) (prepare_state ch t e)
    = Some (case get_block_number (env_hashers ch) (env_scale ch) e of None \<Rightarrow> 1 | Some n \<Rightarrow> n + 1)"
  using assms(2) ext_wf_reset_events [OF assms(3)]
  by (simp add: prepare_state_def Let_def named_getters named_setters get_set_with_name [OF assms(1)]
      get_reset_events [OF assms(1,3)] scale_ok_def)

lemma propose_block_Ok:
  assumes "propose_block env pch shard dur w = (Ok (sb, effects), w')"
  obtains r where "execute_pending env shard dur w = Ok r" "aura_handler w' = aura_handler w"
    "compose_block (aura_chain env) (authority_pair env) (block_timestamp (data (block sb))) (aura_header_hash env pch)
       (get_executed_operation_hashes r) shard (state_hash_before_execution r) (state_after_execution r) = Ok sb"
proof -
  obtain r t where r: "execute_pending env shard dur w = Ok r" "aura_handler w' = aura_handler w"
    and c: "compose_block (aura_chain env) (authority_pair env) t (aura_header_hash env pch)
        (get_executed_operation_hashes r) shard (state_hash_before_execution r) (state_after_execution r) = Ok sb"
    using assms unfolding propose_block_def Let_def by (auto split: result.splits)
  show ?thesis using that [OF r] c compose_block_fields(8) [OF c refl] by simp
qed

lemma execute_pending_Ok:
  assumes "execute_pending env shard dur w = Ok r"
  obtains e t clock ends_at ops where "load_cloned shard (aura_handler w) = Ok (e, state_hash_before_execution r)"
    "state_after_execution r = snd (execute_until (aura_stf env) clock ends_at shard 0 ops (prepare_state (aura_chain env) t e))"
proof -
  let ?clock = "\<lambda>i. clock_reading env (if i = 0 then clock_index w else clock_index w + 1 + i)"
  let ?t = "of_nat (as_millis (clock_reading env (clock_index w + 1)))"
  let ?run = "execute_until (aura_stf env) ?clock (?clock 0 + dur) shard 0 (get_pending_trusted_calls env shard (aura_pool w))"
  obtain e before where load: "load_cloned shard (aura_handler w) = Ok (e, before)"
    using assms by (auto simp: execute_pending_def propose_state_update_def Let_def split: result.splits)
  have "r = \<lparr>state_hash_before_execution = before, executed_operations = fst (?run (prepare_state (aura_chain env) ?t e)),
      state_after_execution = snd (?run (prepare_state (aura_chain env) ?t e))\<rparr>"
    using assms load by (simp add: execute_pending_def propose_state_update_def Let_def case_prod_beta)
  then show ?thesis using that [OF _ _, of e ?clock "?clock 0 + dur" "get_pending_trusted_calls env shard (aura_pool w)" ?t] load by simp
qed

lemma executed_state_tracks:
  assumes "calls_tracked stf" "tracks s e"
  shows "tracks s (snd (execute_until stf clock ends_at shard i ops (prepare_state ch t e)))"
proof (rule execute_until_inv [where P = "tracks s"])
  show "tracks s (prepare_state ch t e)" using assms(2) by (rule prepare_state_tracks)
qed (use assms(1) in \<open>simp add: calls_tracked_def\<close>)

lemma executed_state_last_block:
  assumes "calls_tracked stf" "calls_keep_last_block stf ch" "keys_separate (env_hashers ch) system_names" "tracks s e"
  shows "get_last_block (env_hashers ch) (env_scale ch) (snd (execute_until stf clock ends_at shard i ops (prepare_state ch t e)))
    = get_last_block (env_hashers ch) (env_scale ch) e"
proof -
  let ?P = "\<lambda>x. tracks s x \<and> get_last_block (env_hashers ch) (env_scale ch) x = get_last_block (env_hashers ch) (env_scale ch) e"
  have "?P (snd (execute_until stf clock ends_at shard i ops (prepare_state ch t e)))"
  proof (rule execute_until_inv [where P = ?P])
    show "?P (prepare_state ch t e)"
    proof
      show "tracks s (prepare_state ch t e)" using assms(4) by (rule prepare_state_tracks)
      show "get_last_block (env_hashers ch) (env_scale ch) (prepare_state ch t e) = get_last_block (env_hashers ch) (env_scale ch) e"
        using assms(4) by (intro prepare_state_last_block [OF assms(3)]) (simp add: tracks_def)
    qed
  next
    fix c x assume x: "?P x"
    then have "ext_wf x" by (simp add: tracks_def)
    with x assms(1,2) show "?P (fst (snd (execute_call stf c x)))"
      by (simp add: calls_tracked_def calls_keep_last_block_def)
  qed
  then show ?thesis by blast
qed

lemma on_slot_Some:
  assumes "on_slot (aura_slot_worker env) info shard w = (Some (sb, effects), w')"
  obtains pch auths dur w3 where "current_validateers env pch shard = Ok auths"
    "aura_claim_slot env (info_slot info) auths \<noteq> None" "propose_block env pch shard dur w3 = (Ok (sb, effects), w')"
    "timestamp_within_slot info sb"
proof -
  have "\<exists>pch auths dur w3. current_validateers env pch shard = Ok auths \<and> aura_claim_slot env (info_slot info) auths \<noteq> None
      \<and> propose_block env pch shard dur w3 = (Ok (sb, effects), w') \<and> timestamp_within_slot info sb"
    using assms unfolding on_slot_def aura_slot_worker_def Let_def
    by (simp split: prod.splits result.splits option.splits if_splits) blast+
  then show ?thesis using that by blast
qed

text \<open>The slot a slot info stands for: its times lie between the start of the slot and its end.\<close>

definition slot_window :: "'ph slot_info \<Rightarrow> bool" where
  "slot_window info \<longleftrightarrow> unat (info_slot info) * as_millis SLOT_DURATION \<le> as_millis (info_timestamp info)
     \<and> as_millis (info_timestamp info) \<le> as_millis (info_ends_at info)
     \<and> as_millis (info_ends_at info) \<le> (unat (info_slot info) + 1) * as_millis SLOT_DURATION \<and> as_millis (info_ends_at info) < 2 ^ 64"

lemma slot_of_stamp:
  assumes "slot_window info" "timestamp_within_slot info sb"
    and "unat (block_timestamp (data (block sb))) < (unat (info_slot info) + 1) * as_millis SLOT_DURATION"
  shows "unat (block_timestamp (data (block sb))) div as_millis SLOT_DURATION = unat (info_slot info)"
proof -
  have "unat (of_nat (as_millis (info_timestamp info)) :: u64) = as_millis (info_timestamp info)"
    using assms(1) by (intro unat_of_nat_u64) (simp add: slot_window_def)
  then have "as_millis (info_timestamp info) \<le> unat (block_timestamp (data (block sb)))"
    using assms(2) by (simp add: timestamp_within_slot_def word_le_nat_alt Let_def)
  then have "unat (info_slot info) * as_millis SLOT_DURATION \<le> unat (block_timestamp (data (block sb)))"
    using assms(1) by (simp add: slot_window_def)
  with assms(3) show ?thesis by (intro div_nat_eqI) (simp_all add: mult.commute)
qed

lemma round_robin_claim:
  assumes "aura_claim_slot env s auths \<noteq> None" "claim_strategy env = RoundRobin" "length auths < 2 ^ 64"
  shows "auths \<noteq> [] \<and> auths ! (unat s mod length auths) = public_of (env_crypto (aura_chain env)) (authority_pair env)"
proof -
  have "auths \<noteq> []" using assms(1) by (auto simp: aura_claim_slot_def slot_author_def)
  with assms slot_author_nth [OF this assms(3), of s] show ?thesis
    by (auto simp: aura_claim_slot_def Let_def split: if_splits)
qed

section \<open>Properties\<close>

abbreviation shard_state :: "('i, 'b, 'p) aura_state \<Rightarrow> shard_identifier \<Rightarrow> sgx_externalities \<times> h256 \<Rightarrow> bool" where
  "shard_state w shard st \<equiv> load_cloned shard (aura_handler w) = Ok st"

text \<open>C1: A block the aura worker produces in a slot it owns is accepted by its peers: whenever the worker returns a
  block for a shard, stamped before the end of the slot, there is a parentchain header named in the block
  whose validateer set makes the verification of the block succeed against the last block of the shard.\<close>
theorem aura_block_verifies:
  assumes "on_slot (aura_slot_worker env) info shard w = (Some (sb, effects), w')"
    and "claim_strategy env = RoundRobin" "slot_window info"
    and "unat (block_timestamp (data (block sb))) < (unat (info_slot info) + 1) * as_millis SLOT_DURATION"
    and "shard_state w' shard (ext_new s, x)" "bt_wf s"
    and "\<And>b. get_last_block (env_hashers (aura_chain env)) (env_scale (aura_chain env)) (ext_new s) = Some b
      \<Longrightarrow> unat (number_of b) < 2 ^ 64 - 1"
    and "\<And>pch auths. current_validateers env pch shard = Ok auths \<Longrightarrow> length auths < 2 ^ 64"
    and "signatures_verify (env_crypto (aura_chain env))" "keys_separate (env_hashers (aura_chain env)) system_names"
    and "calls_tracked (aura_stf env)" "calls_keep_last_block (aura_stf env) (aura_chain env)"
  shows "\<exists>pch auths. current_validateers env pch shard = Ok auths
    \<and> layer_one_head (data (block sb)) = aura_header_hash env pch
    \<and> verify_sidechain_block (env_crypto (aura_chain env)) sb SLOT_DURATION
        (get_last_block (env_hashers (aura_chain env)) (env_scale (aura_chain env)) (ext_new s)) (aura_header_hash env pch) auths = Some (Ok sb)"
proof -
  let ?ch = "aura_chain env"
  let ?c = "env_crypto ?ch"
  let ?prev = "get_last_block (env_hashers ?ch) (env_scale ?ch) (ext_new s)"
  obtain pch auths dur w3 where on: "current_validateers env pch shard = Ok auths"
    "aura_claim_slot env (info_slot info) auths \<noteq> None" "propose_block env pch shard dur w3 = (Ok (sb, effects), w')"
    "timestamp_within_slot info sb"
    by (rule on_slot_Some [OF assms(1)])
  obtain r where p: "execute_pending env shard dur w3 = Ok r" "aura_handler w' = aura_handler w3"
    "compose_block ?ch (authority_pair env) (block_timestamp (data (block sb))) (aura_header_hash env pch)
       (get_executed_operation_hashes r) shard (state_hash_before_execution r) (state_after_execution r) = Ok sb"
    by (rule propose_block_Ok [OF on(3)])
  obtain e t clock ends_at ops where e: "load_cloned shard (aura_handler w3) = Ok (e, state_hash_before_execution r)"
    "state_after_execution r = snd (execute_until (aura_stf env) clock ends_at shard 0 ops (prepare_state ?ch t e))"
    by (rule execute_pending_Ok [OF p(1)])
  then have "e = ext_new s" using p(2) assms(5) by simp
  then have prev: "get_last_block (env_hashers ?ch) (env_scale ?ch) (state_after_execution r) = ?prev"
    unfolding e(2) using executed_state_last_block [OF assms(11,12,10) tracks_new [OF assms(6)]] by simp
  note fields = compose_block_fields [OF p(3) refl]
  have "extends_chain ?c ?prev (block sb)"
    using compose_block_extends [OF p(3) prev [symmetric] assms(7)] by blast
  moreover have "verify_signature ?c sb"
    using verify_sign_block [OF assms(9)] fields(6,9) by metis
  moreover have "1000000 \<le> SLOT_DURATION" by (simp add: SLOT_DURATION_def from_millis_def)
  ultimately have "verify_sidechain_block ?c sb SLOT_DURATION ?prev (aura_header_hash env pch) auths = Some (Ok sb)"
    using round_robin_claim [OF on(2) assms(2) assms(8) [OF on(1)]] slot_of_stamp [OF assms(3) on(4) assms(4)] fields(6,7)
      assms(8) [OF on(1)] by (simp add: verify_block_exact)
  with on(1) fields(7) show ?thesis by blast
qed

text \<open>C2: Every peer that imports a proposed block reaches the state its author computed: the encrypted diff in the
  block, decrypted with the shared state key and applied to the state the author started from, yields the
  state after the author's execution of the pending calls, with the new block recorded as the last one.\<close>
theorem aura_block_replays:
  assumes "propose_block env pch shard dur w = (Ok (sb, effects), w')"
    and "shard_state w shard (ext_new s, env_state_hash (aura_chain env) s)" "bt_wf s" "state e0 = s"
    and "calls_tracked (aura_stf env)"
    and "\<And>u. dec_update (aura_chain env) (enc_update (aura_chain env) u) = Some u"
    and "\<And>key p c. encrypt (aura_chain env) key p = Some c \<Longrightarrow> decrypt (aura_chain env) key c = Some p"
    and "retrieve_key (aura_chain env) = Some key"
  shows "\<exists>r. execute_pending env shard dur w = Ok r
    \<and> mutate_state (aura_chain env) key (block sb) e0
      = Ok (set_last_block (env_crypto (aura_chain env)) (env_hashers (aura_chain env)) (env_scale (aura_chain env)) (block sb)
              (ext_new (state (state_after_execution r))))"
proof -
  let ?ch = "aura_chain env"
  let ?hash = "env_state_hash ?ch"
  obtain r where p: "execute_pending env shard dur w = Ok r"
    "compose_block ?ch (authority_pair env) (block_timestamp (data (block sb))) (aura_header_hash env pch)
       (get_executed_operation_hashes r) shard (state_hash_before_execution r) (state_after_execution r) = Ok sb"
    by (rule propose_block_Ok [OF assms(1)])
  obtain e t clock ends_at ops where e: "load_cloned shard (aura_handler w) = Ok (e, state_hash_before_execution r)"
    "state_after_execution r = snd (execute_until (aura_stf env) clock ends_at shard 0 ops (prepare_state ?ch t e))"
    by (rule execute_pending_Ok [OF p(1)])
  have start: "e = ext_new s" "state_hash_before_execution r = ?hash s" using e(1) assms(2) by simp_all
  have tracked: "tracks s (state_after_execution r)"
    unfolding e(2) start(1) by (rule executed_state_tracks [OF assms(5) tracks_new [OF assms(3)]])
  let ?u = "\<lparr>state_hash_apriori = ?hash s, state_hash_aposteriori = ?hash (state (state_after_execution r)),
     update_diff = state_diff (state_after_execution r)\<rparr>"
  have "encrypt ?ch key (enc_update ?ch ?u) = Some (encrypted_state_diff (data (block sb)))"
    using compose_block_fields(10) [OF p(2) refl] assms(8) start(2) by simp
  then have "state_update_from_encrypted ?ch (encrypted_state_diff (data (block sb))) key = Ok ?u"
    using assms(6,7) by (simp add: state_update_from_encrypted_def)
  moreover have "apply_state_update ?hash ?u e0 = (Ok (), ext_new (state (state_after_execution r)))"
    by (rule replay_tracked [OF tracked assms(3,4)])
  ultimately show ?thesis using p(1) by (simp add: mutate_state_def)
qed

section \<open>A concrete worker\<close>

text \<open>A codec of state updates, and a worker with key 12 on an empty shard whose clock ticks in milliseconds.\<close>

definition enc_state_update :: "state_update \<Rightarrow> bytes" where
  "enc_state_update u = enc_map ((enc_nats [unat (state_hash_apriori u), unat (state_hash_aposteriori u)], [])
     # map (\<lambda>(k, v). (k, case v of None \<Rightarrow> [] | Some x \<Rightarrow> 1 # x)) (update_diff u))"

definition dec_state_update :: "bytes \<Rightarrow> state_update option" where
  "dec_state_update b =
     (case dec_map (Suc (length b)) b of
        Some ((hs, _) # diff) \<Rightarrow>
          Some \<lparr>state_hash_apriori = of_nat (dec_nats 0 hs ! 0), state_hash_aposteriori = of_nat (dec_nats 0 hs ! 1),
            update_diff = map (\<lambda>(k, v). (k, case v of [] \<Rightarrow> None | _ # x \<Rightarrow> Some x)) diff\<rparr>
      | _ \<Rightarrow> None)"

lemma state_update_codec: "dec_state_update (enc_state_update u) = Some u"
proof -
  have "map (\<lambda>(k, v). (k, case v of [] \<Rightarrow> None | _ # x \<Rightarrow> Some x)) (map (\<lambda>(k, v). (k, case v of None \<Rightarrow> [] | Some x \<Rightarrow> (1::u8) # x)) d) = d"
    for d :: "(bytes \<times> bytes option) list"
    by (induction d) (auto split: option.split)
  then show ?thesis
    unfolding dec_state_update_def enc_state_update_def dec_enc_map [OF length_enc_map]
    by (cases u) (simp add: dec_enc_nats)
qed

definition example_chain :: "(h256, h256, unit) chain_env" where
  "example_chain = example_env\<lparr>env_scale := block_scale, enc_update := enc_state_update, dec_update := dec_state_update,
     decrypt := \<lambda>_ p. Some (take (length p div 2) p)\<rparr>"

definition example_aura_env ::
  "(h256, h256, unit, nat, h256, string, nat, (nat, unit) trusted_operation list, nat, unit) aura_env" where
  "example_aura_env =
     \<lparr>aura_chain = example_chain, aura_stf = example_stf_env, authority_pair = 12, claim_strategy = RoundRobin,
      aura_importer = \<lambda>i bs es. (Ok (), i + length bs), importer_writes = \<lambda>_ h. h, aura_header = unat, aura_header_hash = of_nat,
      current_validateers = \<lambda>_ _. Ok [10, 11, 12], get_pending_trusted_calls = \<lambda>_ p. p, pool_remove_calls = \<lambda>_ _ p. p,
      clock_reading = \<lambda>n. from_millis (2100 + n), proposal_portion = \<lambda>d. d div 2\<rparr>"

definition example_aura_state :: "(nat, h256, (nat, unit) trusted_operation list) aura_state" where
  "example_aura_state =
     \<lparr>integritee_trigger = new_dispatcher 0, target_a_trigger = None, target_b_trigger = None,
      aura_handler = example_handler\<lparr>states_map := [(2, (ext_new [], 0))]\<rparr>, aura_pool = [], clock_index = 0\<rparr>"

definition example_slot_info :: "nat slot_info" where
  "example_slot_info =
     \<lparr>info_slot = 2, info_timestamp = from_millis 2000, info_duration = from_millis 1000, info_ends_at = from_millis 3000,
      last_imported_integritee_parentchain_head = 5, last_imported_target_a_parentchain_head = None,
      last_imported_target_b_parentchain_head = None\<rparr>"

lemma example_chain_simps [simp]:
  "env_hashers example_chain = pad_hashers" "env_scale example_chain = block_scale"
  "env_crypto example_chain = env_crypto example_env" "retrieve_key example_chain = Some ()"
  "encrypt example_chain = (\<lambda>_ p. Some (p @ p))" "env_state_hash example_chain = (\<lambda>s. of_nat (length s))"
  by (simp_all add: example_chain_def example_env_def)

lemma example_prepared:
  "get_last_block pad_hashers block_scale (prepare_state example_chain t (ext_new [])) = None"
  "get_block_number pad_hashers block_scale (prepare_state example_chain t (ext_new [])) = Some 1"
proof -
  have wf: "ext_wf (ext_new [])" by (simp add: ext_wf_def ext_new_def)
  show "get_last_block pad_hashers block_scale (prepare_state example_chain t (ext_new [])) = None"
    using prepare_state_last_block [of example_chain "ext_new []" t] wf
    by (simp add: get_last_block_def get_with_name_def ext_get_def ext_new_def)
  show "get_block_number pad_hashers block_scale (prepare_state example_chain t (ext_new [])) = Some 1"
    using prepare_state_block_number [of example_chain "ext_new []" t] wf block_scale_ok
    by (simp add: get_block_number_def get_with_name_def ext_get_def ext_new_def)
qed

lemma example_compose:
  "\<exists>sb. compose_block example_chain 12 t' h tops 2 x (prepare_state example_chain t (ext_new [])) = Ok sb"
  using example_prepared [of t] by (simp add: compose_block_def Let_def)

lemma example_execute:
  "execute_pending example_aura_env 2 dur (example_aura_state\<lparr>clock_index := n\<rparr>)
    = Ok \<lparr>state_hash_before_execution = 0, executed_operations = [],
        state_after_execution = prepare_state example_chain (of_nat (2100 + (n + 1))) (ext_new [])\<rparr>"
  by (simp add: execute_pending_def propose_state_update_def load_cloned_def execute_on_current_def example_aura_env_def
      example_aura_state_def example_handler_def)

lemma example_propose:
  "\<exists>sb w'. propose_block example_aura_env pch 2 dur (example_aura_state\<lparr>clock_index := n\<rparr>) = (Ok (sb, []), w')
     \<and> block_timestamp (data (block sb)) = of_nat (2102 + n) \<and> aura_handler w' = aura_handler example_aura_state"
proof -
  obtain sb where sb: "compose_block example_chain 12 (of_nat (2102 + n)) (of_nat pch) [] 2 0
      (prepare_state example_chain (of_nat (2100 + (n + 1))) (ext_new [])) = Ok sb"
    using example_compose by blast
  have env: "aura_chain example_aura_env = example_chain" "authority_pair example_aura_env = 12"
    "aura_header_hash example_aura_env = of_nat" "clock_reading example_aura_env = (\<lambda>n. from_millis (2100 + n))"
    "get_pending_trusted_calls example_aura_env = (\<lambda>_ p. p)" "aura_pool example_aura_state = []"
    by (simp_all add: example_aura_env_def example_aura_state_def)
  have "\<exists>w'. propose_block example_aura_env pch 2 dur (example_aura_state\<lparr>clock_index := n\<rparr>) = (Ok (sb, []), w')
      \<and> aura_handler w' = aura_handler example_aura_state"
    using sb unfolding propose_block_def Let_def example_execute
    by (simp add: env get_failed_operations_def get_executed_operation_hashes_def get_extrinsic_callbacks_def
        List.map_filter_def add.commute)
  with compose_block_fields(8) [OF sb refl] show ?thesis by blast
qed

lemma storage_value_key_length: "length (storage_value_key pad_hashers m n) = 32"
  by (simp add: storage_value_key_def pad_hashers_def as_bytes_def)

lemma example_stf_laws [simp]:
  "calls_tracked (aura_stf example_aura_env)"
  "calls_keep_last_block (aura_stf example_aura_env) (aura_chain example_aura_env)"
proof -
  show "calls_tracked (aura_stf example_aura_env)"
    by (simp add: calls_tracked_def example_aura_env_def example_stf_env_def tracks_ops)
  have "storage_value_key pad_hashers m n \<noteq> [x]" for m n x
    using storage_value_key_length [of m n] by (metis length_Cons list.size(3) numeral_eq_one_iff One_nat_def num.simps(4))
  then show "calls_keep_last_block (aura_stf example_aura_env) (aura_chain example_aura_env)"
    by (simp add: calls_keep_last_block_def example_aura_env_def example_stf_env_def get_last_block_def get_with_name_def
        ext_get_def ext_insert_def ext_wf_def)
qed

lemma example_on_slot:
  "\<exists>sb w'. on_slot (aura_slot_worker example_aura_env) example_slot_info 2 example_aura_state = (Some (sb, []), w')
     \<and> block_timestamp (data (block sb)) = 2103 \<and> aura_handler w' = aura_handler example_aura_state"
proof -
  let ?w = "example_aura_state\<lparr>clock_index := 1\<rparr>"
  let ?dur = "min (from_millis 900 div 2) (from_millis 1000 div 2)"
  have rem: "aura_proposing_remaining example_aura_env example_slot_info example_aura_state = (?dur, ?w)"
    by (simp add: aura_proposing_remaining_def aura_tick_def proposing_remaining_duration_def example_aura_env_def
        example_slot_info_def example_aura_state_def from_millis_def)
  have peeked: "peek_latest_header example_aura_env (Some (integritee_trigger ?w)) = Ok None"
    by (simp add: peek_latest_header_def peek_latest_def peek_last_def example_aura_state_def new_dispatcher_def default_queue_def)
  have claim: "aura_claim_slot example_aura_env 2 [10, 11, 12] = Some 12"
    by (simp add: aura_claim_slot_def slot_author_def example_aura_env_def example_env_def)
  have imported: "snd (import_integritee_parentchain_blocks_until example_aura_env h ?w) = ?w" for h
    by (simp add: import_integritee_parentchain_blocks_until_def import_header_until_def import_until_def example_aura_state_def
        new_dispatcher_def default_queue_def pop_until_def pop_from_front_until_def drain_to_def run_importer_def
        example_aura_env_def)
  obtain sb w' where p: "propose_block example_aura_env 5 2 ?dur ?w = (Ok (sb, []), w')"
    "block_timestamp (data (block sb)) = of_nat (2102 + 1)" "aura_handler w' = aura_handler example_aura_state"
    using example_propose [of 5 ?dur 1] by blast
  have "timestamp_within_slot example_slot_info sb"
    by (simp add: timestamp_within_slot_def p(2) example_slot_info_def word_le_nat_alt Let_def)
  moreover have "?dur \<noteq> 0" by (simp add: from_millis_def)
  moreover have "current_validateers example_aura_env pch shard = Ok [10, 11, 12]" for pch shard
    by (simp add: example_aura_env_def)
  moreover have "peek_latest_header example_aura_env (target_a_trigger ?w) = Err ''no target assigned''"
    "peek_latest_header example_aura_env (target_b_trigger ?w) = Err ''no target assigned''"
    by (simp_all add: peek_latest_header_def example_aura_state_def)
  moreover have "info_slot example_slot_info = 2" "last_imported_integritee_parentchain_head example_slot_info = 5"
    by (simp_all add: example_slot_info_def)
  ultimately have "on_slot (aura_slot_worker example_aura_env) example_slot_info 2 example_aura_state = (Some (sb, []), w')"
    using peeked claim imported p(1)
    by (simp add: on_slot_def aura_slot_worker_def rem latest_target_header_def import_if_known_def Let_def)
  with p(2,3) show ?thesis by auto
qed

theorem aura_block_verifies_witness:
  "\<exists>sb w'. on_slot (aura_slot_worker example_aura_env) example_slot_info 2 example_aura_state = (Some (sb, []), w')
    \<and> (\<exists>pch. verify_sidechain_block (env_crypto example_chain) sb SLOT_DURATION None (of_nat pch) [10, 11, 12] = Some (Ok sb))"
proof -
  obtain sb w' where run: "on_slot (aura_slot_worker example_aura_env) example_slot_info 2 example_aura_state = (Some (sb, []), w')"
    and t: "block_timestamp (data (block sb)) = 2103" and h: "aura_handler w' = aura_handler example_aura_state"
    using example_on_slot by blast
  have env: "aura_chain example_aura_env = example_chain" "current_validateers example_aura_env = (\<lambda>_ _. Ok [10, 11, 12])"
    "aura_header_hash example_aura_env = of_nat" "claim_strategy example_aura_env = RoundRobin"
    by (simp_all add: example_aura_env_def)
  have none: "get_last_block pad_hashers block_scale (ext_new []) = None"
    by (simp add: get_last_block_def get_with_name_def ext_get_def ext_new_def)
  have "slot_window example_slot_info" "unat (2103 :: u64) < (unat (info_slot example_slot_info) + 1) * as_millis SLOT_DURATION"
    by (simp_all add: slot_window_def example_slot_info_def SLOT_DURATION_def)
  moreover have "shard_state w' 2 (ext_new [], 0)"
    by (simp add: h example_aura_state_def load_cloned_def execute_on_current_def example_handler_def)
  moreover have "signatures_verify (env_crypto example_chain)" by (simp add: signatures_verify_def example_env_def)
  ultimately show ?thesis
    using aura_block_verifies [OF run, of "[]" 0] run by (auto simp: env none t bt_wf_def example_stf_laws(2) [unfolded env(1)])
qed

theorem aura_block_replays_witness:
  "\<exists>sb w' r. propose_block example_aura_env 5 2 1000 example_aura_state = (Ok (sb, []), w')
    \<and> execute_pending example_aura_env 2 1000 example_aura_state = Ok r
    \<and> mutate_state example_chain () (block sb) (ext_new [])
      = Ok (set_last_block (env_crypto example_chain) pad_hashers block_scale (block sb) (ext_new (state (state_after_execution r))))"
proof -
  have w: "example_aura_state\<lparr>clock_index := 0\<rparr> = example_aura_state" by (simp add: example_aura_state_def)
  obtain sb w' where run: "propose_block example_aura_env 5 2 1000 example_aura_state = (Ok (sb, []), w')"
    using example_propose [of 5 1000 0] unfolding w by blast
  have env: "aura_chain example_aura_env = example_chain" by (simp add: example_aura_env_def)
  have "shard_state example_aura_state 2 (ext_new [], 0)"
    by (simp add: example_aura_state_def load_cloned_def execute_on_current_def example_handler_def)
  moreover have "dec_update example_chain (enc_update example_chain u) = Some u" for u
    by (simp add: example_chain_def state_update_codec)
  moreover have "encrypt example_chain k p = Some c \<Longrightarrow> decrypt example_chain k c = Some p" for k p c
    by (auto simp: example_chain_def example_env_def)
  ultimately show ?thesis
    using aura_block_replays [OF run, of "[]" "ext_new []" "()"] run by (simp add: env ext_new_def bt_wf_def)
qed

end
