(* ===== verification/Top_Future.thy ===== *)
theory Top_Future
  imports Ordered_Map
begin

text \<open>
  Operations of the trusted operation pool and the queue of operations that wait for others (core-primitives/top-pool,
  base_pool.rs and future.rs). An operation requires and provides tags; it waits in the future queue as long
  as some required tag is missing.

  The queue is a map from shards to the two indices of a shard. In the source these are two maps from
  shards; both gain a shard in the same call and never lose one. Hash sets are lists without
  repetition. The time of import of a waiting operation is written but never read, and left out.
\<close>

section \<open>Operations\<close>

type_synonym tag = bytes
type_synonym tx_hash = h256

datatype trusted_operation_source = InBlock | Local | External

record 'x pool_operation =
  op_data :: 'x
  op_bytes :: nat
  op_hash :: tx_hash
  op_priority :: u64
  valid_till :: u64
  op_requires :: "tag list"
  op_provides :: "tag list"
  op_propagate :: bool
  op_source :: trusted_operation_source

datatype pool_error =
    UnknownTrustedOperation
  | InvalidTrustedOperation
  | NoTagsProvided
  | TemporarilyBanned
  | AlreadyImported
  | TooLowPriority u64
  | CycleDetected
  | ImmediatelyDropped
  | InvalidBlockId
  | RejectedFutureTrustedOperation
  | VerificationError
  | FailedToSendUpdateToRpcClient string
  | UnlockError

record 'x waiting_operation =
  waiting_op :: "'x pool_operation"
  missing_tags :: "tag list"

definition waiting_new :: "'x pool_operation \<Rightarrow> (tag, tx_hash) hmap option \<Rightarrow> tag list list \<Rightarrow> 'x waiting_operation" where
  "waiting_new op provided recently_pruned =
     \<lparr>waiting_op = op,
      missing_tags = remdups (filter (\<lambda>t. \<not> ((\<exists>p\<in>set recently_pruned. t \<in> set p)
        \<or> (case provided of Some tags \<Rightarrow> hget tags t \<noteq> None | None \<Rightarrow> False))) (op_requires op))\<rparr>"

definition satisfy_tag :: "tag \<Rightarrow> 'x waiting_operation \<Rightarrow> 'x waiting_operation" where
  "satisfy_tag t w = w\<lparr>missing_tags := filter (\<lambda>x. x \<noteq> t) (missing_tags w)\<rparr>"

definition is_ready :: "'x waiting_operation \<Rightarrow> bool" where
  "is_ready w \<longleftrightarrow> missing_tags w = []"

section \<open>The future queue\<close>

record 'x future_shard =
  wanted_tags :: "(tag, tx_hash list) hmap"
  waiting :: "(tx_hash, 'x waiting_operation) hmap"

definition future_default :: "'x future_shard" where
  "future_default = \<lparr>wanted_tags = [], waiting = []\<rparr>"

definition hash_set_insert :: "'a \<Rightarrow> 'a list \<Rightarrow> 'a list" where
  "hash_set_insert x xs = (if x \<in> set xs then xs else xs @ [x])"

fun want_tags :: "tx_hash \<Rightarrow> tag list \<Rightarrow> (tag, tx_hash list) hmap \<Rightarrow> (tag, tx_hash list) hmap" where
  "want_tags h [] m = m"
| "want_tags h (t # ts) m =
     want_tags h ts (hput t (hash_set_insert h (case hget m t of Some hs \<Rightarrow> hs | None \<Rightarrow> [])) m)"

text \<open>The result \<^term>\<open>None\<close> is a failed assertion or a failed expect.\<close>

definition future_import :: "'x waiting_operation \<Rightarrow> 'x future_shard \<Rightarrow> 'x future_shard option" where
  "future_import w q =
     (if is_ready w \<or> hget (waiting q) (op_hash (waiting_op w)) \<noteq> None then None
      else Some (q\<lparr>wanted_tags := want_tags (op_hash (waiting_op w)) (missing_tags w) (wanted_tags q),
                   waiting := hput (op_hash (waiting_op w)) w (waiting q)\<rparr>))"

definition future_contains :: "tx_hash \<Rightarrow> 'x future_shard \<Rightarrow> bool" where
  "future_contains h q \<longleftrightarrow> hget (waiting q) h \<noteq> None"

definition future_by_hashes :: "tx_hash list \<Rightarrow> 'x future_shard \<Rightarrow> 'x pool_operation option list" where
  "future_by_hashes hs q = map (\<lambda>h. map_option waiting_op (hget (waiting q) h)) hs"

fun satisfy_waiting ::
  "tag \<Rightarrow> tx_hash list \<Rightarrow> (tx_hash, 'x waiting_operation) hmap
   \<Rightarrow> ('x waiting_operation list \<times> (tx_hash, 'x waiting_operation) hmap) option" where
  "satisfy_waiting t [] m = Some ([], m)"
| "satisfy_waiting t (h # hs) m =
     (case hget m h of
        None \<Rightarrow> None
      | Some w \<Rightarrow>
          (let w' = satisfy_tag t w
           in if is_ready w'
              then map_option (\<lambda>(ws, m'). (w' # ws, m')) (satisfy_waiting t hs (hdel h m))
              else satisfy_waiting t hs (hput h w' m)))"

fun satisfy_tags :: "tag list \<Rightarrow> 'x future_shard \<Rightarrow> ('x waiting_operation list \<times> 'x future_shard) option" where
  "satisfy_tags [] q = Some ([], q)"
| "satisfy_tags (t # ts) q =
     (case hget (wanted_tags q) t of
        None \<Rightarrow> satisfy_tags ts q
      | Some hs \<Rightarrow>
          (case satisfy_waiting t hs (waiting q) of
             None \<Rightarrow> None
           | Some (ws, m) \<Rightarrow>
               map_option (\<lambda>(ws', q'). (ws @ ws', q'))
                 (satisfy_tags ts (q\<lparr>wanted_tags := hdel t (wanted_tags q), waiting := m\<rparr>))))"

fun unwant_tags :: "tx_hash \<Rightarrow> tag list \<Rightarrow> (tag, tx_hash list) hmap \<Rightarrow> (tag, tx_hash list) hmap" where
  "unwant_tags h [] m = m"
| "unwant_tags h (t # ts) m =
     unwant_tags h ts
       (case hget m t of
          None \<Rightarrow> m
        | Some hs \<Rightarrow>
            (let hs' = filter (\<lambda>x. x \<noteq> h) hs in if hs' = [] then hdel t m else hput t hs' m))"

fun future_remove :: "tx_hash list \<Rightarrow> 'x future_shard \<Rightarrow> 'x pool_operation list \<times> 'x future_shard" where
  "future_remove [] q = ([], q)"
| "future_remove (h # hs) q =
     (case hget (waiting q) h of
        None \<Rightarrow> future_remove hs q
      | Some w \<Rightarrow>
          (case future_remove hs (q\<lparr>waiting := hdel h (waiting q), wanted_tags := unwant_tags h (missing_tags w) (wanted_tags q)\<rparr>) of
             (removed, q') \<Rightarrow> (waiting_op w # removed, q')))"

definition future_fold :: "('r option \<Rightarrow> 'x waiting_operation \<Rightarrow> 'r option) \<Rightarrow> 'x future_shard \<Rightarrow> 'r option" where
  "future_fold f q = foldl f None (map snd (waiting q))"

definition future_all :: "'x future_shard \<Rightarrow> 'x pool_operation list" where
  "future_all q = map (waiting_op \<circ> snd) (waiting q)"

definition future_clear :: "'x future_shard \<Rightarrow> 'x pool_operation list \<times> 'x future_shard" where
  "future_clear q = (future_all q, future_default)"

definition future_len :: "'x future_shard \<Rightarrow> nat" where
  "future_len q = length (waiting q)"

definition future_bytes :: "'x future_shard \<Rightarrow> nat" where
  "future_bytes q = sum_list (map op_bytes (future_all q))"

section \<open>Invariant\<close>

text \<open>Both indices of the queue are read as relations between hashes and tags; the invariant says that they are
  converse to each other.\<close>

definition wanting :: "(tag, tx_hash list) hmap \<Rightarrow> tag \<Rightarrow> tx_hash set" where
  "wanting m t = (case hget m t of None \<Rightarrow> {} | Some hs \<Rightarrow> set hs)"

definition awaited :: "(tx_hash, 'x waiting_operation) hmap \<Rightarrow> tx_hash \<Rightarrow> tag set" where
  "awaited m h = (case hget m h of None \<Rightarrow> {} | Some w \<Rightarrow> set (missing_tags w))"

abbreviation waiting_hashes :: "'x waiting_operation list \<Rightarrow> tx_hash list" where
  "waiting_hashes ws \<equiv> map (\<lambda>w. op_hash (waiting_op w)) ws"

definition waiting_wf :: "(tx_hash, 'x waiting_operation) hmap \<Rightarrow> bool" where
  "waiting_wf m \<longleftrightarrow> hwf m \<and> (\<forall>h w. hget m h = Some w \<longrightarrow> op_hash (waiting_op w) = h \<and> missing_tags w \<noteq> [])"

definition wanted_wf :: "(tag, tx_hash list) hmap \<Rightarrow> bool" where
  "wanted_wf m \<longleftrightarrow> hwf m \<and> (\<forall>t hs. hget m t = Some hs \<longrightarrow> distinct hs)"

definition future_wf :: "'x future_shard \<Rightarrow> bool" where
  "future_wf q \<longleftrightarrow> wanted_wf (wanted_tags q) \<and> waiting_wf (waiting q) \<and> (\<forall>t h. h \<in> wanting (wanted_tags q) t \<longleftrightarrow> t \<in> awaited (waiting q) h)"

lemma wanting_put [simp]: "wanting (hput t hs m) t' = (if t' = t then set hs else wanting m t')"
  by (simp add: wanting_def)

lemma wanting_del [simp]: "wanting (hdel t m) t' = (if t' = t then {} else wanting m t')"
  by (simp add: wanting_def)

lemma awaited_put [simp]: "awaited (hput h w m) h' = (if h' = h then set (missing_tags w) else awaited m h')"
  by (simp add: awaited_def)

lemma awaited_del [simp]: "awaited (hdel h m) h' = (if h' = h then {} else awaited m h')"
  by (simp add: awaited_def)

lemma wanted_wf_put: "wanted_wf m \<Longrightarrow> distinct hs \<Longrightarrow> wanted_wf (hput t hs m)"
  by (auto simp: wanted_wf_def)

lemma wanted_wf_del: "wanted_wf m \<Longrightarrow> wanted_wf (hdel t m)"
  by (auto simp: wanted_wf_def)

lemma waiting_wf_put:
  "waiting_wf m \<Longrightarrow> op_hash (waiting_op w) = h \<Longrightarrow> missing_tags w \<noteq> [] \<Longrightarrow> waiting_wf (hput h w m)"
  by (simp add: waiting_wf_def)

lemma waiting_wf_del: "waiting_wf m \<Longrightarrow> waiting_wf (hdel h m)"
  by (simp add: waiting_wf_def)

lemma future_wf_conv: "future_wf q \<Longrightarrow> h \<in> wanting (wanted_tags q) t \<longleftrightarrow> t \<in> awaited (waiting q) h"
  by (simp add: future_wf_def)

lemma future_wf_default [simp]: "future_wf future_default"
  by (simp add: future_wf_def future_default_def waiting_wf_def wanted_wf_def wanting_def awaited_def)

subsection \<open>Import\<close>

lemma want_tags_wf:
  assumes "wanted_wf m"
  shows "wanted_wf (want_tags h ts m) \<and> (\<forall>t. wanting (want_tags h ts m) t = wanting m t \<union> (if t \<in> set ts then {h} else {}))"
  using assms
proof (induction ts arbitrary: m)
  case (Cons t ts)
  let ?hs = "hash_set_insert h (case hget m t of Some hs \<Rightarrow> hs | None \<Rightarrow> [])"
  have "distinct ?hs" "set ?hs = wanting m t \<union> {h}"
    using Cons.prems by (cases "hget m t"; auto simp: hash_set_insert_def wanting_def wanted_wf_def)+
  then show ?case using Cons.IH [of "hput t ?hs m"] Cons.prems by (auto simp: wanted_wf_put)
qed simp

lemma future_import_wf:
  assumes "future_wf q" "\<not> is_ready w" "\<not> future_contains (op_hash (waiting_op w)) q"
  obtains q' where "future_import w q = Some q'" "future_wf q'" "waiting q' = hput (op_hash (waiting_op w)) w (waiting q)"
proof -
  let ?h = "op_hash (waiting_op w)"
  let ?q = "q\<lparr>wanted_tags := want_tags ?h (missing_tags w) (wanted_tags q), waiting := hput ?h w (waiting q)\<rparr>"
  have wf: "wanted_wf (wanted_tags q)" "waiting_wf (waiting q)"
    and conv: "\<And>t h. h \<in> wanting (wanted_tags q) t \<longleftrightarrow> t \<in> awaited (waiting q) h"
    using assms(1) by (simp_all add: future_wf_def)
  note W = want_tags_wf [OF wf(1), of ?h "missing_tags w"]
  have none: "awaited (waiting q) ?h = {}" using assms(3) by (simp add: future_contains_def awaited_def)
  have "h \<in> wanting (wanted_tags ?q) t \<longleftrightarrow> t \<in> awaited (waiting ?q) h" for t h
    using W none conv by auto
  then have "future_wf ?q"
    using assms(2) W wf by (simp add: future_wf_def waiting_wf_put is_ready_def)
  then show ?thesis
    using assms(2,3) by (intro that [of ?q]) (simp_all add: future_import_def future_contains_def)
qed

subsection \<open>Satisfying tags\<close>

definition still_missing :: "tag set \<Rightarrow> 'x waiting_operation \<Rightarrow> 'x waiting_operation" where
  "still_missing T w = w\<lparr>missing_tags := filter (\<lambda>t. t \<notin> T) (missing_tags w)\<rparr>"

lemma still_missing_tag: "still_missing {t} w = satisfy_tag t w"
  by (simp add: still_missing_def satisfy_tag_def)

lemma still_missing_simps [simp]:
  "waiting_op (still_missing T w) = waiting_op w" "missing_tags (still_missing T w) = filter (\<lambda>t. t \<notin> T) (missing_tags w)"
  "still_missing T (still_missing S w) = still_missing (S \<union> T) w"
  by (simp_all add: still_missing_def conj_commute)

lemma still_missing_none: "set (missing_tags w) \<inter> T = {} \<Longrightarrow> still_missing T w = w"
  by (cases w) (auto simp: still_missing_def filter_id_conv)

lemma still_missing_ready: "set (missing_tags w) \<subseteq> T \<Longrightarrow> still_missing T w = w\<lparr>missing_tags := []\<rparr>"
  by (auto simp: still_missing_def filter_empty_conv intro!: arg_cong [where f = "\<lambda>x. w\<lparr>missing_tags := x\<rparr>"])

lemma is_ready_still_missing: "is_ready (still_missing T w) \<longleftrightarrow> set (missing_tags w) \<subseteq> T"
  by (auto simp: is_ready_def filter_empty_conv)

text \<open>The operations that become ready, and what is left of the map of waiting operations.\<close>

definition released :: "tag set \<Rightarrow> (tx_hash, 'x waiting_operation) hmap \<Rightarrow> 'x waiting_operation set" where
  "released T m = {still_missing T w | h w. hget m h = Some w \<and> set (missing_tags w) \<subseteq> T}"

definition retained :: "tag set \<Rightarrow> (tx_hash, 'x waiting_operation) hmap \<Rightarrow> tx_hash \<Rightarrow> 'x waiting_operation option" where
  "retained T m h =
     (case hget m h of
        None \<Rightarrow> None
      | Some w \<Rightarrow> if set (missing_tags w) \<subseteq> T then None else Some (still_missing T w))"

lemma satisfy_waiting_spec:
  assumes "distinct hs" "waiting_wf m" "\<forall>h\<in>set hs. hget m h \<noteq> None"
  shows "\<exists>ws m'. satisfy_waiting t hs m = Some (ws, m') \<and> waiting_wf m'
    \<and> (\<forall>h. hget m' h = (if h \<in> set hs then retained {t} m h else hget m h))
    \<and> set ws = {still_missing {t} w | h w. h \<in> set hs \<and> hget m h = Some w \<and> set (missing_tags w) \<subseteq> {t}}
    \<and> distinct (waiting_hashes ws)"
  using assms
proof (induction hs arbitrary: m)
  case (Cons h hs)
  obtain w where w: "hget m h = Some w" using Cons.prems(3) by auto
  have key: "op_hash (waiting_op w) = h" using Cons.prems(2) w by (simp add: waiting_wf_def)
  let ?w = "satisfy_tag t w"
  show ?case
  proof (cases "set (missing_tags w) \<subseteq> {t}")
    case True
    then have r: "is_ready ?w" by (simp add: is_ready_still_missing flip: still_missing_tag)
    have prem: "distinct hs" "waiting_wf (hdel h m)" "\<forall>k\<in>set hs. hget (hdel h m) k \<noteq> None"
      using Cons.prems waiting_wf_del by auto
    obtain ws m' where IH: "satisfy_waiting t hs (hdel h m) = Some (ws, m')" "waiting_wf m'"
      "\<forall>k. hget m' k = (if k \<in> set hs then retained {t} (hdel h m) k else hget (hdel h m) k)"
      "set ws = {still_missing {t} v | k v. k \<in> set hs \<and> hget (hdel h m) k = Some v \<and> set (missing_tags v) \<subseteq> {t}}"
      "distinct (waiting_hashes ws)"
      using Cons.IH [OF prem] by blast
    have "set (?w # ws) = {still_missing {t} v | k v. k \<in> set (h # hs) \<and> hget m k = Some v \<and> set (missing_tags v) \<subseteq> {t}}"
      using IH(4) w True Cons.prems(1) by (auto simp: still_missing_tag split: if_splits)
    moreover have "h \<notin> set (waiting_hashes ws)"
      using IH(4) Cons.prems(2) by (auto simp: waiting_wf_def split: if_splits)
    moreover have "\<forall>k. hget m' k = (if k \<in> set (h # hs) then retained {t} m k else hget m k)"
      using IH(3) w True Cons.prems(1) by (auto simp: retained_def)
    ultimately show ?thesis
      using IH(1,2,5) w r key by (auto simp: satisfy_tag_def)
  next
    case False
    then have r: "\<not> is_ready ?w" by (simp add: is_ready_still_missing flip: still_missing_tag)
    have wf: "waiting_wf (hput h ?w m)"
      using Cons.prems(2) key r by (intro waiting_wf_put) (simp_all add: satisfy_tag_def is_ready_def)
    have prem: "distinct hs" "\<forall>k\<in>set hs. hget (hput h ?w m) k \<noteq> None" using Cons.prems by auto
    obtain ws m' where IH: "satisfy_waiting t hs (hput h ?w m) = Some (ws, m')" "waiting_wf m'"
      "\<forall>k. hget m' k = (if k \<in> set hs then retained {t} (hput h ?w m) k else hget (hput h ?w m) k)"
      "set ws = {still_missing {t} v | k v. k \<in> set hs \<and> hget (hput h ?w m) k = Some v \<and> set (missing_tags v) \<subseteq> {t}}"
      "distinct (waiting_hashes ws)"
      using Cons.IH [OF prem(1) wf prem(2)] by blast
    have "set ws = {still_missing {t} v | k v. k \<in> set (h # hs) \<and> hget m k = Some v \<and> set (missing_tags v) \<subseteq> {t}}"
      using IH(4) w False Cons.prems(1) by (auto split: if_splits)
    moreover have "\<forall>k. hget m' k = (if k \<in> set (h # hs) then retained {t} m k else hget m k)"
      using IH(3) w False Cons.prems(1) by (auto simp: retained_def still_missing_tag)
    ultimately show ?thesis
      using IH(1,2,5) w r by auto
  qed
qed auto

lemma satisfy_one_tag:
  assumes "future_wf q" "hget (wanted_tags q) t = Some hs"
  obtains ws m where "satisfy_waiting t hs (waiting q) = Some (ws, m)"
    "future_wf (q\<lparr>wanted_tags := hdel t (wanted_tags q), waiting := m\<rparr>)"
    "\<forall>h. hget m h = retained {t} (waiting q) h" "set ws = released {t} (waiting q)"
    "distinct (waiting_hashes ws)"
proof -
  have hs: "distinct hs" "\<And>h. h \<in> set hs \<longleftrightarrow> t \<in> awaited (waiting q) h"
  proof -
    have "wanting (wanted_tags q) t = set hs" by (simp add: wanting_def assms(2))
    then show "h \<in> set hs \<longleftrightarrow> t \<in> awaited (waiting q) h" for h using assms(1) unfolding future_wf_def by blast
    show "distinct hs" using assms unfolding future_wf_def wanted_wf_def by blast
  qed
  have ne: "\<And>h w. hget (waiting q) h = Some w \<Longrightarrow> missing_tags w \<noteq> []"
    using assms(1) by (simp add: future_wf_def waiting_wf_def)
  have wf: "waiting_wf (waiting q)" using assms(1) by (simp add: future_wf_def)
  have present: "\<forall>h\<in>set hs. hget (waiting q) h \<noteq> None" using hs(2) by (auto simp: awaited_def split: option.splits)
  obtain ws m where S: "satisfy_waiting t hs (waiting q) = Some (ws, m)" "waiting_wf m"
    "\<forall>h. hget m h = (if h \<in> set hs then retained {t} (waiting q) h else hget (waiting q) h)"
    "set ws = {still_missing {t} w | h w. h \<in> set hs \<and> hget (waiting q) h = Some w \<and> set (missing_tags w) \<subseteq> {t}}"
    "distinct (waiting_hashes ws)"
    using satisfy_waiting_spec [OF hs(1) wf present, of t] by blast
  have m: "hget m h = retained {t} (waiting q) h" for h
    using S(3) hs(2) [of h] ne [of h]
    by (auto simp: retained_def awaited_def still_missing_none subset_singleton_iff split: option.splits)
  have ws: "set ws = released {t} (waiting q)"
    unfolding S(4) released_def using hs(2) ne by (fastforce simp: awaited_def subset_singleton_iff split: option.splits)
  have aw: "awaited m h = awaited (waiting q) h - {t}" for h
    by (auto simp: awaited_def m retained_def split: option.splits)
  have "future_wf (q\<lparr>wanted_tags := hdel t (wanted_tags q), waiting := m\<rparr>)"
    using assms(1) S(2) by (simp add: future_wf_def wanted_wf_del aw)
  with S m ws that show ?thesis by blast
qed

lemma retained_twice:
  assumes "\<forall>h. hget m h = retained S n h"
  shows "retained T m h = retained (S \<union> T) n h"
  using assms by (auto simp: retained_def split: option.split)

lemma released_twice:
  assumes "\<forall>h. hget m h = retained S n h"
  shows "released (S \<union> T) n = released S n \<union> released T m"
proof (intro equalityI subsetI)
  fix v assume "v \<in> released (S \<union> T) n"
  then obtain h w where w: "v = still_missing (S \<union> T) w" "hget n h = Some w" "set (missing_tags w) \<subseteq> S \<union> T"
    by (auto simp: released_def)
  show "v \<in> released S n \<union> released T m"
  proof (cases "set (missing_tags w) \<subseteq> S")
    case True
    then have "v = still_missing S w" using w(1,3) by (simp add: still_missing_ready)
    with True w(2) show ?thesis by (auto simp: released_def)
  next
    case False
    then have "hget m h = Some (still_missing S w)" using assms w(2) by (simp add: retained_def)
    then show ?thesis using w by (auto simp: released_def intro!: exI [of _ h] exI [of _ "still_missing S w"])
  qed
next
  fix v assume "v \<in> released S n \<union> released T m"
  then show "v \<in> released (S \<union> T) n"
  proof
    assume "v \<in> released S n"
    then obtain h w where w: "v = still_missing S w" "hget n h = Some w" "set (missing_tags w) \<subseteq> S"
      by (auto simp: released_def)
    then have "v = still_missing (S \<union> T) w" by (simp add: still_missing_ready le_supI1)
    with w(2,3) show ?thesis unfolding released_def by blast
  next
    assume "v \<in> released T m"
    then obtain h w where w: "v = still_missing T w" "hget m h = Some w" "set (missing_tags w) \<subseteq> T"
      by (auto simp: released_def)
    then obtain u where "hget n h = Some u" "w = still_missing S u"
      using assms by (auto simp: retained_def split: option.splits if_splits)
    then show ?thesis using w by (auto simp: released_def intro!: exI [of _ h] exI [of _ u])
  qed
qed

lemma satisfy_tags_wf:
  assumes "future_wf q"
  shows "\<exists>ws q'. satisfy_tags ts q = Some (ws, q') \<and> future_wf q' \<and> set ws = released (set ts) (waiting q)
    \<and> distinct (waiting_hashes ws) \<and> (\<forall>h. hget (waiting q') h = retained (set ts) (waiting q) h)"
  using assms
proof (induction ts arbitrary: q)
  case Nil
  have "missing_tags w \<noteq> []" if "hget (waiting q) h = Some w" for h w
    using Nil that by (simp add: future_wf_def waiting_wf_def)
  then have "released {} (waiting q) = {}" "retained {} (waiting q) h = hget (waiting q) h" for h
    by (auto simp: released_def retained_def still_missing_none split: option.split)
  then show ?case using Nil by simp
next
  case (Cons t ts)
  obtain ws1 q1 where q1: "future_wf q1" "set ws1 = released {t} (waiting q)" "distinct (waiting_hashes ws1)"
    "\<forall>h. hget (waiting q1) h = retained {t} (waiting q) h"
    "satisfy_tags (t # ts) q = map_option (\<lambda>(ws', q'). (ws1 @ ws', q')) (satisfy_tags ts q1)"
  proof (cases "hget (wanted_tags q) t")
    case None
    then have none: "t \<notin> awaited (waiting q) h" for h
      using future_wf_conv [OF Cons.prems, of h t] by (simp add: wanting_def)
    then have "t \<notin> set (missing_tags w)" "\<not> set (missing_tags w) \<subseteq> {t}" if "hget (waiting q) h = Some w" for h w
      using that Cons.prems none [of h] by (auto simp: awaited_def future_wf_def waiting_wf_def subset_singleton_iff)
    then have "released {t} (waiting q) = {}" "retained {t} (waiting q) h = hget (waiting q) h" for h
      by (auto simp: released_def retained_def still_missing_none split: option.split)
    then show ?thesis
      using None Cons.prems by (intro that [of q "[]"]) (simp_all add: option.map_ident case_prod_beta')
  next
    case (Some hs)
    obtain ws m where "satisfy_waiting t hs (waiting q) = Some (ws, m)"
      "future_wf (q\<lparr>wanted_tags := hdel t (wanted_tags q), waiting := m\<rparr>)"
      "\<forall>h. hget m h = retained {t} (waiting q) h" "set ws = released {t} (waiting q)" "distinct (waiting_hashes ws)"
      by (rule satisfy_one_tag [OF Cons.prems Some])
    then show ?thesis
      using Some by (intro that [of "q\<lparr>wanted_tags := hdel t (wanted_tags q), waiting := m\<rparr>" ws]) simp_all
  qed
  obtain ws2 q2 where q2: "satisfy_tags ts q1 = Some (ws2, q2)" "future_wf q2" "set ws2 = released (set ts) (waiting q1)"
    "distinct (waiting_hashes ws2)" "\<forall>h. hget (waiting q2) h = retained (set ts) (waiting q1) h"
    using Cons.IH [OF q1(1)] by blast
  have keys: "\<exists>w'. hget m (op_hash (waiting_op w)) = Some w' \<and> set (missing_tags w') \<subseteq> T"
    if "w \<in> released T m" "waiting_wf m" for w T and m :: "(tx_hash, 'a waiting_operation) hmap"
    using that by (auto simp: released_def waiting_wf_def)
  have "set (waiting_hashes ws1) \<inter> set (waiting_hashes ws2) = {}"
  proof -
    have "retained {t} (waiting q) h = None" if "h \<in> set (waiting_hashes ws1)" for h
      using that q1(2) keys [of _ "{t}" "waiting q"] Cons.prems by (fastforce simp: retained_def future_wf_def)
    moreover have "hget (waiting q1) h \<noteq> None" if "h \<in> set (waiting_hashes ws2)" for h
      using that q2(3) keys [of _ "set ts" "waiting q1"] q1(1) by (fastforce simp: future_wf_def)
    ultimately show ?thesis using q1(4) by fastforce
  qed
  then have "distinct (waiting_hashes (ws1 @ ws2))" using q1(3) q2(4) by simp
  moreover have "set (ws1 @ ws2) = released (set (t # ts)) (waiting q)"
    using q1(2) q2(3) released_twice [OF q1(4), of "set ts"] by simp
  moreover have "\<forall>h. hget (waiting q2) h = retained (set (t # ts)) (waiting q) h"
    using q2(5) retained_twice [OF q1(4), of "set ts"] by simp
  ultimately show ?case using q1(5) q2(1,2) by auto
qed

subsection \<open>Removal\<close>

lemma unwant_tags_wf:
  assumes "wanted_wf m"
  shows "wanted_wf (unwant_tags h ts m) \<and> (\<forall>t. wanting (unwant_tags h ts m) t = wanting m t - (if t \<in> set ts then {h} else {}))"
  using assms
proof (induction ts arbitrary: m)
  case (Cons t ts)
  let ?m = "case hget m t of None \<Rightarrow> m | Some hs \<Rightarrow> (let hs' = filter (\<lambda>x. x \<noteq> h) hs in if hs' = [] then hdel t m else hput t hs' m)"
  have "wanted_wf ?m \<and> (\<forall>u. wanting ?m u = wanting m u - (if u = t then {h} else {}))"
  proof (cases "hget m t")
    case None
    then show ?thesis using Cons.prems by (simp add: wanting_def)
  next
    case (Some hs)
    have "distinct hs" using Cons.prems Some unfolding wanted_wf_def by blast
    moreover have "wanting m t = set hs" by (simp add: wanting_def Some)
    ultimately show ?thesis
      using Cons.prems Some by (auto simp: Let_def wanted_wf_put wanted_wf_del filter_empty_conv)
  qed
  with Cons.IH [of ?m] show ?case by auto
qed simp

lemma future_remove_wf:
  assumes "future_wf q" "future_remove hs q = (removed, q')"
  shows "future_wf q' \<and> (\<forall>h. hget (waiting q') h = (if h \<in> set hs then None else hget (waiting q) h))
    \<and> set removed = {waiting_op w | h w. h \<in> set hs \<and> hget (waiting q) h = Some w}"
  using assms
proof (induction hs arbitrary: q removed)
  case (Cons h hs)
  show ?case
  proof (cases "hget (waiting q) h")
    case None
    then show ?thesis using Cons.IH [of q removed] Cons.prems by auto
  next
    case (Some w)
    let ?q = "q\<lparr>waiting := hdel h (waiting q), wanted_tags := unwant_tags h (missing_tags w) (wanted_tags q)\<rparr>"
    have wf: "wanted_wf (wanted_tags q)" "waiting_wf (waiting q)"
      and conv: "\<And>t h. h \<in> wanting (wanted_tags q) t \<longleftrightarrow> t \<in> awaited (waiting q) h"
      using Cons.prems(1) by (simp_all add: future_wf_def)
    note U = unwant_tags_wf [OF wf(1), of h "missing_tags w"]
    have "awaited (waiting q) h = set (missing_tags w)" by (simp add: awaited_def Some)
    then have "k \<in> wanting (wanted_tags ?q) t \<longleftrightarrow> t \<in> awaited (waiting ?q) k" for t k
      using U conv by auto
    then have wf': "future_wf ?q" using U wf by (simp add: future_wf_def waiting_wf_del)
    obtain rem where rem: "future_remove hs ?q = (rem, q')" "removed = waiting_op w # rem"
      using Cons.prems(2) Some by (auto split: prod.splits)
    have "{waiting_op v | k v. k \<in> set (h # hs) \<and> hget (waiting q) k = Some v}
        = insert (waiting_op w) {waiting_op v | k v. k \<in> set hs \<and> hget (hdel h (waiting q)) k = Some v}"
      using Some by (auto split: if_splits) (metis option.inject)
    with Cons.IH [OF wf' rem(1)] rem(2) show ?thesis by simp
  qed
qed simp

end
