(* ===== verification/Top_Ready.thy ===== *)
theory Top_Ready
  imports Top_Future
begin

text \<open>
  The ready queue of the trusted operation pool (core-primitives/top-pool, ready.rs and tracked_map.rs): operations
  whose required tags are all provided, linked to the operations they unlock, and the iterator that
  returns them in order of their dependencies and priorities.

  The queue is a map from shards to the four indices of a shard, which in the source are four maps from
  shards that gain a shard in the same call and never lose one. A BTreeSet of operation references is a
  list without two references of equal rank; only its greatest element is ever looked at. The tracked
  sizes are integers: their atomic counters do not wrap for queues that fit into memory.
\<close>

section \<open>Tracked maps\<close>

record ('k, 'v) tracked_map =
  index :: "('k, 'v) hmap"
  tracked_bytes :: int
  tracked_length :: int

definition tm_default :: "('k, 'v) tracked_map" where
  "tm_default = \<lparr>index = [], tracked_bytes = 0, tracked_length = 0\<rparr>"

definition tm_len :: "('k, 'v) tracked_map \<Rightarrow> nat" where
  "tm_len m = nat (max (tracked_length m) 0)"

definition tm_is_empty :: "('k, 'v) tracked_map \<Rightarrow> bool" where
  "tm_is_empty m \<longleftrightarrow> tracked_length m = 0"

definition tm_bytes :: "('k, 'v) tracked_map \<Rightarrow> nat" where
  "tm_bytes m = nat (max (tracked_bytes m) 0)"

definition tm_insert :: "('v \<Rightarrow> nat) \<Rightarrow> 'k \<Rightarrow> 'v \<Rightarrow> ('k, 'v) tracked_map \<Rightarrow> 'v option \<times> ('k, 'v) tracked_map" where
  "tm_insert size_of k v m =
     (let m' = m\<lparr>index := hput k v (index m), tracked_bytes := tracked_bytes m + int (size_of v),
                 tracked_length := tracked_length m + 1\<rparr>
      in case hget (index m) k of
           None \<Rightarrow> (None, m')
         | Some old \<Rightarrow> (Some old, m'\<lparr>tracked_bytes := tracked_bytes m' - int (size_of old),
                                     tracked_length := tracked_length m' - 1\<rparr>))"

definition tm_remove :: "('v \<Rightarrow> nat) \<Rightarrow> 'k \<Rightarrow> ('k, 'v) tracked_map \<Rightarrow> 'v option \<times> ('k, 'v) tracked_map" where
  "tm_remove size_of k m =
     (case hget (index m) k of
        None \<Rightarrow> (None, m)
      | Some v \<Rightarrow> (Some v, \<lparr>index = hdel k (index m), tracked_bytes = tracked_bytes m - int (size_of v),
                           tracked_length = tracked_length m - 1\<rparr>))"

definition tm_modify :: "'k \<Rightarrow> ('v \<Rightarrow> 'v) \<Rightarrow> ('k, 'v) tracked_map \<Rightarrow> ('k, 'v) tracked_map" where
  "tm_modify k f m = (case hget (index m) k of None \<Rightarrow> m | Some v \<Rightarrow> m\<lparr>index := hput k (f v) (index m)\<rparr>)"

section \<open>References and the queue\<close>

record 'x operation_ref =
  ref_op :: "'x pool_operation"
  insertion_id :: u64

definition ref_less :: "'x operation_ref \<Rightarrow> 'x operation_ref \<Rightarrow> bool" where
  "ref_less a b \<longleftrightarrow> op_priority (ref_op a) < op_priority (ref_op b)
     \<or> op_priority (ref_op a) = op_priority (ref_op b)
       \<and> (valid_till (ref_op b) < valid_till (ref_op a)
          \<or> valid_till (ref_op b) = valid_till (ref_op a) \<and> insertion_id b < insertion_id a)"

definition ref_eq :: "'x operation_ref \<Rightarrow> 'x operation_ref \<Rightarrow> bool" where
  "ref_eq a b \<longleftrightarrow> op_priority (ref_op a) = op_priority (ref_op b) \<and> valid_till (ref_op a) = valid_till (ref_op b)
     \<and> insertion_id a = insertion_id b"

definition best_insert :: "'x operation_ref \<Rightarrow> 'x operation_ref list \<Rightarrow> 'x operation_ref list" where
  "best_insert r s = (if \<exists>x\<in>set s. ref_eq r x then s else r # s)"

definition best_remove :: "'x operation_ref \<Rightarrow> 'x operation_ref list \<Rightarrow> 'x operation_ref list" where
  "best_remove r s = filter (\<lambda>x. \<not> ref_eq r x) s"

fun best_max :: "'x operation_ref list \<Rightarrow> 'x operation_ref option" where
  "best_max [] = None"
| "best_max (r # s) = (case best_max s of None \<Rightarrow> Some r | Some x \<Rightarrow> if ref_less r x then Some x else Some r)"

record 'x ready_tx =
  tx_ref :: "'x operation_ref"
  unlocks :: "tx_hash list"
  requires_offset :: nat

abbreviation tx_op :: "'x ready_tx \<Rightarrow> 'x pool_operation" where
  "tx_op tx \<equiv> ref_op (tx_ref tx)"

definition ready_tx_size :: "'x ready_tx \<Rightarrow> nat" where
  "ready_tx_size tx = op_bytes (tx_op tx)"

type_synonym 'x ready_index = "(tx_hash, 'x ready_tx) tracked_map"

record 'x ready_shard =
  last_insertion_id :: u64
  provided_tags :: "(tag, tx_hash) hmap"
  ready_map :: "'x ready_index"
  best_set :: "'x operation_ref list"

definition ready_default :: "'x ready_shard" where
  "ready_default = \<lparr>last_insertion_id = 0, provided_tags = [], ready_map = tm_default, best_set = []\<rparr>"

definition remove_item :: "'a \<Rightarrow> 'a list \<Rightarrow> 'a list" where
  "remove_item x xs = (case position (\<lambda>y. y = x) xs of None \<Rightarrow> xs | Some i \<Rightarrow> swap_remove i xs)"

section \<open>Removing operations with what depends on them\<close>

definition invalidated :: "tag list option \<Rightarrow> 'x pool_operation \<Rightarrow> tag list" where
  "invalidated filt op = filter (\<lambda>t. case filt of Some f \<Rightarrow> t \<notin> set f | None \<Rightarrow> True) (op_provides op)"

text \<open>The loop variable of the source shadows the hash of the removed operation: the hash taken out of the list
  of unlocked operations is that of the providing operation itself.\<close>

fun unlink_required :: "tag list \<Rightarrow> (tag, tx_hash) hmap \<Rightarrow> 'x ready_index \<Rightarrow> 'x ready_index" where
  "unlink_required [] tags m = m"
| "unlink_required (t # ts) tags m =
     unlink_required ts tags
       (case hget tags t of
          None \<Rightarrow> m
        | Some h \<Rightarrow> tm_modify h (\<lambda>tx. tx\<lparr>unlocks := remove_item h (unlocks tx)\<rparr>) m)"

lemma length_tm_modify [simp]: "length (index (tm_modify k f m)) = length (index m)"
  by (simp add: tm_modify_def length_hput split: option.split)

lemma length_unlink_required [simp]: "length (index (unlink_required ts tags m)) = length (index m)"
  by (induction ts arbitrary: m) (simp_all split: option.split)

text \<open>The vector the source pops from is kept with its last element first.\<close>

function remove_subtree_loop ::
  "tag list option \<Rightarrow> tx_hash list \<Rightarrow> 'x ready_shard \<Rightarrow> 'x pool_operation list \<times> 'x ready_shard" where
  "remove_subtree_loop filt [] s = ([], s)"
| "remove_subtree_loop filt (h # stack) s =
     (case hget (index (ready_map s)) h of
        None \<Rightarrow> remove_subtree_loop filt stack s
      | Some tx \<Rightarrow>
          (let m = snd (tm_remove ready_tx_size h (ready_map s));
               tags = fold hdel (invalidated filt (tx_op tx)) (provided_tags s);
               s' = s\<lparr>provided_tags := tags, ready_map := unlink_required (op_requires (tx_op tx)) tags m,
                      best_set := best_remove (tx_ref tx) (best_set s)\<rparr>;
               stack' = (if invalidated filt (tx_op tx) = [] then stack else rev (unlocks tx) @ stack)
           in case remove_subtree_loop filt stack' s' of (removed, s'') \<Rightarrow> (tx_op tx # removed, s'')))"
  by pat_completeness auto
termination
proof (relation "measures [\<lambda>(_, _, s). length (index (ready_map s)), \<lambda>(_, stack, _). length stack]", goal_cases)
  case (3 filt h stack s tx m tags s' stack')
  then show ?case by (simp add: tm_remove_def length_hdel_less)
qed simp_all

definition remove_subtree_with_tag_filter ::
  "tx_hash list \<Rightarrow> tag list option \<Rightarrow> 'x ready_shard \<Rightarrow> 'x pool_operation list \<times> 'x ready_shard" where
  "remove_subtree_with_tag_filter to_remove filt s = remove_subtree_loop filt (rev to_remove) s"

definition ready_remove_subtree :: "tx_hash list \<Rightarrow> 'x ready_shard \<Rightarrow> 'x pool_operation list \<times> 'x ready_shard" where
  "ready_remove_subtree hs s = remove_subtree_with_tag_filter hs None s"

section \<open>Importing an operation\<close>

definition replace_previous ::
  "'x pool_operation \<Rightarrow> 'x ready_shard
   \<Rightarrow> (pool_error, 'x pool_operation list \<times> tx_hash list) result \<times> 'x ready_shard" where
  "replace_previous op s =
     (let replace_hashes = remdups (List.map_filter (hget (provided_tags s)) (op_provides op));
          txs = List.map_filter (hget (index (ready_map s))) replace_hashes
      in if replace_hashes = [] then (Ok ([], []), s)
         else if foldl (\<lambda>total tx. saturating_add total (op_priority (tx_op tx))) 0 txs \<ge> op_priority op
         then (Err (TooLowPriority (op_priority op)), s)
         else case remove_subtree_with_tag_filter replace_hashes (Some (op_provides op)) s of
                (removed, s') \<Rightarrow> (Ok (removed, concat (map unlocks txs)), s'))"

fun link_required ::
  "tx_hash \<Rightarrow> tag list \<Rightarrow> (tag, tx_hash) hmap \<Rightarrow> 'x ready_index \<Rightarrow> (bool \<times> nat \<times> 'x ready_index) option" where
  "link_required h [] tags m = Some (True, 0, m)"
| "link_required h (t # ts) tags m =
     (case hget tags t of
        None \<Rightarrow> map_option (\<lambda>(goes_to_best, offset, m'). (goes_to_best, Suc offset, m')) (link_required h ts tags m)
      | Some other \<Rightarrow>
          if hget (index m) other = None then None
          else map_option (\<lambda>(_, offset, m'). (False, offset, m'))
                 (link_required h ts tags (tm_modify other (\<lambda>tx. tx\<lparr>unlocks := unlocks tx @ [h]\<rparr>) m)))"

definition ready_import ::
  "'x waiting_operation \<Rightarrow> 'x ready_shard \<Rightarrow> ((pool_error, 'x pool_operation list) result \<times> 'x ready_shard) option" where
  "ready_import w s0 =
     (let op = waiting_op w; h = op_hash op
      in if \<not> is_ready w \<or> hget (index (ready_map s0)) h \<noteq> None then None
         else let s1 = s0\<lparr>last_insertion_id := last_insertion_id s0 + 1\<rparr>
              in case replace_previous op s1 of
                   (Err e, s) \<Rightarrow> Some (Err e, s)
                 | (Ok (replaced, unlocked), s) \<Rightarrow>
                     (case link_required h (op_requires op) (provided_tags s) (ready_map s) of
                        None \<Rightarrow> None
                      | Some (goes_to_best, offset, m) \<Rightarrow>
                          let r = \<lparr>ref_op = op, insertion_id = last_insertion_id s1\<rparr>
                          in Some (Ok replaced,
                               s\<lparr>provided_tags := fold (\<lambda>t. hput t h) (op_provides op) (provided_tags s),
                                 best_set := (if goes_to_best then best_insert r (best_set s) else best_set s),
                                 ready_map := snd (tm_insert ready_tx_size h
                                   \<lparr>tx_ref = r, unlocks = unlocked, requires_offset = offset\<rparr> m)\<rparr>)))"

definition ready_fold :: "('r option \<Rightarrow> 'x ready_tx \<Rightarrow> 'r option) \<Rightarrow> 'x ready_shard \<Rightarrow> 'r option" where
  "ready_fold f s = foldl f None (map snd (index (ready_map s)))"

definition ready_contains :: "tx_hash \<Rightarrow> 'x ready_shard \<Rightarrow> bool" where
  "ready_contains h s \<longleftrightarrow> hget (index (ready_map s)) h \<noteq> None"

definition ready_by_hashes :: "tx_hash list \<Rightarrow> 'x ready_shard \<Rightarrow> 'x pool_operation option list" where
  "ready_by_hashes hs s = map (\<lambda>h. map_option tx_op (hget (index (ready_map s)) h)) hs"

definition ready_len :: "'x ready_shard \<Rightarrow> nat" where
  "ready_len s = tm_len (ready_map s)"

definition ready_bytes :: "'x ready_shard \<Rightarrow> nat" where
  "ready_bytes s = tm_bytes (ready_map s)"

section \<open>Pruning tags\<close>

fun find_previous ::
  "tx_hash \<Rightarrow> tag list \<Rightarrow> (tag, tx_hash) hmap \<Rightarrow> 'x ready_index \<Rightarrow> tag list \<times> 'x ready_index" where
  "find_previous h [] tags m = ([], m)"
| "find_previous h (t # ts) tags m =
     (case Option.bind (hget tags t) (\<lambda>prev. map_option (Pair prev) (hget (index m) prev)) of
        None \<Rightarrow> find_previous h ts tags m
      | Some (prev, tx2) \<Rightarrow>
          (let u = remove_item h (unlocks tx2)
           in case find_previous h ts tags (tm_modify prev (\<lambda>tx. tx\<lparr>unlocks := u\<rparr>) m) of
                (tags', m') \<Rightarrow> ((if u = [] then op_provides (tx_op tx2) else []) @ tags', m')))"

lemma length_find_previous [simp]: "length (index (snd (find_previous h ts tags m))) = length (index m)"
  by (induction h ts tags m rule: find_previous.induct) (simp_all split: option.split prod.split add: Let_def case_prod_beta)

fun unlock_ready ::
  "tx_hash list \<Rightarrow> 'x ready_index \<Rightarrow> 'x operation_ref list \<Rightarrow> 'x ready_index \<times> 'x operation_ref list" where
  "unlock_ready [] m best = (m, best)"
| "unlock_ready (h # hs) m best =
     (case hget (index m) h of
        None \<Rightarrow> unlock_ready hs m best
      | Some tx \<Rightarrow>
          (let n = Suc (requires_offset tx)
           in unlock_ready hs (tm_modify h (\<lambda>tx. tx\<lparr>requires_offset := n\<rparr>) m)
                (if n = length (op_requires (tx_op tx)) then best_insert (tx_ref tx) best else best)))"

lemma length_unlock_ready [simp]: "length (index (fst (unlock_ready hs m best))) = length (index m)"
  by (induction hs m best rule: unlock_ready.induct) (simp_all split: option.split add: Let_def)

fun clear_provided :: "tx_hash \<Rightarrow> tag \<Rightarrow> tag list \<Rightarrow> (tag, tx_hash) hmap \<Rightarrow> (tag, tx_hash) hmap option" where
  "clear_provided h current [] tags = Some tags"
| "clear_provided h current (t # ts) tags =
     (if hget tags t = (if current = t then None else Some h) then clear_provided h current ts (hdel t tags) else None)"

text \<open>What pruning one operation does: the tags to prune next and the queue without the operation.\<close>

definition prune_operation :: "tag \<Rightarrow> 'x ready_tx \<Rightarrow> 'x ready_shard \<Rightarrow> (tag list \<times> 'x ready_shard) option" where
  "prune_operation t tx s =
     (let op = tx_op tx;
          (previous, m1) = find_previous (op_hash op) (op_requires op) (provided_tags s) (ready_map s);
          (m2, best) = unlock_ready (unlocks tx) m1 (best_remove (tx_ref tx) (best_set s))
      in map_option (\<lambda>tags. (previous, s\<lparr>provided_tags := tags, ready_map := m2, best_set := best\<rparr>))
           (clear_provided (op_hash op) t (op_provides op) (provided_tags s)))"

lemma prune_operation_length:
  "prune_operation t tx s = Some (previous, s') \<Longrightarrow> length (index (ready_map s')) = length (index (ready_map s))"
  by (auto simp: prune_operation_def Let_def case_prod_beta)

function prune_loop :: "tag list \<Rightarrow> 'x ready_shard \<Rightarrow> ('x pool_operation list \<times> 'x ready_shard) option" where
  "prune_loop [] s = Some ([], s)"
| "prune_loop (t # stack) s =
     (case hget (provided_tags s) t of
        None \<Rightarrow> prune_loop stack s
      | Some h \<Rightarrow>
          (let s1 = s\<lparr>provided_tags := hdel t (provided_tags s)\<rparr>
           in case hget (index (ready_map s)) h of
                None \<Rightarrow> prune_loop stack s1
              | Some tx \<Rightarrow>
                  (case prune_operation t tx (s1\<lparr>ready_map := snd (tm_remove ready_tx_size h (ready_map s))\<rparr>) of
                     None \<Rightarrow> None
                   | Some (previous, s2) \<Rightarrow>
                       map_option (\<lambda>(removed, s'). (tx_op tx # removed, s')) (prune_loop (rev previous @ stack) s2))))"
  by pat_completeness auto
termination
proof (relation "measures [\<lambda>(_, s). length (index (ready_map s)), \<lambda>(stack, _). length stack]", goal_cases)
  case (4 t stack s h s1 tx x previous s2)
  have "length (index (ready_map s2)) < length (index (ready_map s))"
    using prune_operation_length [of t tx _ previous s2] 4(3-5) by (simp add: tm_remove_def length_hdel_less)
  then show ?case by simp
qed simp_all

definition ready_prune_tags :: "tag \<Rightarrow> 'x ready_shard \<Rightarrow> ('x pool_operation list \<times> 'x ready_shard) option" where
  "ready_prune_tags t s = prune_loop [t] s"

section \<open>Iterating over the ready operations\<close>

record 'x best_iterator =
  iter_all :: "(tx_hash, 'x ready_tx) hmap"
  awaiting :: "(tx_hash, nat \<times> 'x operation_ref) hmap"
  iter_best :: "'x operation_ref list"

definition best_or_awaiting :: "nat \<Rightarrow> 'x operation_ref \<Rightarrow> 'x best_iterator \<Rightarrow> 'x best_iterator" where
  "best_or_awaiting satisfied r it =
     (if satisfied \<ge> length (op_requires (ref_op r)) then it\<lparr>iter_best := best_insert r (iter_best it)\<rparr>
      else it\<lparr>awaiting := hput (op_hash (ref_op r)) (satisfied, r) (awaiting it)\<rparr>)"

fun unlock_all :: "tx_hash list \<Rightarrow> 'x best_iterator \<Rightarrow> 'x best_iterator" where
  "unlock_all [] it = it"
| "unlock_all (h # hs) it =
     unlock_all hs
       (case hget (awaiting it) h of
          Some (satisfied, r) \<Rightarrow> best_or_awaiting (satisfied + 1) r (it\<lparr>awaiting := hdel h (awaiting it)\<rparr>)
        | None \<Rightarrow>
            (case hget (iter_all it) h of
               Some tx \<Rightarrow> best_or_awaiting (requires_offset tx + 1) (tx_ref tx) it
             | None \<Rightarrow> it))"

lemma best_max_in: "best_max s = Some r \<Longrightarrow> r \<in> set s"
  by (induction s arbitrary: r) (auto split: option.splits if_splits)

lemma ref_eq_refl [simp]: "ref_eq r r"
  by (simp add: ref_eq_def)

lemma best_remove_less: "r \<in> set s \<Longrightarrow> length (best_remove r s) < length s"
  by (auto simp: best_remove_def intro: length_filter_less)

function best_next :: "'x best_iterator \<Rightarrow> 'x pool_operation option \<times> 'x best_iterator" where
  "best_next it =
     (case best_max (iter_best it) of
        None \<Rightarrow> (None, it)
      | Some r \<Rightarrow>
          (let it' = it\<lparr>iter_best := best_remove r (iter_best it)\<rparr>
           in case hget (iter_all it) (op_hash (ref_op r)) of
                None \<Rightarrow> best_next it'
              | Some tx \<Rightarrow> (Some (ref_op r), unlock_all (unlocks tx) it')))"
  by pat_completeness auto
termination
  by (relation "measure (\<lambda>it. length (iter_best it))") (simp_all add: best_remove_less best_max_in)

text \<open>The first operations an iterator returns.\<close>

fun best_take :: "nat \<Rightarrow> 'x best_iterator \<Rightarrow> 'x pool_operation list" where
  "best_take 0 it = []"
| "best_take (Suc n) it =
     (case best_next it of
        (None, _) \<Rightarrow> []
      | (Some op, it') \<Rightarrow> op # best_take n it')"

definition ready_get :: "'x ready_shard \<Rightarrow> 'x best_iterator" where
  "ready_get s = \<lparr>iter_all = index (ready_map s), awaiting = [], iter_best = best_set s\<rparr>"

section \<open>Sizes of a tracked map\<close>

definition tracked_ok :: "('v \<Rightarrow> nat) \<Rightarrow> ('k, 'v) tracked_map \<Rightarrow> bool" where
  "tracked_ok size_of m \<longleftrightarrow> hwf (index m) \<and> tracked_length m = int (length (index m))
     \<and> tracked_bytes m = int (sum_list (map (size_of \<circ> snd) (index m)))"

lemma hput_absent: "hget m k = None \<Longrightarrow> hput k v m = m @ [(k, v)]"
  by (induction m) (auto split: if_splits)

lemma sum_list_hdel: "hwf m \<Longrightarrow> hget m k = Some v \<Longrightarrow> sum_list (map f (hdel k m)) + f (k, v) = (sum_list (map f m) :: nat)"
proof (induction m)
  case (Cons x m)
  then show ?case
    by (cases x) (auto simp: hdel_absent map_of_eq_None_iff split: if_splits)
qed simp

lemma sum_list_hput: "hget m k = Some v \<Longrightarrow> f (k, v') = f (k, v) \<Longrightarrow> sum_list (map f (hput k v' m)) = (sum_list (map f m) :: nat)"
  by (induction m) (auto split: if_splits)

lemma tracked_ok_default [simp]: "tracked_ok f tm_default"
  by (simp add: tracked_ok_def tm_default_def)

lemma tracked_ok_remove:
  "tracked_ok f m \<Longrightarrow> hget (index m) k = Some v \<Longrightarrow> tracked_ok f (snd (tm_remove f k m))"
  using length_hdel [of "index m" k v] sum_list_hdel [of "index m" k v "f \<circ> snd"]
  by (simp add: tracked_ok_def tm_remove_def)

lemma tracked_ok_insert: "tracked_ok f m \<Longrightarrow> hget (index m) k = None \<Longrightarrow> tracked_ok f (snd (tm_insert f k v m))"
proof -
  assume m: "tracked_ok f m" "hget (index m) k = None"
  then have "k \<notin> fst ` set (index m)" by (simp add: map_of_eq_None_iff)
  with m show ?thesis by (simp add: tracked_ok_def tm_insert_def hput_absent)
qed

lemma tracked_ok_modify: "tracked_ok f m \<Longrightarrow> (\<And>v. f (g v) = f v) \<Longrightarrow> tracked_ok f (tm_modify k g m)"
  by (auto simp: tracked_ok_def tm_modify_def length_hput sum_list_hput split: option.split)

lemma tracked_ok_sizes:
  "tracked_ok f m \<Longrightarrow> tm_len m = length (index m) \<and> tm_bytes m = sum_list (map (f \<circ> snd) (index m))"
  by (simp add: tracked_ok_def tm_len_def tm_bytes_def)

lemma hget_tm_remove: "hget (index (snd (tm_remove f k m))) k' = (if k' = k then None else hget (index m) k')"
  by (auto simp: tm_remove_def split: option.split)

lemma hget_tm_insert: "hget (index (snd (tm_insert f k v m))) k' = (if k' = k then Some v else hget (index m) k')"
  by (auto simp: tm_insert_def Let_def split: option.split)

lemma hget_tm_modify: "hget (index (tm_modify k g m)) k' = (if k' = k then map_option g (hget (index m) k) else hget (index m) k')"
  by (auto simp: tm_modify_def split: option.split)

section \<open>Invariant of the ready queue\<close>

text \<open>Which operation is kept under a hash, without its links.\<close>

definition refs :: "'x ready_index \<Rightarrow> tx_hash \<Rightarrow> 'x operation_ref option" where
  "refs m h = map_option tx_ref (hget (index m) h)"

definition op_wf :: "'x pool_operation \<Rightarrow> bool" where
  "op_wf op \<longleftrightarrow> distinct (op_provides op) \<and> set (op_provides op) \<inter> set (op_requires op) = {}"

text \<open>Every provided tag points to the operation that provides it, except for tags in \<open>F\<close> that an import is
  about to overwrite; every reference in the set of best operations is that of a ready operation.\<close>

definition refs_wf ::
  "tag set \<Rightarrow> (tag, tx_hash) hmap \<Rightarrow> (tx_hash \<Rightarrow> 'x operation_ref option) \<Rightarrow> 'x operation_ref list \<Rightarrow> bool" where
  "refs_wf F tags R best \<longleftrightarrow>
     (\<forall>h r. R h = Some r \<longrightarrow> op_hash (ref_op r) = h \<and> op_wf (ref_op r))
   \<and> (\<forall>t h. hget tags t = Some h \<longrightarrow> t \<in> F \<or> (\<exists>r. R h = Some r \<and> t \<in> set (op_provides (ref_op r))))
   \<and> (\<forall>h r t. R h = Some r \<longrightarrow> t \<in> set (op_provides (ref_op r)) \<longrightarrow> hget tags t = Some h)
   \<and> (\<forall>r\<in>set best. R (op_hash (ref_op r)) = Some r)"

definition ready_inv :: "tag set \<Rightarrow> 'x ready_shard \<Rightarrow> bool" where
  "ready_inv F s \<longleftrightarrow> tracked_ok ready_tx_size (ready_map s)
     \<and> refs_wf F (provided_tags s) (refs (ready_map s)) (best_set s)"

lemma refs_wfD:
  assumes "refs_wf F tags R best"
  shows "R h = Some r \<Longrightarrow> op_hash (ref_op r) = h" "R h = Some r \<Longrightarrow> op_wf (ref_op r)"
    "hget tags t = Some h \<Longrightarrow> t \<notin> F \<Longrightarrow> \<exists>r. R h = Some r \<and> t \<in> set (op_provides (ref_op r))"
    "R h = Some r \<Longrightarrow> t \<in> set (op_provides (ref_op r)) \<Longrightarrow> hget tags t = Some h"
    "r \<in> set best \<Longrightarrow> R (op_hash (ref_op r)) = Some r"
  using assms unfolding refs_wf_def by blast+

lemma refs_simps [simp]:
  "refs (snd (tm_remove f h m)) h' = (if h' = h then None else refs m h')"
  "refs (snd (tm_insert f h tx m)) h' = (if h' = h then Some (tx_ref tx) else refs m h')"
  by (simp_all add: refs_def hget_tm_remove hget_tm_insert)

lemma refs_modify: "(\<And>tx. tx_ref (g tx) = tx_ref tx) \<Longrightarrow> refs (tm_modify k g m) = refs m"
  by (rule ext) (simp add: refs_def hget_tm_modify option.map_comp comp_def)

lemma tracked_modify:
  "tracked_ok ready_tx_size m \<Longrightarrow> (\<And>tx. tx_ref (g tx) = tx_ref tx) \<Longrightarrow> tracked_ok ready_tx_size (tm_modify k g m)"
  by (rule tracked_ok_modify) (simp_all add: ready_tx_size_def)

lemma refs_default [simp]: "refs tm_default h = None"
  by (simp add: refs_def tm_default_def)

lemma ready_inv_default [simp]: "ready_inv F ready_default"
  by (simp add: ready_inv_def ready_default_def refs_wf_def)

lemma ready_inv_mono: "ready_inv F s \<Longrightarrow> F \<subseteq> G \<Longrightarrow> ready_inv G s"
  unfolding ready_inv_def refs_wf_def by blast

subsection \<open>Removal\<close>

lemma unlink_required_keeps:
  "refs (unlink_required ts tags m) = refs m \<and> (tracked_ok ready_tx_size m \<longrightarrow> tracked_ok ready_tx_size (unlink_required ts tags m))"
proof (induction ts arbitrary: m)
  case (Cons t ts)
  show ?case
  proof (cases "hget tags t")
    case (Some h)
    let ?g = "\<lambda>tx :: 'a ready_tx. tx\<lparr>unlocks := remove_item h (unlocks tx)\<rparr>"
    have "refs (tm_modify h ?g m) = refs m" "tracked_ok ready_tx_size m \<longrightarrow> tracked_ok ready_tx_size (tm_modify h ?g m)"
      by (simp_all add: refs_modify tracked_modify)
    with Cons.IH [of "tm_modify h ?g m"] Some show ?thesis by simp
  qed (simp add: Cons.IH)
qed simp

lemma refs_wf_remove:
  assumes "refs_wf F tags R best" "R h = Some r"
    and "\<And>t. t \<in> set (op_provides (ref_op r)) \<Longrightarrow> t \<in> F \<or> hget tags' t = None"
    and "\<And>t. t \<notin> set (op_provides (ref_op r)) \<Longrightarrow> hget tags' t = hget tags t"
  shows "refs_wf F tags' (R(h := None)) (best_remove r best)"
proof -
  note wf = refs_wfD [OF assms(1)]
  have other: "t \<notin> set (op_provides (ref_op r))" if "R k = Some r'" "t \<in> set (op_provides (ref_op r'))" "k \<noteq> h" for k r' t
    using wf(4) [OF that(1,2)] wf(4) [OF assms(2), of t] that(3) by auto
  have "t \<in> F \<or> (\<exists>r'. (R(h := None)) k = Some r' \<and> t \<in> set (op_provides (ref_op r')))" if k: "hget tags' t = Some k" for t k
  proof (cases "t \<in> F \<or> t \<in> set (op_provides (ref_op r))")
    case True
    then show ?thesis using assms(3) k by fastforce
  next
    case False
    then obtain r' where "R k = Some r'" "t \<in> set (op_provides (ref_op r'))" using wf(3) assms(4) k by metis
    with False assms(2) show ?thesis by auto
  qed
  moreover have "hget tags' t = Some k" if "(R(h := None)) k = Some r'" "t \<in> set (op_provides (ref_op r'))" for k r' t
    using that other [of k r' t] assms(4) wf(4) by (auto split: if_splits)
  moreover have "(R(h := None)) (op_hash (ref_op r')) = Some r'" if "r' \<in> set (best_remove r best)" for r'
    using that wf(5) [of r'] assms(2) by (auto simp: best_remove_def)
  ultimately show ?thesis
    using assms(1) by (auto simp: refs_wf_def split: if_splits)
qed

text \<open>What a call of the removal loop leaves: the invariant, a part of the operations, none of the operations it
  was asked to remove, and a list of exactly the operations that are gone.\<close>

definition removal ::
  "'x ready_shard \<Rightarrow> 'x pool_operation list \<Rightarrow> 'x ready_shard \<Rightarrow> bool" where
  "removal s ops s' \<longleftrightarrow> (\<forall>h r. refs (ready_map s') h = Some r \<longrightarrow> refs (ready_map s) h = Some r)
     \<and> set ops = {ref_op r | h r. refs (ready_map s) h = Some r \<and> refs (ready_map s') h = None}
     \<and> distinct (map op_hash ops) \<and> last_insertion_id s' = last_insertion_id s"

lemma removal_refl [simp]: "removal s [] s"
  by (auto simp: removal_def)

lemma removalD: "removal s ops s' \<Longrightarrow> refs (ready_map s') h = Some r \<Longrightarrow> refs (ready_map s) h = Some r"
  by (simp add: removal_def)

lemma removal_gone: "removal s ops s' \<Longrightarrow> refs (ready_map s) h = None \<Longrightarrow> refs (ready_map s') h = None"
  unfolding removal_def by (metis not_None_eq)

lemma removal_step:
  assumes "ready_inv F s" "refs (ready_map s) h = Some r" "refs (ready_map s1) = (refs (ready_map s))(h := None)"
    "last_insertion_id s1 = last_insertion_id s" "removal s1 ops s'"
  shows "removal s (ref_op r # ops) s'"
proof -
  have gone: "refs (ready_map s') h = None"
    using removal_gone [OF assms(5)] assms(3) by simp
  have key: "op_hash (ref_op r') = k" if "refs (ready_map s) k = Some r'" for k r'
    using refs_wfD(1) assms(1) that unfolding ready_inv_def by blast
  have "h \<notin> op_hash ` set ops"
    using assms(3,5) key by (auto simp: removal_def split: if_splits)
  moreover have "set (ref_op r # ops) = {ref_op r' | k r'. refs (ready_map s) k = Some r' \<and> refs (ready_map s') k = None}"
    using assms(2,3,5) gone by (auto simp: removal_def split: if_splits) (metis option.inject)
  moreover have "refs (ready_map s) k = Some r'" if "refs (ready_map s') k = Some r'" for k r'
    using that assms(3,5) gone unfolding removal_def by (metis fun_upd_apply option.distinct(1))
  ultimately show ?thesis
    using assms(4,5) key [OF assms(2)] unfolding removal_def by simp
qed

definition filter_set :: "tag list option \<Rightarrow> tag set" where
  "filter_set filt = (case filt of None \<Rightarrow> {} | Some f \<Rightarrow> set f)"

lemma set_invalidated: "set (invalidated filt op) = set (op_provides op) - filter_set filt"
  by (auto simp: invalidated_def filter_set_def split: option.split)

lemma remove_subtree_loop_wf:
  assumes "ready_inv F s" "filter_set filt \<subseteq> F" "remove_subtree_loop filt stack s = (ops, s')"
  shows "ready_inv F s' \<and> removal s ops s' \<and> (\<forall>h\<in>set stack. refs (ready_map s') h = None)"
  using assms
proof (induction filt stack s arbitrary: ops s' rule: remove_subtree_loop.induct)
  case (2 filt h stack s)
  show ?case
  proof (cases "hget (index (ready_map s)) h")
    case None
    then have "refs (ready_map s) h = None" by (simp add: refs_def)
    then have "refs (ready_map s') h = None" if "removal s ops s'" using removal_gone that by blast
    with 2(1) [OF None 2(3,4), of ops s'] 2(5) None show ?thesis by simp
  next
    case (Some tx)
    define tags where "tags = fold hdel (invalidated filt (tx_op tx)) (provided_tags s)"
    define m where "m = snd (tm_remove ready_tx_size h (ready_map s))"
    define s1 where "s1 = s\<lparr>provided_tags := tags, ready_map := unlink_required (op_requires (tx_op tx)) tags m,
        best_set := best_remove (tx_ref tx) (best_set s)\<rparr>"
    define stack1 where "stack1 = (if invalidated filt (tx_op tx) = [] then stack else rev (unlocks tx) @ stack)"
    obtain ops1 where ops1: "remove_subtree_loop filt stack1 s1 = (ops1, s')" "ops = tx_op tx # ops1"
      using 2(5) Some by (auto simp: Let_def tags_def m_def s1_def stack1_def split: prod.splits)
    have r: "refs (ready_map s) h = Some (tx_ref tx)" using Some by (simp add: refs_def)
    have refs1: "refs (ready_map s1) = (refs (ready_map s))(h := None)"
      using unlink_required_keeps [of "op_requires (tx_op tx)" tags m] by (auto simp: s1_def m_def)
    have "refs_wf F tags ((refs (ready_map s))(h := None)) (best_remove (tx_ref tx) (best_set s))"
      using 2(3,4) r by (intro refs_wf_remove) (auto simp: ready_inv_def tags_def set_invalidated)
    moreover have "tracked_ok ready_tx_size (ready_map s1)"
      using unlink_required_keeps [of "op_requires (tx_op tx)" tags m] 2(3) Some
      by (simp add: s1_def m_def ready_inv_def tracked_ok_remove)
    ultimately have inv1: "ready_inv F s1" using refs1 by (simp add: ready_inv_def s1_def)
    have IH: "ready_inv F s' \<and> removal s1 ops1 s' \<and> (\<forall>k\<in>set stack1. refs (ready_map s') k = None)"
      by (rule 2(2) [OF Some m_def tags_def s1_def stack1_def inv1 2(4) ops1(1)])
    moreover have "removal s ops s'"
      unfolding ops1(2) using IH by (intro removal_step [OF 2(3) r refs1]) (simp_all add: s1_def)
    moreover have "refs (ready_map s') h = None"
      using IH refs1 removal_gone [of s1 ops1 s' h] by simp
    ultimately show ?thesis by (auto simp: stack1_def split: if_splits)
  qed
qed simp

lemma ready_remove_subtree_wf:
  assumes "ready_inv {} s" "ready_remove_subtree hs s = (ops, s')"
  shows "ready_inv {} s' \<and> removal s ops s' \<and> (\<forall>h\<in>set hs. refs (ready_map s') h = None)"
  using remove_subtree_loop_wf [OF assms(1), of None "rev hs" ops s'] assms(2)
  by (simp add: ready_remove_subtree_def remove_subtree_with_tag_filter_def filter_set_def)

subsection \<open>Import\<close>

lemma link_required_wf:
  assumes "\<forall>t\<in>set ts. \<forall>k. hget tags t = Some k \<longrightarrow> refs m k \<noteq> None" "tracked_ok ready_tx_size m"
  shows "\<exists>goes_to_best offset m'. link_required h ts tags m = Some (goes_to_best, offset, m')
    \<and> refs m' = refs m \<and> tracked_ok ready_tx_size m'"
  using assms
proof (induction ts arbitrary: m)
  case (Cons t ts)
  show ?case
  proof (cases "hget tags t")
    case None
    then show ?thesis using Cons.IH [of m] Cons.prems by auto
  next
    case (Some k)
    let ?m = "tm_modify k (\<lambda>tx :: 'a ready_tx. tx\<lparr>unlocks := unlocks tx @ [h]\<rparr>) m"
    have m: "refs ?m = refs m" "tracked_ok ready_tx_size ?m"
      using Cons.prems(2) by (simp_all add: refs_modify tracked_modify)
    have k: "hget (index m) k \<noteq> None" using Cons.prems(1) Some by (auto simp: refs_def)
    from Cons.IH [of ?m] Cons.prems(1) m Some k show ?thesis by auto
  qed
qed auto

lemma replace_previous_wf:
  assumes "ready_inv {} s" "replace_previous op s = (res, s')"
  shows "case res of
      Err e \<Rightarrow> s' = s \<and> e = TooLowPriority (op_priority op)
    | Ok (ops, _) \<Rightarrow> ready_inv (set (op_provides op)) s' \<and> removal s ops s'
        \<and> (\<forall>h r. refs (ready_map s') h = Some r \<longrightarrow> set (op_provides (ref_op r)) \<inter> set (op_provides op) = {})"
proof -
  let ?F = "set (op_provides op)"
  let ?hs = "remdups (List.map_filter (hget (provided_tags s)) (op_provides op))"
  have root: "h \<in> set ?hs" if "refs (ready_map s) h = Some r" "t \<in> set (op_provides (ref_op r))" "t \<in> ?F" for h r t
    using refs_wfD(4) [of "{}" "provided_tags s" "refs (ready_map s)" "best_set s" h r t] assms(1) that
    by (force simp: ready_inv_def List.map_filter_def)
  have inv: "ready_inv ?F s" by (rule ready_inv_mono [OF assms(1)]) simp
  consider (none) "?hs = []" "res = Ok ([], [])" "s' = s" | (low) "res = Err (TooLowPriority (op_priority op))" "s' = s"
    | (ok) ops u where "res = Ok (ops, u)" "remove_subtree_loop (Some (op_provides op)) (rev ?hs) s = (ops, s')"
    using assms(2) by (auto simp: replace_previous_def remove_subtree_with_tag_filter_def Let_def split: if_splits prod.splits)
  then show ?thesis
  proof cases
    case none
    then show ?thesis using inv root by fastforce
  next
    case low
    then show ?thesis by simp
  next
    case ok
    have L: "ready_inv ?F s'" "removal s ops s'" "\<forall>h\<in>set ?hs. refs (ready_map s') h = None"
      using remove_subtree_loop_wf [OF inv _ ok(2)] by (simp_all add: filter_set_def)
    have "set (op_provides (ref_op r)) \<inter> ?F = {}" if "refs (ready_map s') h = Some r" for h r
    proof -
      have "refs (ready_map s) h = Some r" "h \<notin> set ?hs" using L(2,3) that by (auto simp: removal_def)
      then show ?thesis using root by blast
    qed
    with ok L(1,2) show ?thesis by simp
  qed
qed

text \<open>The operations that are ready after an import: the new one, and of the others those that were not
  replaced.\<close>

lemma ready_import_wf:
  assumes "ready_inv {} s" "is_ready w" "op_wf (waiting_op w)" "refs (ready_map s) (op_hash (waiting_op w)) = None"
  obtains (imported) ops s' r where "ready_import w s = Some (Ok ops, s')" "ready_inv {} s'" "ref_op r = waiting_op w"
      "refs (ready_map s') (op_hash (waiting_op w)) = Some r" "distinct (map op_hash ops)"
      "\<And>h r'. h \<noteq> op_hash (waiting_op w) \<Longrightarrow> refs (ready_map s') h = Some r' \<Longrightarrow> refs (ready_map s) h = Some r'"
      "set ops = {ref_op r' | h r'. refs (ready_map s) h = Some r' \<and> refs (ready_map s') h = None}"
  | (too_low) s' where "ready_import w s = Some (Err (TooLowPriority (op_priority (waiting_op w))), s')" "ready_inv {} s'"
      "refs (ready_map s') = refs (ready_map s)"
proof -
  let ?op = "waiting_op w"
  let ?h = "op_hash ?op"
  let ?s1 = "s\<lparr>last_insertion_id := last_insertion_id s + 1\<rparr>"
  have inv1: "ready_inv {} ?s1" using assms(1) by (simp add: ready_inv_def)
  have fresh: "hget (index (ready_map s)) ?h = None" using assms(4) by (simp add: refs_def)
  obtain res s2 where rp: "replace_previous ?op ?s1 = (res, s2)" by fastforce
  show ?thesis
  proof (cases res)
    case (Err e)
    then have "s2 = ?s1" "e = TooLowPriority (op_priority ?op)" using replace_previous_wf [OF inv1 rp] by simp_all
    then show ?thesis
      using too_low [of ?s1] inv1 Err rp assms(2) fresh by (simp add: ready_import_def)
  next
    case (Ok x)
    obtain ops u where x: "x = (ops, u)" by fastforce
    have R: "ready_inv (set (op_provides ?op)) s2" "removal ?s1 ops s2"
      "\<And>h r. refs (ready_map s2) h = Some r \<Longrightarrow> set (op_provides (ref_op r)) \<inter> set (op_provides ?op) = {}"
      using replace_previous_wf [OF inv1 rp] Ok x by simp_all
    note wf = refs_wfD [OF conjunct2 [OF R(1) [unfolded ready_inv_def]]]
    have gone: "refs (ready_map s2) ?h = None" using removal_gone [OF R(2)] assms(4) by simp
    have "refs (ready_map s2) k \<noteq> None" if "t \<in> set (op_requires ?op)" "hget (provided_tags s2) t = Some k" for t k
      using wf(3) [OF that(2)] that(1) assms(3) by (auto simp: op_wf_def)
    then obtain g n m where L: "link_required ?h (op_requires ?op) (provided_tags s2) (ready_map s2) = Some (g, n, m)"
      "refs m = refs (ready_map s2)" "tracked_ok ready_tx_size m"
      using link_required_wf [of "op_requires ?op" "provided_tags s2" "ready_map s2" ?h] R(1) unfolding ready_inv_def by blast
    define r where "r = \<lparr>ref_op = ?op, insertion_id = last_insertion_id ?s1\<rparr>"
    define s' where "s' = s2\<lparr>provided_tags := fold (\<lambda>t. hput t ?h) (op_provides ?op) (provided_tags s2),
        best_set := (if g then best_insert r (best_set s2) else best_set s2),
        ready_map := snd (tm_insert ready_tx_size ?h \<lparr>tx_ref = r, unlocks = u, requires_offset = n\<rparr> m)\<rparr>"
    have run: "ready_import w s = Some (Ok ops, s')"
      using assms(2) fresh rp Ok x L(1) by (simp add: ready_import_def s'_def r_def Let_def)
    have refs': "refs (ready_map s') = (refs (ready_map s2))(?h := Some r)"
      using L(2) by (auto simp: s'_def)
    have other: "hget (provided_tags s') t = hget (provided_tags s2) t"
      if "refs (ready_map s2) k = Some r'" "t \<in> set (op_provides (ref_op r'))" for k r' t
      using R(3) [OF that(1)] that(2) by (auto simp: s'_def)
    have "refs_wf {} (provided_tags s') (refs (ready_map s')) (best_set s')"
      unfolding refs_wf_def refs'
    proof (intro conjI allI impI ballI)
      fix k r' assume "((refs (ready_map s2))(?h := Some r)) k = Some r'"
      then show "op_hash (ref_op r') = k" "op_wf (ref_op r')"
        using wf(1,2) [of k r'] assms(3) by (auto simp: r_def split: if_splits)
    next
      fix t k assume "hget (provided_tags s') t = Some k"
      then show "t \<in> {} \<or> (\<exists>r'. ((refs (ready_map s2))(?h := Some r)) k = Some r' \<and> t \<in> set (op_provides (ref_op r')))"
        using wf(3) [of t k] gone by (auto simp: s'_def r_def split: if_splits)
    next
      fix k r' t assume "((refs (ready_map s2))(?h := Some r)) k = Some r'" "t \<in> set (op_provides (ref_op r'))"
      then show "hget (provided_tags s') t = Some k"
        using wf(4) [of k r' t] other [of k r' t] by (auto simp: s'_def r_def split: if_splits)
    next
      fix r' assume "r' \<in> set (best_set s')"
      then show "((refs (ready_map s2))(?h := Some r)) (op_hash (ref_op r')) = Some r'"
        using wf(5) [of r'] gone by (auto simp: s'_def r_def best_insert_def split: if_splits)
    qed
    moreover have "tracked_ok ready_tx_size (ready_map s')"
    proof -
      have "refs m ?h = None" using L(2) gone by simp
      then show ?thesis using L(3) by (simp add: s'_def refs_def tracked_ok_insert)
    qed
    ultimately have "ready_inv {} s'" by (simp add: ready_inv_def)
    moreover have "refs (ready_map s) k = Some r' \<and> refs (ready_map s') k = None
        \<longleftrightarrow> refs (ready_map s) k = Some r' \<and> refs (ready_map s2) k = None" for k r'
      using refs' assms(4) by auto
    then have "set ops = {ref_op r' | k r'. refs (ready_map s) k = Some r' \<and> refs (ready_map s') k = None}"
      using R(2) by (simp add: removal_def)
    moreover have "refs (ready_map s) k = Some r'" if "k \<noteq> ?h" "refs (ready_map s') k = Some r'" for k r'
      using that refs' R(2) by (simp add: removal_def)
    ultimately show ?thesis
      using R(2) refs' by (intro imported [OF run, of r]) (simp_all add: r_def removal_def)
  qed
qed

subsection \<open>Pruning\<close>

lemma find_previous_keeps:
  "refs (snd (find_previous h ts tags m)) = refs m
   \<and> (tracked_ok ready_tx_size m \<longrightarrow> tracked_ok ready_tx_size (snd (find_previous h ts tags m)))"
proof (induction h ts tags m rule: find_previous.induct)
  case (2 h t ts tags m)
  show ?case
  proof (cases "Option.bind (hget tags t) (\<lambda>prev. map_option (Pair prev) (hget (index m) prev))")
    case None
    then show ?thesis using 2(1) by simp
  next
    case (Some x)
    obtain prev tx2 where x: "x = (prev, tx2)" by fastforce
    let ?g = "\<lambda>tx :: 'a ready_tx. tx\<lparr>unlocks := remove_item h (unlocks tx2)\<rparr>"
    have "refs (tm_modify prev ?g m) = refs m" "tracked_ok ready_tx_size m \<longrightarrow> tracked_ok ready_tx_size (tm_modify prev ?g m)"
      by (simp_all add: refs_modify tracked_modify)
    with 2(2) [OF Some x [symmetric] refl] Some x show ?thesis by (simp add: Let_def case_prod_beta)
  qed
qed simp

lemma unlock_ready_keeps:
  "refs (fst (unlock_ready hs m best)) = refs m
   \<and> (tracked_ok ready_tx_size m \<longrightarrow> tracked_ok ready_tx_size (fst (unlock_ready hs m best)))
   \<and> set (snd (unlock_ready hs m best)) \<subseteq> set best \<union> {r. \<exists>h. refs m h = Some r}"
proof (induction hs m best rule: unlock_ready.induct)
  case (2 h hs m best)
  show ?case
  proof (cases "hget (index m) h")
    case None
    then show ?thesis using 2(1) by simp
  next
    case (Some tx)
    let ?n = "Suc (requires_offset tx)"
    let ?g = "\<lambda>tx :: 'a ready_tx. tx\<lparr>requires_offset := ?n\<rparr>"
    have m: "refs (tm_modify h ?g m) = refs m" "tracked_ok ready_tx_size m \<longrightarrow> tracked_ok ready_tx_size (tm_modify h ?g m)"
      by (simp_all add: refs_modify tracked_modify)
    have "refs m h = Some (tx_ref tx)" using Some by (simp add: refs_def)
    then have b: "set (if ?n = length (op_requires (tx_op tx)) then best_insert (tx_ref tx) best else best)
        \<subseteq> set best \<union> {r. \<exists>h. refs m h = Some r}"
      by (auto simp: best_insert_def)
    note IH = 2(2) [OF Some refl]
    have run: "unlock_ready (h # hs) m best = unlock_ready hs (tm_modify h ?g m)
        (if ?n = length (op_requires (tx_op tx)) then best_insert (tx_ref tx) best else best)"
      using Some by (simp add: Let_def)
    show ?thesis unfolding run
    proof (intro conjI)
      show "set (snd (unlock_ready hs (tm_modify h ?g m)
          (if ?n = length (op_requires (tx_op tx)) then best_insert (tx_ref tx) best else best)))
        \<subseteq> set best \<union> {r. \<exists>h. refs m h = Some r}"
        using conjunct2 [OF conjunct2 [OF IH]] b unfolding m(1) by blast
    qed (use IH m in auto)
  qed
qed auto

lemma clear_provided_Some:
  assumes "distinct ts" "\<forall>t\<in>set ts. hget tags t = (if current = t then None else Some h)"
  obtains tags' where "clear_provided h current ts tags = Some tags'"
    "\<And>t. hget tags' t = (if t \<in> set ts then None else hget tags t)"
  using assms
proof (induction ts arbitrary: tags thesis)
  case (Cons t ts)
  obtain tags' where "clear_provided h current ts (hdel t tags) = Some tags'"
    "\<And>u. hget tags' u = (if u \<in> set ts then None else hget (hdel t tags) u)"
    using Cons.prems(2,3) by (auto intro: Cons.IH [of "hdel t tags"])
  with Cons.prems show ?case by auto
qed simp

lemma prune_operation_wf:
  assumes inv: "ready_inv {} s" and t: "hget (provided_tags s) t = Some h"
  obtains tx previous s2 where "hget (index (ready_map s)) h = Some tx"
    "prune_operation t tx (s\<lparr>provided_tags := hdel t (provided_tags s), ready_map := snd (tm_remove ready_tx_size h (ready_map s))\<rparr>)
      = Some (previous, s2)"
    "ready_inv {} s2" "refs (ready_map s2) = (refs (ready_map s))(h := None)" "last_insertion_id s2 = last_insertion_id s"
proof -
  have wf: "refs_wf {} (provided_tags s) (refs (ready_map s)) (best_set s)" and tr: "tracked_ok ready_tx_size (ready_map s)"
    using inv by (simp_all add: ready_inv_def)
  obtain r where r: "refs (ready_map s) h = Some r" "t \<in> set (op_provides (ref_op r))"
    using refs_wfD(3) [OF wf t] by auto
  then obtain tx where tx: "hget (index (ready_map s)) h = Some tx" "tx_ref tx = r" by (auto simp: refs_def)
  let ?op = "tx_op tx"
  let ?tags = "hdel t (provided_tags s)"
  define m where "m = snd (tm_remove ready_tx_size h (ready_map s))"
  define m1 where "m1 = snd (find_previous (op_hash ?op) (op_requires ?op) ?tags m)"
  define u where "u = unlock_ready (unlocks tx) m1 (best_remove r (best_set s))"
  have key: "op_hash ?op = h" "op_wf ?op" using refs_wfD(1,2) [OF wf r(1)] tx(2) by simp_all
  have "hget ?tags x = (if t = x then None else Some h)" if "x \<in> set (op_provides ?op)" for x
    using refs_wfD(4) [OF wf r(1)] that tx(2) by simp
  then obtain tags' where tags': "clear_provided h t (op_provides ?op) ?tags = Some tags'"
    "\<And>x. hget tags' x = (if x \<in> set (op_provides ?op) then None else hget ?tags x)"
    using clear_provided_Some [of "op_provides ?op" ?tags t h] key(2) by (auto simp: op_wf_def)
  have m: "refs m = (refs (ready_map s))(h := None)" "tracked_ok ready_tx_size m"
    using tr tx(1) by (auto simp: m_def tracked_ok_remove)
  have m1: "refs m1 = refs m" "tracked_ok ready_tx_size m1"
    using find_previous_keeps [of "op_hash ?op" "op_requires ?op" ?tags m] m(2) by (simp_all add: m1_def)
  have u: "refs (fst u) = refs m" "tracked_ok ready_tx_size (fst u)"
    "set (snd u) \<subseteq> set (best_remove r (best_set s)) \<union> {r. \<exists>h. refs m h = Some r}"
    using unlock_ready_keeps [of "unlocks tx" m1 "best_remove r (best_set s)"] m1 by (simp_all add: u_def)
  have W: "refs_wf {} tags' (refs m) (best_remove r (best_set s))"
    unfolding m(1) using wf r tx(2) tags'(2) by (intro refs_wf_remove) auto
  have "r' \<in> set (snd u) \<Longrightarrow> refs m (op_hash (ref_op r')) = Some r'" for r'
    using u(3) refs_wfD(5) [OF W, of r'] refs_wfD(1) [OF W, of _ r'] by blast
  then have "refs_wf {} tags' (refs (fst u)) (snd u)" using W u(1) unfolding refs_wf_def by simp
  then have inv': "ready_inv {} (s\<lparr>provided_tags := tags', ready_map := fst u, best_set := snd u\<rparr>)"
    using u(2) by (simp add: ready_inv_def)
  have "prune_operation t tx (s\<lparr>provided_tags := ?tags, ready_map := m\<rparr>)
      = Some (fst (find_previous h (op_requires ?op) ?tags m), s\<lparr>provided_tags := tags', ready_map := fst u, best_set := snd u\<rparr>)"
    using tags'(1) key(1) tx(2) by (simp add: prune_operation_def case_prod_beta Let_def m1_def u_def)
  then show ?thesis
    using u(1) m(1) by (intro that [OF tx(1) _ inv']) (simp_all add: m_def)
qed

lemma prune_loop_wf:
  assumes "ready_inv {} s"
  shows "\<exists>ops s'. prune_loop stack s = Some (ops, s') \<and> ready_inv {} s' \<and> removal s ops s'
    \<and> (\<forall>t\<in>set stack. hget (provided_tags s') t = None)"
  using assms
proof (induction stack s rule: prune_loop.induct)
  case (2 t stack s)
  show ?case
  proof (cases "hget (provided_tags s) t")
    case None
    obtain ops s' where IH: "prune_loop stack s = Some (ops, s')" "ready_inv {} s'" "removal s ops s'"
      "\<forall>t\<in>set stack. hget (provided_tags s') t = None"
      using 2(1) [OF None 2(4)] by blast
    have "hget (provided_tags s') t = None"
    proof (rule ccontr)
      assume "hget (provided_tags s') t \<noteq> None"
      then obtain h r where "refs (ready_map s') h = Some r" "t \<in> set (op_provides (ref_op r))"
        using refs_wfD(3) IH(2) unfolding ready_inv_def by blast
      then show False
        using IH(3) None refs_wfD(4) [of "{}" "provided_tags s" "refs (ready_map s)" "best_set s" h r t] 2(4)
        by (simp add: removal_def ready_inv_def)
    qed
    with IH None show ?thesis by simp
  next
    case (Some h)
    obtain tx previous s2 where P: "hget (index (ready_map s)) h = Some tx"
      "prune_operation t tx (s\<lparr>provided_tags := hdel t (provided_tags s), ready_map := snd (tm_remove ready_tx_size h (ready_map s))\<rparr>)
        = Some (previous, s2)"
      "ready_inv {} s2" "refs (ready_map s2) = (refs (ready_map s))(h := None)" "last_insertion_id s2 = last_insertion_id s"
      by (rule prune_operation_wf [OF 2(4) Some])
    have "\<exists>ops s'. prune_loop (rev previous @ stack) s2 = Some (ops, s') \<and> ready_inv {} s' \<and> removal s2 ops s'
        \<and> (\<forall>t\<in>set (rev previous @ stack). hget (provided_tags s') t = None)"
      by (rule 2(3) [OF Some refl P(1) _ refl P(3)]) (use P(2) in simp)
    then obtain ops s' where IH: "prune_loop (rev previous @ stack) s2 = Some (ops, s')" "ready_inv {} s'" "removal s2 ops s'"
      "\<forall>t\<in>set (rev previous @ stack). hget (provided_tags s') t = None"
      by blast
    have r: "refs (ready_map s) h = Some (tx_ref tx)" using P(1) by (simp add: refs_def)
    have "removal s (tx_op tx # ops) s'" by (rule removal_step [OF 2(4) r P(4,5) IH(3)])
    moreover have "hget (provided_tags s') t = None"
    proof (rule ccontr)
      assume "hget (provided_tags s') t \<noteq> None"
      then obtain k r' where k: "refs (ready_map s') k = Some r'" "t \<in> set (op_provides (ref_op r'))"
        using refs_wfD(3) IH(2) unfolding ready_inv_def by blast
      then have "refs (ready_map s) k = Some r'" "k \<noteq> h"
        using removalD [OF IH(3) k(1)] P(4) by (auto split: if_splits)
      then show False
        using k(2) Some refs_wfD(4) [of "{}" "provided_tags s" "refs (ready_map s)" "best_set s" k r' t] 2(4)
        by (simp add: ready_inv_def)
    qed
    ultimately show ?thesis
      using IH Some P(1,2) by (simp add: Let_def)
  qed
qed simp

end
