(* ===== verification/Top_Base_Pool.thy ===== *)
theory Top_Base_Pool
  imports Top_Ready
begin

text \<open>
  The base pool (core-primitives/top-pool, base_pool.rs): the future and the ready queue of every shard. An imported
  operation enters the ready queue when its tags are provided and pulls the waiting operations it
  unlocks after it. The result \<^term>\<open>None\<close> of an operation is a failed assertion or, for the two loops that
  enforce the limits, a loop that does not end.
\<close>

section \<open>Pool and shards\<close>

record limit =
  limit_count :: nat
  limit_bytes :: nat

definition is_exceeded :: "limit \<Rightarrow> nat \<Rightarrow> nat \<Rightarrow> bool" where
  "is_exceeded l n b \<longleftrightarrow> limit_count l < n \<or> limit_bytes l < b"

datatype 'x imported =
    ImportedReady tx_hash "tx_hash list" "tx_hash list" "'x pool_operation list"
  | ImportedFuture tx_hash

fun imported_hash :: "'x imported \<Rightarrow> tx_hash" where
  "imported_hash (ImportedReady h _ _ _) = h"
| "imported_hash (ImportedFuture h) = h"

record 'x prune_status =
  promoted :: "'x imported list"
  prune_failed :: "tx_hash list"
  pruned :: "'x pool_operation list"

record pool_status =
  status_ready :: nat
  status_ready_bytes :: nat
  status_future :: nat
  status_future_bytes :: nat

record 'x base_pool =
  reject_future_operations :: bool
  futures :: "(shard_identifier, 'x future_shard) hmap"
  readies :: "(shard_identifier, 'x ready_shard) hmap"
  recently_pruned :: "tag list list"
  recently_pruned_index :: nat

definition RECENTLY_PRUNED_TAGS :: nat where
  "RECENTLY_PRUNED_TAGS = 2"

definition base_new :: "bool \<Rightarrow> 'x base_pool" where
  "base_new reject =
     \<lparr>reject_future_operations = reject, futures = [], readies = [], recently_pruned = replicate RECENTLY_PRUNED_TAGS [],
      recently_pruned_index = 0\<rparr>"

definition with_futures_enabled :: "('x base_pool \<Rightarrow> bool \<Rightarrow> ('r \<times> 'x base_pool) option) \<Rightarrow> 'x base_pool \<Rightarrow> ('r \<times> 'x base_pool) option" where
  "with_futures_enabled closure p =
     map_option (\<lambda>(r, p'). (r, p'\<lparr>reject_future_operations := reject_future_operations p\<rparr>))
       (closure (p\<lparr>reject_future_operations := False\<rparr>) (reject_future_operations p))"

text \<open>A queue of a shard that has none yet behaves as an empty one.\<close>

definition ready_of :: "shard_identifier \<Rightarrow> 'x base_pool \<Rightarrow> 'x ready_shard" where
  "ready_of shard p = (case hget (readies p) shard of Some s \<Rightarrow> s | None \<Rightarrow> ready_default)"

definition future_of :: "shard_identifier \<Rightarrow> 'x base_pool \<Rightarrow> 'x future_shard" where
  "future_of shard p = (case hget (futures p) shard of Some q \<Rightarrow> q | None \<Rightarrow> future_default)"

definition is_imported :: "tx_hash \<Rightarrow> shard_identifier \<Rightarrow> 'x base_pool \<Rightarrow> bool" where
  "is_imported h shard p \<longleftrightarrow> future_contains h (future_of shard p) \<or> ready_contains h (ready_of shard p)"

definition pool_satisfy_tags ::
  "tag list \<Rightarrow> shard_identifier \<Rightarrow> 'x base_pool \<Rightarrow> ('x waiting_operation list \<times> 'x base_pool) option" where
  "pool_satisfy_tags ts shard p =
     (case hget (futures p) shard of
        None \<Rightarrow> Some ([], p)
      | Some q \<Rightarrow> map_option (\<lambda>(ws, q'). (ws, p\<lparr>futures := hput shard q' (futures p)\<rparr>)) (satisfy_tags ts q))"

definition pool_future_import :: "'x waiting_operation \<Rightarrow> shard_identifier \<Rightarrow> 'x base_pool \<Rightarrow> 'x base_pool option" where
  "pool_future_import w shard p =
     map_option (\<lambda>q. p\<lparr>futures := hput shard q (futures p)\<rparr>) (future_import w (future_of shard p))"

definition pool_ready_import ::
  "'x waiting_operation \<Rightarrow> shard_identifier \<Rightarrow> 'x base_pool
   \<Rightarrow> ((pool_error, 'x pool_operation list) result \<times> 'x base_pool) option" where
  "pool_ready_import w shard p =
     map_option (\<lambda>(r, s). (r, p\<lparr>readies := hput shard s (readies p)\<rparr>)) (ready_import w (ready_of shard p))"

definition pool_ready_remove ::
  "tx_hash list \<Rightarrow> shard_identifier \<Rightarrow> 'x base_pool \<Rightarrow> 'x pool_operation list \<times> 'x base_pool" where
  "pool_ready_remove hs shard p =
     (case hget (readies p) shard of
        None \<Rightarrow> ([], p)
      | Some s \<Rightarrow> (case ready_remove_subtree hs s of (removed, s') \<Rightarrow> (removed, p\<lparr>readies := hput shard s' (readies p)\<rparr>)))"

definition pool_future_remove ::
  "tx_hash list \<Rightarrow> shard_identifier \<Rightarrow> 'x base_pool \<Rightarrow> 'x pool_operation list \<times> 'x base_pool" where
  "pool_future_remove hs shard p =
     (case hget (futures p) shard of
        None \<Rightarrow> ([], p)
      | Some q \<Rightarrow> (case future_remove hs q of (removed, q') \<Rightarrow> (removed, p\<lparr>futures := hput shard q' (futures p)\<rparr>)))"

definition pool_prune_ready ::
  "tag \<Rightarrow> shard_identifier \<Rightarrow> 'x base_pool \<Rightarrow> ('x pool_operation list \<times> 'x base_pool) option" where
  "pool_prune_ready t shard p =
     (case hget (readies p) shard of
        None \<Rightarrow> Some ([], p)
      | Some s \<Rightarrow> map_option (\<lambda>(removed, s'). (removed, p\<lparr>readies := hput shard s' (readies p)\<rparr>)) (ready_prune_tags t s))"

lemma future_of_put [simp]: "future_of shard (p\<lparr>futures := hput shard' q (futures p)\<rparr>) = (if shard = shard' then q else future_of shard p)"
  by (simp add: future_of_def)

lemma ready_of_put [simp]: "ready_of shard (p\<lparr>readies := hput shard' s (readies p)\<rparr>) = (if shard = shard' then s else ready_of shard p)"
  by (simp add: ready_of_def)

lemma shard_of_other [simp]:
  "future_of shard (p\<lparr>readies := r\<rparr>) = future_of shard p" "ready_of shard (p\<lparr>futures := f\<rparr>) = ready_of shard p"
  by (simp_all add: future_of_def ready_of_def)

section \<open>Importing\<close>

lemma satisfy_waiting_length:
  "satisfy_waiting t hs m = Some (ws, m') \<Longrightarrow> length ws + length m' \<le> length m"
proof (induction t hs m arbitrary: ws m' rule: satisfy_waiting.induct)
  case (2 t h hs m)
  obtain w where w: "hget m h = Some w" using 2(3) by (cases "hget m h") auto
  show ?case
  proof (cases "is_ready (satisfy_tag t w)")
    case True
    then obtain ws' where "satisfy_waiting t hs (hdel h m) = Some (ws', m')" "ws = satisfy_tag t w # ws'"
      using 2(3) w by auto
    then show ?thesis using 2(1) [OF w refl True] length_hdel_less [OF w] by simp
  next
    case False
    then show ?thesis using 2(2) [OF w refl False, of ws m'] 2(3) w by (simp add: length_hput)
  qed
qed simp

lemma satisfy_tags_length:
  "satisfy_tags ts q = Some (ws, q') \<Longrightarrow> length ws + length (waiting q') \<le> length (waiting q)"
proof (induction ts arbitrary: q ws)
  case (Cons t ts)
  show ?case
  proof (cases "hget (wanted_tags q) t")
    case None
    then show ?thesis using Cons by simp
  next
    case (Some hs)
    then obtain ws1 m ws2 where m: "satisfy_waiting t hs (waiting q) = Some (ws1, m)"
      "satisfy_tags ts (q\<lparr>wanted_tags := hdel t (wanted_tags q), waiting := m\<rparr>) = Some (ws2, q')" "ws = ws1 @ ws2"
      using Cons.prems by (auto split: option.splits)
    from Cons.IH [OF m(2)] satisfy_waiting_length [OF m(1)] m(3) show ?thesis by simp
  qed
qed simp

lemma pool_satisfy_tags_length:
  "pool_satisfy_tags ts shard p = Some (ws, p') \<Longrightarrow>
     length ws + length (waiting (future_of shard p')) \<le> length (waiting (future_of shard p))"
  by (auto simp: pool_satisfy_tags_def future_of_def split: option.splits dest: satisfy_tags_length)

lemma pool_ready_import_future:
  "pool_ready_import w shard p = Some (r, p') \<Longrightarrow> future_of shard' p' = future_of shard' p"
  by (auto simp: pool_ready_import_def)

text \<open>The vector of operations to import is kept with its last element first.\<close>

function import_loop ::
  "shard_identifier \<Rightarrow> bool \<Rightarrow> 'x waiting_operation list \<Rightarrow> tx_hash list \<times> tx_hash list \<times> 'x pool_operation list \<Rightarrow> 'x base_pool
   \<Rightarrow> ((pool_error, tx_hash list \<times> tx_hash list \<times> 'x pool_operation list) result \<times> 'x base_pool) option" where
  "import_loop shard first [] acc p = Some (Ok acc, p)"
| "import_loop shard first (w # stack) acc p =
     (case pool_satisfy_tags (op_provides (waiting_op w)) shard p of
        None \<Rightarrow> None
      | Some (ws, p1) \<Rightarrow>
          (case pool_ready_import w shard p1 of
             None \<Rightarrow> None
           | Some (Ok replaced, p2) \<Rightarrow>
               import_loop shard False (rev ws @ stack)
                 (case acc of (prom, fail, removed) \<Rightarrow> (if first then prom else prom @ [op_hash (waiting_op w)], fail, removed @ replaced)) p2
           | Some (Err e, p2) \<Rightarrow>
               if first then Some (Err e, p2)
               else import_loop shard False (rev ws @ stack)
                      (case acc of (prom, fail, removed) \<Rightarrow> (prom, fail @ [op_hash (waiting_op w)], removed)) p2))"
  by pat_completeness auto
termination
proof (relation "measure (\<lambda>(shard, _, stack, _, p). length stack + length (waiting (future_of shard p)))", goal_cases)
  case (2 shard first w stack acc p x ws p1 y r p2 replaced)
  then show ?case using pool_satisfy_tags_length pool_ready_import_future [of w shard p1 r p2 shard] by fastforce
next
  case (3 shard first w stack acc p x ws p1 y r p2 e)
  then show ?case using pool_satisfy_tags_length pool_ready_import_future [of w shard p1 r p2 shard] by fastforce
qed simp

definition import_to_ready ::
  "'x waiting_operation \<Rightarrow> shard_identifier \<Rightarrow> 'x base_pool \<Rightarrow> ((pool_error, 'x imported) result \<times> 'x base_pool) option" where
  "import_to_ready w shard p =
     (let h = op_hash (waiting_op w)
      in case import_loop shard True [w] ([], [], []) p of
           None \<Rightarrow> None
         | Some (Err e, p') \<Rightarrow> Some (Err e, p')
         | Some (Ok (prom, fail, removed), p') \<Rightarrow>
             if \<exists>op\<in>set removed. op_hash op = h then Some (Err CycleDetected, snd (pool_ready_remove prom shard p'))
             else Some (Ok (ImportedReady h prom fail removed), p'))"

definition base_import ::
  "'x pool_operation \<Rightarrow> shard_identifier \<Rightarrow> 'x base_pool \<Rightarrow> ((pool_error, 'x imported) result \<times> 'x base_pool) option" where
  "base_import op shard p =
     (if is_imported (op_hash op) shard p then Some (Err AlreadyImported, p)
      else let w = waiting_new op (map_option provided_tags (hget (readies p) shard)) (recently_pruned p)
           in if is_ready w then import_to_ready w shard p
              else if reject_future_operations p then Some (Err RejectedFutureTrustedOperation, p)
              else map_option (Pair (Ok (ImportedFuture (op_hash op)))) (pool_future_import w shard p))"

section \<open>Queries\<close>

definition base_ready :: "shard_identifier \<Rightarrow> 'x base_pool \<Rightarrow> 'x best_iterator" where
  "base_ready shard p = ready_get (ready_of shard p)"

definition base_get_shards :: "'x base_pool \<Rightarrow> shard_identifier list" where
  "base_get_shards p = map fst (readies p)"

definition base_futures :: "shard_identifier \<Rightarrow> 'x base_pool \<Rightarrow> 'x pool_operation list" where
  "base_futures shard p = future_all (future_of shard p)"

fun option_or :: "'a option \<Rightarrow> 'a option \<Rightarrow> 'a option" where
  "option_or (Some a) b = Some a"
| "option_or None b = b"

definition base_by_hashes :: "tx_hash list \<Rightarrow> shard_identifier \<Rightarrow> 'x base_pool \<Rightarrow> 'x pool_operation option list" where
  "base_by_hashes hs shard p =
     map (\<lambda>(a, b). option_or a b)
       (zip (case hget (readies p) shard of None \<Rightarrow> [] | Some s \<Rightarrow> ready_by_hashes hs s)
            (case hget (futures p) shard of None \<Rightarrow> [] | Some q \<Rightarrow> future_by_hashes hs q))"

definition ready_by_hash :: "tx_hash \<Rightarrow> shard_identifier \<Rightarrow> 'x base_pool \<Rightarrow> 'x pool_operation option" where
  "ready_by_hash h shard p =
     (case (case hget (readies p) shard of None \<Rightarrow> [] | Some s \<Rightarrow> ready_by_hashes [h] s) of
        [] \<Rightarrow> None
      | x # _ \<Rightarrow> x)"

definition base_status :: "shard_identifier \<Rightarrow> 'x base_pool \<Rightarrow> pool_status" where
  "base_status shard p =
     \<lparr>status_ready = ready_len (ready_of shard p), status_ready_bytes = ready_bytes (ready_of shard p),
      status_future = future_len (future_of shard p), status_future_bytes = future_bytes (future_of shard p)\<rparr>"

section \<open>Removing and pruning\<close>

definition base_remove_subtree ::
  "tx_hash list \<Rightarrow> shard_identifier \<Rightarrow> 'x base_pool \<Rightarrow> 'x pool_operation list \<times> 'x base_pool" where
  "base_remove_subtree hs shard p =
     (case pool_ready_remove hs shard p of
        (removed, p') \<Rightarrow> (case pool_future_remove hs shard p' of (removed', p'') \<Rightarrow> (removed @ removed', p'')))"

definition clear_future :: "shard_identifier \<Rightarrow> 'x base_pool \<Rightarrow> 'x pool_operation list \<times> 'x base_pool" where
  "clear_future shard p =
     (case hget (futures p) shard of
        None \<Rightarrow> ([], p)
      | Some q \<Rightarrow> (case future_clear q of (ops, q') \<Rightarrow> (ops, p\<lparr>futures := hput shard q' (futures p)\<rparr>)))"

definition older :: "'x operation_ref option \<Rightarrow> 'x ready_tx \<Rightarrow> 'x operation_ref option" where
  "older minimal current =
     (case minimal of
        None \<Rightarrow> Some (tx_ref current)
      | Some r \<Rightarrow> if insertion_id r > insertion_id (tx_ref current) then Some (tx_ref current) else Some r)"

definition first_waiting :: "'x waiting_operation option \<Rightarrow> 'x waiting_operation \<Rightarrow> 'x waiting_operation option" where
  "first_waiting minimal current = (case minimal of None \<Rightarrow> Some current | Some w \<Rightarrow> Some w)"

partial_function (option) enforce_ready ::
  "limit \<Rightarrow> shard_identifier \<Rightarrow> 'x base_pool \<Rightarrow> ('x pool_operation list \<times> 'x base_pool) option" where
  "enforce_ready l shard p =
     (if is_exceeded l (ready_len (ready_of shard p)) (ready_bytes (ready_of shard p))
      then case ready_fold older (ready_of shard p) of
             None \<Rightarrow> Some ([], p)
           | Some r \<Rightarrow>
               (case base_remove_subtree [op_hash (ref_op r)] shard p of
                  (removed, p') \<Rightarrow>
                    Option.bind (enforce_ready l shard p') (\<lambda>(removed', p''). Some (removed @ removed', p'')))
      else Some ([], p))"

partial_function (option) enforce_future ::
  "limit \<Rightarrow> shard_identifier \<Rightarrow> 'x base_pool \<Rightarrow> ('x pool_operation list \<times> 'x base_pool) option" where
  "enforce_future l shard p =
     (if is_exceeded l (future_len (future_of shard p)) (future_bytes (future_of shard p))
      then case future_fold first_waiting (future_of shard p) of
             None \<Rightarrow> Some ([], p)
           | Some w \<Rightarrow>
               (case base_remove_subtree [op_hash (waiting_op w)] shard p of
                  (removed, p') \<Rightarrow>
                    Option.bind (enforce_future l shard p') (\<lambda>(removed', p''). Some (removed @ removed', p'')))
      else Some ([], p))"

definition enforce_limits ::
  "limit \<Rightarrow> limit \<Rightarrow> shard_identifier \<Rightarrow> 'x base_pool \<Rightarrow> ('x pool_operation list \<times> 'x base_pool) option" where
  "enforce_limits ready_limit future_limit shard p =
     Option.bind (enforce_ready ready_limit shard p) (\<lambda>(removed, p').
       Option.bind (enforce_future future_limit shard p') (\<lambda>(removed', p''). Some (removed @ removed', p'')))"

fun prune_each ::
  "tag list \<Rightarrow> shard_identifier \<Rightarrow> 'x base_pool
   \<Rightarrow> ('x waiting_operation list \<times> 'x pool_operation list \<times> 'x base_pool) option" where
  "prune_each [] shard p = Some ([], [], p)"
| "prune_each (t # ts) shard p =
     (case pool_satisfy_tags [t] shard p of
        None \<Rightarrow> None
      | Some (ws, p1) \<Rightarrow>
          (case pool_prune_ready t shard p1 of
             None \<Rightarrow> None
           | Some (ops, p2) \<Rightarrow>
               map_option (\<lambda>(ws', ops', p'). (ws @ ws', ops @ ops', p'))
                 (prune_each ts shard
                   (p2\<lparr>recently_pruned := (recently_pruned p2)
                        [recently_pruned_index p2 := hash_set_insert t (recently_pruned p2 ! recently_pruned_index p2)]\<rparr>))))"

fun promote_each ::
  "'x waiting_operation list \<Rightarrow> shard_identifier \<Rightarrow> 'x base_pool
   \<Rightarrow> ('x imported list \<times> tx_hash list \<times> 'x base_pool) option" where
  "promote_each [] shard p = Some ([], [], p)"
| "promote_each (w # ws) shard p =
     (case import_to_ready w shard p of
        None \<Rightarrow> None
      | Some (Ok res, p') \<Rightarrow> map_option (\<lambda>(prom, fail, p''). (res # prom, fail, p'')) (promote_each ws shard p')
      | Some (Err _, p') \<Rightarrow> map_option (\<lambda>(prom, fail, p''). (prom, op_hash (waiting_op w) # fail, p'')) (promote_each ws shard p'))"

text \<open>The index moves on before the tags are recorded; \<open>prune_each\<close> writes to the slot it pointed to.\<close>

definition base_prune_tags ::
  "tag list \<Rightarrow> shard_identifier \<Rightarrow> 'x base_pool \<Rightarrow> ('x prune_status \<times> 'x base_pool) option" where
  "base_prune_tags ts shard p =
     (case prune_each ts shard (p\<lparr>recently_pruned := (recently_pruned p)[recently_pruned_index p := []]\<rparr>) of
        None \<Rightarrow> None
      | Some (to_import, ops, p1) \<Rightarrow>
          (case promote_each to_import shard
                  (p1\<lparr>recently_pruned_index := (recently_pruned_index p1 + 1) mod RECENTLY_PRUNED_TAGS\<rparr>) of
             None \<Rightarrow> None
           | Some (prom, fail, p2) \<Rightarrow> Some (\<lparr>promoted = prom, prune_failed = fail, pruned = ops\<rparr>, p2)))"

section \<open>Invariant of the pool\<close>

abbreviation ready_ref :: "shard_identifier \<Rightarrow> 'x base_pool \<Rightarrow> tx_hash \<Rightarrow> 'x operation_ref option" where
  "ready_ref shard p \<equiv> refs (ready_map (ready_of shard p))"

abbreviation waiting_at :: "shard_identifier \<Rightarrow> 'x base_pool \<Rightarrow> (tx_hash, 'x waiting_operation) hmap" where
  "waiting_at shard p \<equiv> waiting (future_of shard p)"

text \<open>The queues of a shard: both well-formed, and no operation in both.\<close>

definition queues_wf :: "'x ready_shard \<Rightarrow> 'x future_shard \<Rightarrow> bool" where
  "queues_wf s q \<longleftrightarrow> ready_inv {} s \<and> future_wf q
     \<and> (\<forall>h w. hget (waiting q) h = Some w \<longrightarrow> op_wf (waiting_op w) \<and> refs (ready_map s) h = None)"

definition pool_inv :: "'x base_pool \<Rightarrow> bool" where
  "pool_inv p \<longleftrightarrow> (\<forall>shard. queues_wf (ready_of shard p) (future_of shard p))
     \<and> length (recently_pruned p) = RECENTLY_PRUNED_TAGS \<and> recently_pruned_index p < RECENTLY_PRUNED_TAGS"

lemma pool_inv_new: "pool_inv (base_new reject)"
  by (simp add: pool_inv_def base_new_def ready_of_def future_of_def queues_wf_def RECENTLY_PRUNED_TAGS_def)
    (simp add: future_default_def)

lemma pool_inv_queues:
  "pool_inv p \<Longrightarrow> ready_inv {} (ready_of shard p)" "pool_inv p \<Longrightarrow> future_wf (future_of shard p)"
  "pool_inv p \<Longrightarrow> hget (waiting_at shard p) h = Some w \<Longrightarrow> op_wf (waiting_op w) \<and> ready_ref shard p h = None"
  by (simp_all add: pool_inv_def queues_wf_def)

lemma pool_inv_put_ready:
  assumes "pool_inv p" "ready_inv {} s" "\<And>h w. hget (waiting_at shard p) h = Some w \<Longrightarrow> refs (ready_map s) h = None"
  shows "pool_inv (p\<lparr>readies := hput shard s (readies p)\<rparr>)"
  using assms by (auto simp: pool_inv_def queues_wf_def)

lemma pool_inv_put_future:
  assumes "pool_inv p" "future_wf q"
    "\<And>h w. hget (waiting q) h = Some w \<Longrightarrow> op_wf (waiting_op w) \<and> ready_ref shard p h = None"
  shows "pool_inv (p\<lparr>futures := hput shard q (futures p)\<rparr>)"
  using assms by (auto simp: pool_inv_def queues_wf_def)

lemma pool_inv_recent:
  "pool_inv p \<Longrightarrow> length xs = RECENTLY_PRUNED_TAGS \<Longrightarrow> pool_inv (p\<lparr>recently_pruned := xs\<rparr>)"
  "pool_inv p \<Longrightarrow> i < RECENTLY_PRUNED_TAGS \<Longrightarrow> pool_inv (p\<lparr>recently_pruned_index := i\<rparr>)"
  by (simp_all add: pool_inv_def queues_wf_def ready_of_def future_of_def)

text \<open>Operations taken out of the future queue on their way to the ready queue.\<close>

definition in_transit :: "shard_identifier \<Rightarrow> 'x base_pool \<Rightarrow> 'x waiting_operation list \<Rightarrow> bool" where
  "in_transit shard p ws \<longleftrightarrow> distinct (waiting_hashes ws)
     \<and> (\<forall>w\<in>set ws. is_ready w \<and> op_wf (waiting_op w) \<and> ready_ref shard p (op_hash (waiting_op w)) = None
          \<and> hget (waiting_at shard p) (op_hash (waiting_op w)) = None)"

lemma pool_satisfy_tags_wf:
  assumes "pool_inv p" "in_transit shard p stack"
  obtains ws p' where "pool_satisfy_tags ts shard p = Some (ws, p')" "pool_inv p'" "in_transit shard p' (rev ws @ stack)"
    "\<And>k. ready_of k p' = ready_of k p" "in_transit shard p' (stack @ ws)"
    "\<And>h. h \<in> set (waiting_hashes ws) \<Longrightarrow> hget (waiting_at shard p) h \<noteq> None"
    "recently_pruned_index p' = recently_pruned_index p" "recently_pruned p' = recently_pruned p"
proof (cases "hget (futures p) shard")
  case None
  then show ?thesis using assms by (intro that [of "[]" p]) (simp_all add: pool_satisfy_tags_def)
next
  case (Some q)
  then have q: "future_of shard p = q" by (simp add: future_of_def)
  have wf: "future_wf q" using pool_inv_queues(2) [OF assms(1), of shard] q by simp
  obtain ws q' where S: "satisfy_tags ts q = Some (ws, q')" "future_wf q'" "set ws = released (set ts) (waiting q)"
    "distinct (waiting_hashes ws)" "\<forall>h. hget (waiting q') h = retained (set ts) (waiting q) h"
    using satisfy_tags_wf [OF wf] by blast
  let ?p = "p\<lparr>futures := hput shard q' (futures p)\<rparr>"
  have run: "pool_satisfy_tags ts shard p = Some (ws, ?p)" using Some S(1) by (simp add: pool_satisfy_tags_def)
  have sub: "\<exists>v. hget (waiting q) h = Some v \<and> waiting_op w = waiting_op v" if "hget (waiting q') h = Some w" for h w
    using that S(5) by (auto simp: retained_def split: option.splits if_splits)
  have out: "\<exists>v. hget (waiting q) (op_hash (waiting_op w)) = Some v \<and> waiting_op w = waiting_op v
      \<and> is_ready w \<and> hget (waiting q') (op_hash (waiting_op w)) = None" if "w \<in> set ws" for w
  proof -
    obtain h v where v: "w = still_missing (set ts) v" "hget (waiting q) h = Some v" "set (missing_tags v) \<subseteq> set ts"
      using \<open>w \<in> set ws\<close> S(3) by (auto simp: released_def)
    then have "op_hash (waiting_op v) = h" using wf by (simp add: future_wf_def waiting_wf_def)
    then show ?thesis using v S(5) is_ready_still_missing [of "set ts" v] by (simp add: retained_def)
  qed
  have inv: "pool_inv ?p"
  proof (rule pool_inv_put_future [OF assms(1) S(2)])
    fix h w assume "hget (waiting q') h = Some w"
    then obtain v where "hget (waiting q) h = Some v" "waiting_op w = waiting_op v" using sub by blast
    then show "op_wf (waiting_op w) \<and> ready_ref shard p h = None" using pool_inv_queues(3) [OF assms(1)] q by metis
  qed
  have none: "hget (waiting q') h = None" if "hget (waiting q) h = None" for h
    using sub that by (metis not_None_eq)
  have "\<forall>w\<in>set ws \<union> set stack. is_ready w \<and> op_wf (waiting_op w) \<and> ready_ref shard ?p (op_hash (waiting_op w)) = None
      \<and> hget (waiting_at shard ?p) (op_hash (waiting_op w)) = None"
  proof
    fix w assume "w \<in> set ws \<union> set stack"
    then show "is_ready w \<and> op_wf (waiting_op w) \<and> ready_ref shard ?p (op_hash (waiting_op w)) = None
      \<and> hget (waiting_at shard ?p) (op_hash (waiting_op w)) = None"
    proof
      assume "w \<in> set ws"
      from out [OF this] show ?thesis using pool_inv_queues(3) [OF assms(1)] q by fastforce
    next
      assume "w \<in> set stack"
      then show ?thesis using assms(2) none q by (simp add: in_transit_def)
    qed
  qed
  moreover have "set (waiting_hashes ws) \<inter> set (waiting_hashes stack) = {}"
    using out assms(2) q by (fastforce simp: in_transit_def)
  ultimately have "in_transit shard ?p (rev ws @ stack)" "in_transit shard ?p (stack @ ws)"
    using S(4) assms(2) by (auto simp: in_transit_def rev_map [symmetric])
  with run inv show ?thesis
    using out q by (intro that [of ws ?p]) auto
qed

lemma pool_ready_import_wf:
  assumes "pool_inv p" "in_transit shard p (w # stack)"
  obtains res p' where "pool_ready_import w shard p = Some (res, p')" "pool_inv p'" "in_transit shard p' stack"
    "\<And>k. future_of k p' = future_of k p" "recently_pruned_index p' = recently_pruned_index p" "recently_pruned p' = recently_pruned p"
proof -
  let ?s = "ready_of shard p" and ?h = "op_hash (waiting_op w)"
  have w: "is_ready w" "op_wf (waiting_op w)" "refs (ready_map ?s) ?h = None" "hget (waiting_at shard p) ?h = None"
    using assms(2) by (simp_all add: in_transit_def)
  have "\<exists>res s'. ready_import w ?s = Some (res, s') \<and> ready_inv {} s'
      \<and> (\<forall>h. h \<noteq> ?h \<longrightarrow> refs (ready_map ?s) h = None \<longrightarrow> refs (ready_map s') h = None)"
  proof (cases rule: ready_import_wf [OF pool_inv_queues(1) [OF assms(1), of shard] w(1-3)])
    case (1 ops s' r)
    have "refs (ready_map s') h = None" if "h \<noteq> ?h" "refs (ready_map ?s) h = None" for h
      using 1(6) [OF that(1)] that(2) by (cases "refs (ready_map s') h") simp_all
    with 1(1,2) show ?thesis by blast
  next
    case (2 s')
    then show ?thesis by simp
  qed
  then obtain res s' where s': "ready_import w ?s = Some (res, s')" "ready_inv {} s'"
    "\<And>h. h \<noteq> ?h \<Longrightarrow> refs (ready_map ?s) h = None \<Longrightarrow> refs (ready_map s') h = None"
    by blast
  let ?p = "p\<lparr>readies := hput shard s' (readies p)\<rparr>"
  have "pool_inv ?p"
  proof (rule pool_inv_put_ready [OF assms(1) s'(2)])
    fix h v assume "hget (waiting_at shard p) h = Some v"
    then show "refs (ready_map s') h = None" using pool_inv_queues(3) [OF assms(1), of shard h v] s'(3) [of h] w(4) by (cases "h = ?h") simp_all
  qed
  moreover have "in_transit shard ?p stack"
    unfolding in_transit_def
  proof (intro conjI ballI)
    fix v assume v: "v \<in> set stack"
    then have "op_hash (waiting_op v) \<in> set (waiting_hashes stack)" by simp
    then have "op_hash (waiting_op v) \<noteq> ?h" using assms(2) by (auto simp only: in_transit_def list.map distinct.simps)
    moreover have "ready_ref shard p (op_hash (waiting_op v)) = None" using assms(2) v by (simp add: in_transit_def)
    ultimately show "ready_ref shard ?p (op_hash (waiting_op v)) = None" using s'(3) by simp
  qed (use assms(2) in \<open>simp_all add: in_transit_def\<close>)
  ultimately show ?thesis
    using s'(1) by (intro that [of res ?p]) (simp_all add: pool_ready_import_def)
qed

lemma in_transit_append: "in_transit shard p (ws @ rest) \<Longrightarrow> in_transit shard p rest"
  by (simp add: in_transit_def)

lemma import_loop_wf:
  assumes "pool_inv p" "in_transit shard p (stack @ rest)"
  shows "\<exists>res p'. import_loop shard first stack acc p = Some (res, p') \<and> pool_inv p' \<and> in_transit shard p' rest"
  using assms
proof (induction shard first stack acc p rule: import_loop.induct)
  case (2 shard first w stack acc p)
  let ?ts = "op_provides (waiting_op w)"
  obtain ws p1 where p1: "pool_satisfy_tags ?ts shard p = Some (ws, p1)" "pool_inv p1"
    "in_transit shard p1 (rev ws @ (w # stack) @ rest)"
    by (rule pool_satisfy_tags_wf [OF 2(3,4), of ?ts])
  then have "in_transit shard p1 (w # rev ws @ stack @ rest)" by (auto simp: in_transit_def)
  then obtain res p2 where p2: "pool_ready_import w shard p1 = Some (res, p2)" "pool_inv p2"
    "in_transit shard p2 ((rev ws @ stack) @ rest)"
    using pool_ready_import_wf [OF p1(2), of shard w "rev ws @ stack @ rest"] unfolding append_assoc by blast
  show ?case
  proof (cases res)
    case (Err e)
    show ?thesis
    proof (cases first)
      case True
      then show ?thesis using p1 p2 Err in_transit_append [OF p2(3)] by simp
    next
      case False
      from 2(1) [OF p1(1) refl p2(1) [unfolded Err] refl refl False p2(2,3)] p1 p2 Err False show ?thesis by simp
    qed
  next
    case (Ok ops)
    from 2(2) [OF p1(1) refl p2(1) [unfolded Ok] refl refl p2(2,3)] p1 p2 Ok show ?thesis by simp
  qed
qed simp

lemma pool_ready_remove_wf:
  assumes "pool_inv p" "pool_ready_remove hs shard p = (ops, p')"
  shows "pool_inv p' \<and> (\<forall>k. future_of k p' = future_of k p) \<and> (\<forall>h\<in>set hs. ready_ref shard p' h = None)
    \<and> (\<forall>h. ready_ref shard p h = None \<longrightarrow> ready_ref shard p' h = None)
    \<and> recently_pruned_index p' = recently_pruned_index p \<and> recently_pruned p' = recently_pruned p"
proof (cases "hget (readies p) shard")
  case None
  then have "ready_ref shard p h = None" for h by (simp add: ready_of_def ready_default_def)
  then show ?thesis using None assms by (simp add: pool_ready_remove_def)
next
  case (Some s)
  then have s: "ready_of shard p = s" by (simp add: ready_of_def)
  obtain s' where s': "ready_remove_subtree hs s = (ops, s')" "p' = p\<lparr>readies := hput shard s' (readies p)\<rparr>"
    using assms(2) Some by (auto simp: pool_ready_remove_def split: prod.splits)
  have R: "ready_inv {} s'" "removal s ops s'" "\<forall>h\<in>set hs. refs (ready_map s') h = None"
    using ready_remove_subtree_wf [OF _ s'(1)] pool_inv_queues(1) [OF assms(1), of shard] s by auto
  have gone: "refs (ready_map s') h = None" if "refs (ready_map s) h = None" for h
    using removal_gone [OF R(2) that] .
  have "pool_inv p'"
    unfolding s'(2) using pool_inv_queues(3) [OF assms(1)] s gone by (intro pool_inv_put_ready [OF assms(1) R(1)]) blast
  then show ?thesis using R(3) gone s by (simp add: s'(2))
qed

lemma pool_future_remove_wf:
  assumes "pool_inv p" "pool_future_remove hs shard p = (ops, p')"
  shows "pool_inv p' \<and> (\<forall>k. ready_of k p' = ready_of k p)
    \<and> (\<forall>h. hget (waiting_at shard p') h = (if h \<in> set hs then None else hget (waiting_at shard p) h))
    \<and> recently_pruned_index p' = recently_pruned_index p \<and> recently_pruned p' = recently_pruned p"
proof (cases "hget (futures p) shard")
  case None
  then have "hget (waiting_at shard p) h = None" for h by (simp add: future_of_def future_default_def)
  then show ?thesis using None assms by (simp add: pool_future_remove_def)
next
  case (Some q)
  then have q: "future_of shard p = q" by (simp add: future_of_def)
  obtain q' where q': "future_remove hs q = (ops, q')" "p' = p\<lparr>futures := hput shard q' (futures p)\<rparr>"
    using assms(2) Some by (auto simp: pool_future_remove_def split: prod.splits)
  have R: "future_wf q'" "\<And>h. hget (waiting q') h = (if h \<in> set hs then None else hget (waiting q) h)"
    using future_remove_wf [OF _ q'(1)] pool_inv_queues(2) [OF assms(1), of shard] q by auto
  have "op_wf (waiting_op w) \<and> ready_ref shard p h = None" if "hget (waiting q') h = Some w" for h w
    using pool_inv_queues(3) [OF assms(1), of shard h w] that R(2) q by (simp split: if_splits)
  then have "pool_inv p'" unfolding q'(2) by (intro pool_inv_put_future [OF assms(1) R(1)])
  then show ?thesis using R(2) q by (simp add: q'(2))
qed

lemma base_remove_subtree_wf:
  assumes "pool_inv p" "base_remove_subtree hs shard p = (ops, p')"
  shows "pool_inv p' \<and> (\<forall>h\<in>set hs. ready_ref shard p' h = None \<and> hget (waiting_at shard p') h = None)
    \<and> (\<forall>h. ready_ref shard p h = None \<longrightarrow> ready_ref shard p' h = None)
    \<and> (\<forall>h. hget (waiting_at shard p) h = None \<longrightarrow> hget (waiting_at shard p') h = None)"
proof -
  obtain o1 p1 o2 where p1: "pool_ready_remove hs shard p = (o1, p1)" "pool_future_remove hs shard p1 = (o2, p')"
    using assms(2) by (auto simp: base_remove_subtree_def split: prod.splits)
  note A = pool_ready_remove_wf [OF assms(1) p1(1)]
  then show ?thesis using pool_future_remove_wf [OF _ p1(2)] by auto
qed

lemma import_to_ready_wf:
  assumes "pool_inv p" "in_transit shard p (w # rest)"
  shows "\<exists>res p'. import_to_ready w shard p = Some (res, p') \<and> pool_inv p' \<and> in_transit shard p' rest"
proof -
  obtain res p1 where p1: "import_loop shard True [w] ([], [], []) p = Some (res, p1)" "pool_inv p1" "in_transit shard p1 rest"
    using import_loop_wf [OF assms(1), of shard "[w]" rest True "([], [], [])"] assms(2) unfolding append.simps by blast
  show ?thesis
  proof (cases res)
    case (Err e)
    then show ?thesis using p1 by (simp add: import_to_ready_def)
  next
    case (Ok x)
    obtain prom fail ops where x: "x = (prom, fail, ops)" by (cases x)
    obtain o2 p2 where p2: "pool_ready_remove prom shard p1 = (o2, p2)" by fastforce
    have "pool_inv p2 \<and> in_transit shard p2 rest"
      using pool_ready_remove_wf [OF p1(2) p2] p1(3) by (auto simp: in_transit_def)
    then show ?thesis using p1 p2 Ok x by (simp add: import_to_ready_def Let_def)
  qed
qed

lemma base_import_wf:
  assumes "pool_inv p" "op_wf op"
  shows "\<exists>res p'. base_import op shard p = Some (res, p') \<and> pool_inv p'"
proof (cases "is_imported (op_hash op) shard p")
  case False
  define w where "w = waiting_new op (map_option provided_tags (hget (readies p) shard)) (recently_pruned p)"
  have op: "waiting_op w = op" by (simp add: w_def waiting_new_def)
  have fresh: "ready_ref shard p (op_hash op) = None" "hget (waiting_at shard p) (op_hash op) = None"
    using False by (simp_all add: is_imported_def ready_contains_def future_contains_def refs_def)
  show ?thesis
  proof (cases "is_ready w")
    case True
    then have "in_transit shard p [w]" using assms(2) fresh by (simp add: in_transit_def op)
    then obtain res p' where "import_to_ready w shard p = Some (res, p')" "pool_inv p'"
      using import_to_ready_wf [OF assms(1)] by blast
    with True False show ?thesis by (simp add: base_import_def w_def [symmetric] Let_def)
  next
    case not_ready: False
    have "\<not> future_contains (op_hash (waiting_op w)) (future_of shard p)" using fresh op by (simp add: future_contains_def)
    then obtain q' where q': "future_import w (future_of shard p) = Some q'" "future_wf q'"
      "waiting q' = hput (op_hash (waiting_op w)) w (waiting (future_of shard p))"
      using future_import_wf [OF pool_inv_queues(2) [OF assms(1)] not_ready] by blast
    have "op_wf (waiting_op v) \<and> ready_ref shard p h = None" if "hget (waiting q') h = Some v" for h v
      using that q'(3) pool_inv_queues(3) [OF assms(1), of shard h v] assms(2) fresh(1) op by (auto split: if_splits)
    then have "pool_inv (p\<lparr>futures := hput shard q' (futures p)\<rparr>)" by (intro pool_inv_put_future [OF assms(1) q'(2)])
    then show ?thesis
      using assms(1) False not_ready q'(1) by (simp add: base_import_def w_def [symmetric] pool_future_import_def)
  qed
qed (use assms(1) in \<open>simp add: base_import_def\<close>)

lemma pool_prune_ready_wf:
  assumes "pool_inv p" "in_transit shard p ws"
  obtains ops p' where "pool_prune_ready t shard p = Some (ops, p')" "pool_inv p'" "in_transit shard p' ws"
proof (cases "hget (readies p) shard")
  case None
  then show ?thesis using assms by (intro that [of "[]" p]) (simp_all add: pool_prune_ready_def)
next
  case (Some s)
  then have s: "ready_of shard p = s" by (simp add: ready_of_def)
  obtain ops s' where s': "prune_loop [t] s = Some (ops, s')" "ready_inv {} s'" "removal s ops s'"
    using prune_loop_wf [of s "[t]"] pool_inv_queues(1) [OF assms(1), of shard] s by blast
  let ?p = "p\<lparr>readies := hput shard s' (readies p)\<rparr>"
  have gone: "refs (ready_map s') h = None" if "refs (ready_map s) h = None" for h
    using removal_gone [OF s'(3) that] .
  have "pool_inv ?p"
    using pool_inv_queues(3) [OF assms(1)] s gone by (intro pool_inv_put_ready [OF assms(1) s'(2)]) blast
  moreover have "in_transit shard ?p ws" using assms(2) gone s by (simp add: in_transit_def)
  ultimately show ?thesis
    using Some s'(1) by (intro that [of ops ?p]) (simp_all add: pool_prune_ready_def ready_prune_tags_def)
qed

lemma prune_each_wf:
  assumes "pool_inv p" "in_transit shard p ws0"
  shows "\<exists>ws ops p'. prune_each ts shard p = Some (ws, ops, p') \<and> pool_inv p' \<and> in_transit shard p' (ws0 @ ws)"
  using assms
proof (induction ts arbitrary: p ws0)
  case (Cons t ts)
  obtain ws p1 where p1: "pool_satisfy_tags [t] shard p = Some (ws, p1)" "pool_inv p1" "in_transit shard p1 (ws0 @ ws)"
    by (rule pool_satisfy_tags_wf [OF Cons.prems])
  obtain ops p2 where p2: "pool_prune_ready t shard p1 = Some (ops, p2)" "pool_inv p2" "in_transit shard p2 (ws0 @ ws)"
    by (rule pool_prune_ready_wf [OF p1(2,3)])
  let ?p = "p2\<lparr>recently_pruned := (recently_pruned p2)
      [recently_pruned_index p2 := hash_set_insert t (recently_pruned p2 ! recently_pruned_index p2)]\<rparr>"
  have "pool_inv ?p" using p2(2) by (intro pool_inv_recent(1)) (simp_all add: pool_inv_def)
  moreover have "in_transit shard ?p (ws0 @ ws)" using p2(3) by (simp add: in_transit_def ready_of_def future_of_def)
  ultimately obtain ws' ops' p' where "prune_each ts shard ?p = Some (ws', ops', p')" "pool_inv p'"
    "in_transit shard p' ((ws0 @ ws) @ ws')"
    using Cons.IH by blast
  then show ?case using p1(1) p2(1) by simp
qed simp

lemma promote_each_wf:
  assumes "pool_inv p" "in_transit shard p ws"
  shows "\<exists>prom fail p'. promote_each ws shard p = Some (prom, fail, p') \<and> pool_inv p'"
  using assms
proof (induction ws arbitrary: p)
  case (Cons w ws)
  obtain res p1 where p1: "import_to_ready w shard p = Some (res, p1)" "pool_inv p1" "in_transit shard p1 ws"
    using import_to_ready_wf [OF Cons.prems] by blast
  from Cons.IH [OF p1(2,3)] p1(1) show ?case by (cases res) auto
qed simp

lemma base_prune_tags_wf:
  assumes "pool_inv p"
  shows "\<exists>status p'. base_prune_tags ts shard p = Some (status, p') \<and> pool_inv p'"
proof -
  let ?p = "p\<lparr>recently_pruned := (recently_pruned p)[recently_pruned_index p := []]\<rparr>"
  have "pool_inv ?p" using assms by (intro pool_inv_recent(1)) (simp_all add: pool_inv_def)
  moreover have "in_transit shard ?p []" by (simp add: in_transit_def)
  ultimately obtain ws ops p1 where p1: "prune_each ts shard ?p = Some (ws, ops, p1)" "pool_inv p1" "in_transit shard p1 ws"
    using prune_each_wf [of ?p shard "[]" ts] by auto
  let ?q = "p1\<lparr>recently_pruned_index := (recently_pruned_index p1 + 1) mod RECENTLY_PRUNED_TAGS\<rparr>"
  have "pool_inv ?q" using p1(2) by (intro pool_inv_recent(2)) (simp_all add: RECENTLY_PRUNED_TAGS_def)
  moreover have "in_transit shard ?q ws" using p1(3) by (simp add: in_transit_def ready_of_def future_of_def)
  ultimately obtain prom fail p2 where "promote_each ws shard ?q = Some (prom, fail, p2)" "pool_inv p2"
    using promote_each_wf by blast
  with p1(1) show ?thesis by (simp add: base_prune_tags_def)
qed

lemma clear_future_wf:
  assumes "pool_inv p"
  shows "pool_inv (snd (clear_future shard p))"
  using pool_inv_put_future [OF assms, of future_default shard] assms
  by (cases "hget (futures p) shard") (simp_all add: clear_future_def future_clear_def, simp add: future_default_def)

section \<open>Enforcing the limits\<close>

lemma foldl_older:
  "foldl older m xs = None \<longleftrightarrow> m = None \<and> xs = []"
  "foldl older m xs = Some r \<Longrightarrow> m = Some r \<or> r \<in> tx_ref ` set xs"
proof (induction xs arbitrary: m)
  case (Cons x xs)
  {
    case 1
    show ?case using Cons(1) [of "older m x"] by (cases m) (auto simp: older_def)
  next
    case 2
    then show ?case using Cons(2) [of "older m x"] by (cases m) (auto simp: older_def split: if_splits)
  }
qed auto

lemma foldl_first_waiting:
  "foldl first_waiting m xs = (case m of Some w \<Rightarrow> Some w | None \<Rightarrow> (case xs of [] \<Rightarrow> None | x # _ \<Rightarrow> Some x))"
  by (induction xs arbitrary: m) (auto simp: first_waiting_def split: option.split list.split)

lemma index_mono_less:
  assumes "hwf m'" "\<And>h. hget m h = None \<Longrightarrow> hget m' h = None" "hget m k \<noteq> None" "hget m' k = None"
  shows "length m' < length m"
proof -
  have "set (map fst m') \<subseteq> set (map fst m) - {k}"
  proof
    fix h assume h: "h \<in> set (map fst m')"
    then have "hget m' h \<noteq> None" by (metis map_of_eq_None_iff list.set_map)
    then show "h \<in> set (map fst m) - {k}" using assms(2) [of h] assms(4) by (auto simp: map_of_eq_None_iff)
  qed
  moreover have "k \<in> set (map fst m)" using assms(3) by (metis map_of_eq_None_iff list.set_map)
  ultimately have "set (map fst m') \<subset> set (map fst m)" by blast
  then have "card (set (map fst m')) < card (set (map fst m))" by (intro psubset_card_mono) simp_all
  then show ?thesis using distinct_card [OF assms(1)] card_length [of "map fst m"] by simp
qed

lemma enforce_ready_wf:
  assumes "pool_inv p"
  shows "\<exists>ops p'. enforce_ready l shard p = Some (ops, p') \<and> pool_inv p'
    \<and> \<not> is_exceeded l (ready_len (ready_of shard p')) (ready_bytes (ready_of shard p'))"
  using assms
proof (induction "length (index (ready_map (ready_of shard p)))" arbitrary: p rule: less_induct)
  case less
  let ?s = "ready_of shard p"
  have ok: "tracked_ok ready_tx_size (ready_map ?s)"
    using pool_inv_queues(1) [OF less.prems, of shard] by (simp add: ready_inv_def)
  show ?case
  proof (cases "is_exceeded l (ready_len ?s) (ready_bytes ?s)")
    case False
    then show ?thesis using less.prems by (subst enforce_ready.simps) simp
  next
    case True
    have "index (ready_map ?s) \<noteq> []"
      using True tracked_ok_sizes [OF ok] by (auto simp: is_exceeded_def ready_len_def ready_bytes_def)
    then obtain r where r: "ready_fold older ?s = Some r"
      using foldl_older(1) [of None "map snd (index (ready_map ?s))"] by (auto simp: ready_fold_def)
    then obtain h tx where tx: "(h, tx) \<in> set (index (ready_map ?s))" "tx_ref tx = r"
      using foldl_older(2) [of None "map snd (index (ready_map ?s))" r] by (auto simp: ready_fold_def)
    then have get: "hget (index (ready_map ?s)) h = Some tx" using ok by (simp add: tracked_ok_def)
    then have "refs (ready_map ?s) h = Some r" using tx(2) by (simp add: refs_def)
    then have h: "op_hash (ref_op r) = h"
      using refs_wfD(1) pool_inv_queues(1) [OF less.prems, of shard] unfolding ready_inv_def by blast
    obtain ops p1 where p1: "base_remove_subtree [h] shard p = (ops, p1)" by fastforce
    note R = base_remove_subtree_wf [OF less.prems p1]
    have "length (index (ready_map (ready_of shard p1))) < length (index (ready_map ?s))"
    proof (rule index_mono_less)
      show "hwf (index (ready_map (ready_of shard p1)))"
        using pool_inv_queues(1) [of p1 shard] R by (simp add: ready_inv_def tracked_ok_def)
      show "hget (index (ready_map ?s)) h \<noteq> None" using get by simp
    qed (use R in \<open>simp_all add: refs_def\<close>)
    from less.hyps [OF this] R obtain ops' p2 where "enforce_ready l shard p1 = Some (ops', p2)" "pool_inv p2"
      "\<not> is_exceeded l (ready_len (ready_of shard p2)) (ready_bytes (ready_of shard p2))"
      by blast
    then show ?thesis using True r h p1 by (subst enforce_ready.simps) simp
  qed
qed

lemma base_remove_waiting:
  assumes "pool_inv p" "hget (waiting_at shard p) h \<noteq> None" "base_remove_subtree [h] shard p = (ops, p')"
  shows "ready_of shard p' = ready_of shard p"
proof -
  have none: "hget (index (ready_map (ready_of shard p))) h = None"
    using pool_inv_queues(3) [OF assms(1)] assms(2) by (fastforce simp: refs_def)
  obtain o1 p1 o2 where p1: "pool_ready_remove [h] shard p = (o1, p1)" "pool_future_remove [h] shard p1 = (o2, p')"
    using assms(3) by (auto simp: base_remove_subtree_def split: prod.splits)
  have "ready_of shard p1 = ready_of shard p"
    using p1(1) none by (auto simp: pool_ready_remove_def ready_remove_subtree_def remove_subtree_with_tag_filter_def ready_of_def
        split: option.splits)
  then show ?thesis
    using p1(2) by (auto simp: pool_future_remove_def split: option.splits prod.splits)
qed

lemma enforce_future_wf:
  assumes "pool_inv p"
  shows "\<exists>ops p'. enforce_future l shard p = Some (ops, p') \<and> pool_inv p'
    \<and> ready_of shard p' = ready_of shard p
    \<and> \<not> is_exceeded l (future_len (future_of shard p')) (future_bytes (future_of shard p'))"
  using assms
proof (induction "length (waiting_at shard p)" arbitrary: p rule: less_induct)
  case less
  let ?q = "future_of shard p"
  show ?case
  proof (cases "is_exceeded l (future_len ?q) (future_bytes ?q)")
    case False
    then show ?thesis using less.prems by (subst enforce_future.simps) simp
  next
    case True
    have wf: "waiting_wf (waiting ?q)" using pool_inv_queues(2) [OF less.prems, of shard] by (simp add: future_wf_def)
    have "waiting ?q \<noteq> []" using True by (auto simp: is_exceeded_def future_len_def future_bytes_def future_all_def)
    then obtain h w m where m: "waiting ?q = (h, w) # m" by (metis list.exhaust surj_pair)
    then have w: "future_fold first_waiting ?q = Some w" by (simp add: future_fold_def foldl_first_waiting first_waiting_def)
    have get: "hget (waiting ?q) h = Some w" using m by simp
    then have h: "op_hash (waiting_op w) = h" using wf by (simp add: waiting_wf_def)
    obtain ops p1 where p1: "base_remove_subtree [h] shard p = (ops, p1)" by fastforce
    note R = base_remove_subtree_wf [OF less.prems p1]
    have "length (waiting_at shard p1) < length (waiting ?q)"
    proof (rule index_mono_less)
      show "hwf (waiting_at shard p1)"
        using pool_inv_queues(2) [of p1 shard] R by (simp add: future_wf_def waiting_wf_def)
      show "hget (waiting ?q) h \<noteq> None" using get by simp
    qed (use R in simp_all)
    from less.hyps [OF this] R obtain ops' p2 where "enforce_future l shard p1 = Some (ops', p2)" "pool_inv p2"
      "ready_of shard p2 = ready_of shard p1"
      "\<not> is_exceeded l (future_len (future_of shard p2)) (future_bytes (future_of shard p2))"
      by blast
    moreover have "ready_of shard p1 = ready_of shard p" using base_remove_waiting [OF less.prems _ p1] get by simp
    ultimately show ?thesis using True w h p1 by (subst enforce_future.simps) simp
  qed
qed

lemma enforce_limits_wf:
  assumes "pool_inv p"
  shows "\<exists>ops p'. enforce_limits rl fl shard p = Some (ops, p') \<and> pool_inv p'
    \<and> \<not> is_exceeded rl (ready_len (ready_of shard p')) (ready_bytes (ready_of shard p'))
    \<and> \<not> is_exceeded fl (future_len (future_of shard p')) (future_bytes (future_of shard p'))"
proof -
  obtain o1 p1 where p1: "enforce_ready rl shard p = Some (o1, p1)" "pool_inv p1"
    "\<not> is_exceeded rl (ready_len (ready_of shard p1)) (ready_bytes (ready_of shard p1))"
    using enforce_ready_wf [OF assms] by blast
  from enforce_future_wf [OF p1(2), of fl shard] p1 show ?thesis by (auto simp: enforce_limits_def)
qed

section \<open>Sequences of operations\<close>

datatype 'x pool_command =
    Import "'x pool_operation" shard_identifier
  | RemoveSubtree "tx_hash list" shard_identifier
  | PruneTags "tag list" shard_identifier
  | EnforceLimits limit limit shard_identifier
  | ClearFuture shard_identifier

fun run_command :: "'x pool_command \<Rightarrow> 'x base_pool \<Rightarrow> 'x base_pool option" where
  "run_command (Import op shard) p = map_option snd (base_import op shard p)"
| "run_command (RemoveSubtree hs shard) p = Some (snd (base_remove_subtree hs shard p))"
| "run_command (PruneTags ts shard) p = map_option snd (base_prune_tags ts shard p)"
| "run_command (EnforceLimits rl fl shard) p = map_option snd (enforce_limits rl fl shard p)"
| "run_command (ClearFuture shard) p = Some (snd (clear_future shard p))"

fun run_commands :: "'x pool_command list \<Rightarrow> 'x base_pool \<Rightarrow> 'x base_pool option" where
  "run_commands [] p = Some p"
| "run_commands (c # cs) p = Option.bind (run_command c p) (run_commands cs)"

fun command_wf :: "'x pool_command \<Rightarrow> bool" where
  "command_wf (Import op shard) = op_wf op"
| "command_wf _ = True"

declare enforce_ready.simps [code] enforce_future.simps [code]

lemma run_command_wf:
  assumes "pool_inv p" "command_wf c"
  obtains p' where "run_command c p = Some p'" "pool_inv p'"
proof (cases c)
  case (Import op shard)
  then show ?thesis using base_import_wf [OF assms(1), of op shard] assms(2) that by auto
next
  case (RemoveSubtree hs shard)
  then show ?thesis using base_remove_subtree_wf [OF assms(1), of hs shard] that by (metis prod.collapse run_command.simps(2))
next
  case (PruneTags ts shard)
  then show ?thesis using base_prune_tags_wf [OF assms(1), of ts shard] that by auto
next
  case (EnforceLimits rl fl shard)
  then show ?thesis using enforce_limits_wf [OF assms(1), of rl fl shard] that by auto
next
  case (ClearFuture shard)
  then show ?thesis using clear_future_wf [OF assms(1)] that by simp
qed

lemma run_commands_wf:
  assumes "pool_inv p" "\<forall>c\<in>set cs. command_wf c"
  shows "\<exists>p'. run_commands cs p = Some p' \<and> pool_inv p'"
  using assms
proof (induction cs arbitrary: p)
  case (Cons c cs)
  obtain p1 where "run_command c p = Some p1" "pool_inv p1" using run_command_wf [of p c] Cons.prems by auto
  with Cons.IH [of p1] Cons.prems(2) show ?case by simp
qed simp

definition example_op :: "tx_hash \<Rightarrow> u64 \<Rightarrow> tag list \<Rightarrow> tag list \<Rightarrow> unit pool_operation" where
  "example_op h prio req prov =
     \<lparr>op_data = (), op_bytes = 1, op_hash = h, op_priority = prio, valid_till = 10, op_requires = req, op_provides = prov,
      op_propagate = True, op_source = Local\<rparr>"

section \<open>Properties\<close>

text \<open>C13: The pool keeps its indices consistent and never fails: whatever sequence of imports, removals, prunings,
  limit enforcements and clearings runs on a new pool, every assertion holds, every loop ends, and afterwards
  in each shard the provided tags name exactly the ready operations that provide them, the tags wanted
  by the future queue are exactly those its operations miss, no operation is in both queues and the tracked sizes
  are the real ones. The imported operations must not repeat a provided tag or require what they provide.\<close>
theorem pool_operations_safe:
  assumes "\<forall>c\<in>set cs. command_wf c"
  shows "\<exists>p. run_commands cs (base_new reject) = Some p \<and> pool_inv p"
  by (rule run_commands_wf [OF pool_inv_new assms])

theorem pool_operations_safe_witness:
  "\<exists>p. run_commands [Import (example_op 2 2 [[1]] [[2]]) 7, Import (example_op 1 3 [] [[1]]) 7, RemoveSubtree [1] 7, PruneTags [[2]] 7]
      (base_new False) = Some p \<and> pool_inv p"
  by (rule pool_operations_safe) (simp add: op_wf_def example_op_def)

text \<open>C15: Enforcing the limits of a pool ends and leaves the number and the total size of the operations in both queues
  of the shard within the limits.\<close>
theorem enforce_limits_bounds:
  assumes "run_commands cs (base_new reject) = Some p" "\<forall>c\<in>set cs. command_wf c"
  shows "\<exists>ops p'. enforce_limits rl fl shard p = Some (ops, p')
    \<and> length (index (ready_map (ready_of shard p'))) \<le> limit_count rl
    \<and> sum_list (map (op_bytes \<circ> tx_op \<circ> snd) (index (ready_map (ready_of shard p')))) \<le> limit_bytes rl
    \<and> length (waiting_at shard p') \<le> limit_count fl \<and> sum_list (map (op_bytes \<circ> waiting_op \<circ> snd) (waiting_at shard p')) \<le> limit_bytes fl"
proof -
  have "pool_inv p" using run_commands_wf [OF pool_inv_new assms(2), of reject] assms(1) by simp
  then obtain ops p' where p': "enforce_limits rl fl shard p = Some (ops, p')" "pool_inv p'"
    "\<not> is_exceeded rl (ready_len (ready_of shard p')) (ready_bytes (ready_of shard p'))"
    "\<not> is_exceeded fl (future_len (future_of shard p')) (future_bytes (future_of shard p'))"
    using enforce_limits_wf by blast
  have "tracked_ok ready_tx_size (ready_map (ready_of shard p'))"
    using pool_inv_queues(1) [OF p'(2), of shard] by (simp add: ready_inv_def)
  from tracked_ok_sizes [OF this] p' show ?thesis
    by (auto simp: is_exceeded_def ready_len_def ready_bytes_def future_len_def future_bytes_def future_all_def
        ready_tx_size_def [abs_def] comp_def)
qed

theorem enforce_limits_bounds_witness:
  "\<exists>p. run_commands [Import (example_op 1 3 [] [[1]]) 7, Import (example_op 2 2 [[1]] [[2]]) 7] (base_new False) = Some p
     \<and> (\<exists>ops p'. enforce_limits \<lparr>limit_count = 1, limit_bytes = 10\<rparr> \<lparr>limit_count = 0, limit_bytes = 0\<rparr> 7 p = Some (ops, p')
         \<and> length (index (ready_map (ready_of 7 p'))) \<le> 1)"
proof -
  let ?cs = "[Import (example_op 1 3 [] [[1]]) 7, Import (example_op 2 2 [[1]] [[2]]) 7]"
  have cs: "\<forall>c\<in>set ?cs. command_wf c" by (simp add: op_wf_def example_op_def)
  have "run_commands ?cs (base_new False) \<noteq> None" by code_simp
  then obtain p where p: "run_commands ?cs (base_new False) = Some p" by blast
  from enforce_limits_bounds [OF p cs, of "\<lparr>limit_count = 1, limit_bytes = 10\<rparr>" "\<lparr>limit_count = 0, limit_bytes = 0\<rparr>" 7]
  show ?thesis using p by auto
qed

end
