(* ===== verification/Top_Order.thy ===== *)
theory Top_Order
  imports Top_Base_Pool
begin

text \<open>
  The order in which the pool offers its operations. The validation of trusted calls gives each call one provided tag
  and at most one required tag, the tags of its own and of the preceding nonce; for such operations the
  iterator of the ready queue never returns a call before the call it builds on. For operations with several
  required tags the removal of operations breaks this, because it leaves stale links behind.
\<close>

section \<open>Links between ready operations\<close>

text \<open>\<open>U\<close> gives the operation with a hash.\<close>

definition simple_op :: "'x pool_operation \<Rightarrow> bool" where
  "simple_op op \<longleftrightarrow> length (op_requires op) \<le> 1 \<and> length (op_provides op) = 1 \<and> set (op_provides op) \<inter> set (op_requires op) = {}"

definition universe :: "(tx_hash \<Rightarrow> 'x pool_operation) \<Rightarrow> bool" where
  "universe U \<longleftrightarrow> (\<forall>h. op_hash (U h) = h \<and> simple_op (U h))"

definition entries_wf :: "(tx_hash \<Rightarrow> 'x pool_operation) \<Rightarrow> 'x ready_index \<Rightarrow> bool" where
  "entries_wf U m \<longleftrightarrow> (\<forall>k tx. hget (index m) k = Some tx \<longrightarrow> tx_op tx = U k
     \<and> (\<forall>h\<in>set (unlocks tx). set (op_requires (U h)) \<subseteq> set (op_provides (U k))))"

definition best_wf :: "'x ready_index \<Rightarrow> 'x operation_ref list \<Rightarrow> bool" where
  "best_wf m best \<longleftrightarrow> (\<forall>r\<in>set best. \<exists>tx. hget (index m) (op_hash (ref_op r)) = Some tx \<and> tx_ref tx = r
     \<and> length (op_requires (ref_op r)) \<le> requires_offset tx)"

definition linked :: "(tx_hash \<Rightarrow> 'x pool_operation) \<Rightarrow> 'x ready_index \<Rightarrow> 'x operation_ref list \<Rightarrow> bool" where
  "linked U m best \<longleftrightarrow> entries_wf U m \<and> best_wf m best"

abbreviation links_wf :: "(tx_hash \<Rightarrow> 'x pool_operation) \<Rightarrow> 'x ready_shard \<Rightarrow> bool" where
  "links_wf U s \<equiv> linked U (ready_map s) (best_set s)"

lemma simple_op_wf: "simple_op op \<Longrightarrow> op_wf op"
  by (auto simp: simple_op_def op_wf_def length_Suc_conv)

lemma links_wf_default [simp]: "links_wf U ready_default"
  by (simp add: linked_def entries_wf_def best_wf_def ready_default_def tm_default_def)

lemma in_remove_item: "y \<in> set (remove_item x xs) \<Longrightarrow> y \<in> set xs"
proof -
  have "mset (remove_item x xs) \<subseteq># mset xs"
    by (auto simp: remove_item_def mset_swap_remove position_Some split: option.split)
  then show "y \<in> set (remove_item x xs) \<Longrightarrow> y \<in> set xs" by (metis mset_subset_eqD set_mset_mset)
qed

lemma linked_modify:
  assumes "linked U m best" "\<And>tx. tx_ref (g tx) = tx_ref tx" "\<And>tx. hget (index m) k = Some tx \<Longrightarrow> requires_offset tx \<le> requires_offset (g tx)"
    and "\<And>tx h. hget (index m) k = Some tx \<Longrightarrow> h \<in> set (unlocks (g tx)) \<Longrightarrow> h \<in> set (unlocks tx) \<or> set (op_requires (U h)) \<subseteq> set (op_provides (U k))"
  shows "linked U (tm_modify k g m) best"
  unfolding linked_def entries_wf_def best_wf_def
proof (intro conjI allI impI ballI)
  fix k' tx' assume "hget (index (tm_modify k g m)) k' = Some tx'"
  then obtain tx where tx: "hget (index m) k' = Some tx" "tx' = (if k' = k then g tx else tx)"
    by (auto simp: hget_tm_modify split: if_splits)
  then have "tx_op tx = U k'" "\<forall>h\<in>set (unlocks tx). set (op_requires (U h)) \<subseteq> set (op_provides (U k'))"
    using assms(1) by (simp_all add: linked_def entries_wf_def)
  note old = this
  show "tx_op tx' = U k'" using old(1) tx(2) assms(2) by simp
  show "set (op_requires (U h)) \<subseteq> set (op_provides (U k'))" if "h \<in> set (unlocks tx')" for h
    using old(2) tx that assms(4) [of tx h] by (cases "k' = k") auto
next
  fix r assume "r \<in> set best"
  then obtain tx where tx: "hget (index m) (op_hash (ref_op r)) = Some tx" "tx_ref tx = r" "length (op_requires (ref_op r)) \<le> requires_offset tx"
    using assms(1) by (auto simp: linked_def best_wf_def)
  then have "hget (index (tm_modify k g m)) (op_hash (ref_op r)) = Some (if op_hash (ref_op r) = k then g tx else tx)"
    by (auto simp: hget_tm_modify)
  moreover have "op_hash (ref_op r) = k \<Longrightarrow> requires_offset tx \<le> requires_offset (g tx)" using assms(3) tx(1) by blast
  ultimately show "\<exists>tx. hget (index (tm_modify k g m)) (op_hash (ref_op r)) = Some tx \<and> tx_ref tx = r \<and> length (op_requires (ref_op r)) \<le> requires_offset tx"
    using tx(2,3) assms(2) by (cases "op_hash (ref_op r) = k") auto
qed

lemma linked_remove:
  assumes "linked U m best" "hget (index m) h = Some tx"
  shows "linked U (snd (tm_remove f h m)) (best_remove (tx_ref tx) best)"
  unfolding linked_def
proof
  show "entries_wf U (snd (tm_remove f h m))"
    using assms(1) by (simp add: linked_def entries_wf_def hget_tm_remove)
  show "best_wf (snd (tm_remove f h m)) (best_remove (tx_ref tx) best)"
    unfolding best_wf_def
  proof
    fix r assume r: "r \<in> set (best_remove (tx_ref tx) best)"
    then obtain tx' where tx': "hget (index m) (op_hash (ref_op r)) = Some tx'" "tx_ref tx' = r" "length (op_requires (ref_op r)) \<le> requires_offset tx'"
      using assms(1) by (auto simp: linked_def best_wf_def best_remove_def)
    have "op_hash (ref_op r) \<noteq> h" using r tx' assms(2) by (auto simp: best_remove_def)
    with tx' show "\<exists>tx. hget (index (snd (tm_remove f h m))) (op_hash (ref_op r)) = Some tx \<and> tx_ref tx = r \<and> length (op_requires (ref_op r)) \<le> requires_offset tx"
      by (simp add: hget_tm_remove)
  qed
qed

lemma linked_best:
  assumes "linked U m best" "hget (index m) (op_hash (ref_op r)) = Some tx" "tx_ref tx = r" "length (op_requires (ref_op r)) \<le> requires_offset tx"
  shows "linked U m (best_insert r best)"
  using assms by (auto simp: linked_def best_wf_def best_insert_def)

section \<open>Removal and pruning keep the links\<close>

lemma unlink_required_linked: "linked U m best \<Longrightarrow> linked U (unlink_required ts tags m) best"
proof (induction ts arbitrary: m)
  case (Cons t ts)
  show ?case
  proof (cases "hget tags t")
    case None
    then show ?thesis using Cons by simp
  next
    case (Some h)
    have "linked U (tm_modify h (\<lambda>tx. tx\<lparr>unlocks := remove_item h (unlocks tx)\<rparr>) m) best"
      by (rule linked_modify [OF Cons.prems]) (auto dest: in_remove_item)
    then show ?thesis using Cons.IH Some by simp
  qed
qed simp

lemma remove_subtree_loop_links:
  assumes "links_wf U s"
  shows "links_wf U (snd (remove_subtree_loop filt stack s))"
  using assms
proof (induction filt stack s rule: remove_subtree_loop.induct)
  case (2 filt h stack s)
  show ?case
  proof (cases "hget (index (ready_map s)) h")
    case None
    then show ?thesis using 2 by simp
  next
    case (Some tx)
    define tags where "tags = fold hdel (invalidated filt (tx_op tx)) (provided_tags s)"
    define m where "m = snd (tm_remove ready_tx_size h (ready_map s))"
    define s1 where "s1 = s\<lparr>provided_tags := tags, ready_map := unlink_required (op_requires (tx_op tx)) tags m,
        best_set := best_remove (tx_ref tx) (best_set s)\<rparr>"
    define stack1 where "stack1 = (if invalidated filt (tx_op tx) = [] then stack else rev (unlocks tx) @ stack)"
    have "links_wf U s1"
      using 2(3) Some by (simp add: s1_def m_def unlink_required_linked linked_remove)
    then have "links_wf U (snd (remove_subtree_loop filt stack1 s1))"
      by (rule 2(2) [OF Some m_def tags_def s1_def stack1_def])
    then show ?thesis
      using Some by (simp add: Let_def tags_def m_def s1_def stack1_def case_prod_beta)
  qed
qed simp

lemma ready_remove_subtree_links: "links_wf U s \<Longrightarrow> links_wf U (snd (ready_remove_subtree hs s))"
  by (simp add: ready_remove_subtree_def remove_subtree_with_tag_filter_def remove_subtree_loop_links)

lemma find_previous_linked: "linked U m best \<Longrightarrow> linked U (snd (find_previous h ts tags m)) best"
proof (induction h ts tags m rule: find_previous.induct)
  case (2 h t ts tags m)
  show ?case
  proof (cases "Option.bind (hget tags t) (\<lambda>prev. map_option (Pair prev) (hget (index m) prev))")
    case None
    then show ?thesis using 2(1,3) by simp
  next
    case (Some x)
    obtain prev tx2 where x: "x = (prev, tx2)" by fastforce
    let ?m = "tm_modify prev (\<lambda>tx. tx\<lparr>unlocks := remove_item h (unlocks tx2)\<rparr>) m"
    have "hget (index m) prev = Some tx2" using Some x by (auto simp: bind_eq_Some_conv)
    then have "linked U ?m best"
      by (intro linked_modify [OF 2(3)]) (auto dest: in_remove_item)
    then have "linked U (snd (find_previous h ts tags ?m)) best" by (rule 2(2) [OF Some x [symmetric] refl])
    then show ?thesis using Some x by (simp add: Let_def case_prod_beta)
  qed
qed simp

lemma unlock_ready_linked:
  "linked U m best \<Longrightarrow> universe U \<Longrightarrow> linked U (fst (unlock_ready hs m best)) (snd (unlock_ready hs m best))"
proof (induction hs m best rule: unlock_ready.induct)
  case (2 h hs m best)
  show ?case
  proof (cases "hget (index m) h")
    case None
    then show ?thesis using 2(1,3,4) by simp
  next
    case (Some tx)
    let ?n = "Suc (requires_offset tx)"
    let ?m = "tm_modify h (\<lambda>tx :: 'a ready_tx. tx\<lparr>requires_offset := ?n\<rparr>) m"
    let ?best = "if ?n = length (op_requires (tx_op tx)) then best_insert (tx_ref tx) best else best"
    have m: "linked U ?m best" using Some by (intro linked_modify [OF 2(3)]) auto
    have "op_hash (tx_op tx) = h" using 2(3,4) Some by (simp add: linked_def entries_wf_def universe_def)
    then have "linked U ?m (best_insert (tx_ref tx) best)" if "?n = length (op_requires (tx_op tx))"
      using Some that by (intro linked_best [OF m, of _ "tx\<lparr>requires_offset := ?n\<rparr>"]) (simp_all add: hget_tm_modify)
    then have "linked U ?m ?best" using m by simp
    then have "linked U (fst (unlock_ready hs ?m ?best)) (snd (unlock_ready hs ?m ?best))"
      by (rule 2(2) [OF Some refl _ 2(4)])
    moreover have "unlock_ready (h # hs) m best = unlock_ready hs ?m ?best" using Some by (simp add: Let_def)
    ultimately show ?thesis by simp
  qed
qed simp

lemma prune_operation_links:
  assumes "links_wf U s" "universe U" "hget (index (ready_map s)) h = Some tx"
    "prune_operation t tx (s\<lparr>provided_tags := tags, ready_map := snd (tm_remove ready_tx_size h (ready_map s))\<rparr>) = Some (previous, s2)"
  shows "links_wf U s2"
proof -
  let ?m = "snd (tm_remove ready_tx_size h (ready_map s))"
  let ?m1 = "snd (find_previous (op_hash (tx_op tx)) (op_requires (tx_op tx)) tags ?m)"
  let ?u = "unlock_ready (unlocks tx) ?m1 (best_remove (tx_ref tx) (best_set s))"
  have "ready_map s2 = fst ?u" "best_set s2 = snd ?u"
    using assms(4) by (auto simp: prune_operation_def Let_def case_prod_beta)
  moreover have "linked U (fst ?u) (snd ?u)"
    by (intro unlock_ready_linked find_previous_linked linked_remove [OF assms(1,3)] assms(2))
  ultimately show ?thesis by simp
qed

lemma prune_loop_links:
  assumes "links_wf U s" "universe U" "prune_loop stack s = Some (ops, s')"
  shows "links_wf U s'"
  using assms
proof (induction stack s arbitrary: ops rule: prune_loop.induct)
  case (2 t stack s)
  show ?case
  proof (cases "hget (provided_tags s) t")
    case None
    then show ?thesis using 2(1) [OF None 2(4,5)] 2(6) by simp
  next
    case (Some h)
    show ?thesis
    proof (cases "hget (index (ready_map s)) h")
      case None
      then show ?thesis using 2(2) [OF Some refl None] 2(4-6) Some by simp
    next
      case tx: (Some tx)
      obtain previous s2 ops' where P: "prune_operation t tx (s\<lparr>provided_tags := hdel t (provided_tags s),
          ready_map := snd (tm_remove ready_tx_size h (ready_map s))\<rparr>) = Some (previous, s2)"
        "prune_loop (rev previous @ stack) s2 = Some (ops', s')"
        using 2(6) Some tx by (auto split: option.splits)
      have "links_wf U s2" by (rule prune_operation_links [OF 2(4,5) tx P(1)])
      from 2(3) [OF Some refl tx _ refl this 2(5) P(2)] P(1) show ?thesis by simp
    qed
  qed
qed simp

section \<open>Imports keep the links\<close>

lemma link_required_linked:
  assumes "linked U m best" "link_required h ts tags m = Some (goes_to_best, offset, m')"
    and "\<And>t k. t \<in> set ts \<Longrightarrow> hget tags t = Some k \<Longrightarrow> set (op_requires (U h)) \<subseteq> set (op_provides (U k))"
  shows "linked U m' best \<and> (goes_to_best \<longrightarrow> offset = length ts)"
  using assms
proof (induction ts arbitrary: m goes_to_best offset)
  case (Cons t ts)
  show ?case
  proof (cases "hget tags t")
    case None
    then obtain n where "link_required h ts tags m = Some (goes_to_best, n, m')" "offset = Suc n"
      using Cons.prems(2) by auto
    then show ?thesis using Cons.IH [OF Cons.prems(1)] Cons.prems(3) by auto
  next
    case (Some k)
    let ?m = "tm_modify k (\<lambda>tx :: 'a ready_tx. tx\<lparr>unlocks := unlocks tx @ [h]\<rparr>) m"
    obtain g where g: "link_required h ts tags ?m = Some (g, offset, m')" "\<not> goes_to_best"
      using Cons.prems(2) Some by (auto split: if_splits)
    have "linked U ?m best"
      using Cons.prems(3) [of t k] Some by (intro linked_modify [OF Cons.prems(1)]) auto
    then show ?thesis using Cons.IH [OF _ g(1)] Cons.prems(3) g(2) by auto
  qed
qed auto

lemma simple_provides: "simple_op a \<Longrightarrow> simple_op b \<Longrightarrow> t \<in> set (op_provides a) \<Longrightarrow> t \<in> set (op_provides b) \<Longrightarrow> op_provides a = op_provides b"
  by (auto simp: simple_op_def length_Suc_conv)

lemma simple_requires: "simple_op a \<Longrightarrow> t \<in> set (op_requires a) \<Longrightarrow> set (op_requires a) = {t}"
  by (cases "op_requires a") (auto simp: simple_op_def)

lemma replace_previous_links:
  assumes "links_wf U s" "universe U" "ready_inv {} s" "replace_previous (U h) s = (Ok (ops, unlocked), s')"
  shows "links_wf U s' \<and> (\<forall>k\<in>set unlocked. set (op_requires (U k)) \<subseteq> set (op_provides (U h)))"
proof -
  let ?hs = "remdups (List.map_filter (hget (provided_tags s)) (op_provides (U h)))"
  let ?txs = "List.map_filter (hget (index (ready_map s))) ?hs"
  consider (none) "unlocked = []" "s' = s" | (ok) "unlocked = concat (map unlocks ?txs)"
      "s' = snd (remove_subtree_loop (Some (op_provides (U h))) (rev ?hs) s)"
    using assms(4) by (auto simp: replace_previous_def remove_subtree_with_tag_filter_def Let_def split: if_splits prod.splits)
  then show ?thesis
  proof cases
    case none
    then show ?thesis using assms(1) by simp
  next
    case ok
    have "set (op_requires (U k)) \<subseteq> set (op_provides (U h))" if "k \<in> set unlocked" for k
    proof -
      obtain t j tx where tx: "t \<in> set (op_provides (U h))" "hget (provided_tags s) t = Some j"
        "hget (index (ready_map s)) j = Some tx" "k \<in> set (unlocks tx)"
        using \<open>k \<in> set unlocked\<close> ok(1) by (auto simp: List.map_filter_def)
      have op: "tx_op tx = U j" "set (op_requires (U k)) \<subseteq> set (op_provides (U j))"
        using assms(1) tx(3,4) by (auto simp: linked_def entries_wf_def)
      have "t \<in> set (op_provides (U j))"
        using refs_wfD(3) [of "{}" "provided_tags s" "refs (ready_map s)" "best_set s" t j] assms(3) tx(2,3) op(1)
        by (auto simp: ready_inv_def refs_def)
      then have "op_provides (U j) = op_provides (U h)"
        using simple_provides [of "U j" "U h" t] tx(1) assms(2) by (simp add: universe_def)
      with op(2) show ?thesis by simp
    qed
    with ok(2) remove_subtree_loop_links [OF assms(1)] show ?thesis by simp
  qed
qed

lemma ready_import_links:
  assumes "links_wf U s" "universe U" "ready_inv {} s" "waiting_op w = U h" "ready_import w s = Some (res, s')"
  shows "links_wf U s'"
proof -
  let ?s1 = "s\<lparr>last_insertion_id := last_insertion_id s + 1\<rparr>"
  have s1: "links_wf U ?s1" "ready_inv {} ?s1" using assms(1,3) by (simp_all add: ready_inv_def)
  have h: "op_hash (U h) = h" "simple_op (U h)" using assms(2) by (simp_all add: universe_def)
  obtain rp s2 where rp: "replace_previous (U h) ?s1 = (rp, s2)" by fastforce
  show ?thesis
  proof (cases rp)
    case (Err e)
    then show ?thesis
      using replace_previous_wf [OF s1(2) rp] rp assms(1,4,5) by (auto simp: ready_import_def Let_def split: if_splits)
  next
    case (Ok x)
    obtain ops u where x: "x = (ops, u)" by fastforce
    obtain g n m where L: "link_required h (op_requires (U h)) (provided_tags s2) (ready_map s2) = Some (g, n, m)"
      using assms(4,5) rp Ok x h(1) by (auto simp: ready_import_def Let_def split: if_splits option.splits)
    define r where "r = \<lparr>ref_op = U h, insertion_id = last_insertion_id ?s1\<rparr>"
    define tx where "tx = \<lparr>tx_ref = r, unlocks = u, requires_offset = n\<rparr>"
    have s': "ready_map s' = snd (tm_insert ready_tx_size h tx m)"
      "best_set s' = (if g then best_insert r (best_set s2) else best_set s2)"
      using assms(4,5) rp Ok x h(1) L by (auto simp: ready_import_def Let_def r_def tx_def split: if_splits)
    have R: "links_wf U s2" "\<forall>k\<in>set u. set (op_requires (U k)) \<subseteq> set (op_provides (U h))"
      using replace_previous_links [OF s1(1) assms(2) s1(2)] rp Ok x by auto
    have inv2: "ready_inv (set (op_provides (U h))) s2" using replace_previous_wf [OF s1(2) rp] Ok x by simp
    have fresh: "hget (index (ready_map s2)) h = None"
      using replace_previous_wf [OF s1(2) rp] Ok x removal_gone [of ?s1 ops s2 h] assms(4,5) h(1)
      by (auto simp: ready_import_def refs_def Let_def split: if_splits)
    have "set (op_requires (U h)) \<subseteq> set (op_provides (U k))"
      if "t \<in> set (op_requires (U h))" "hget (provided_tags s2) t = Some k" for t k
    proof -
      note t = that
      have "t \<notin> set (op_provides (U h))" using h(2) t(1) by (auto simp: simple_op_def)
      then obtain r' where "refs (ready_map s2) k = Some r'" "t \<in> set (op_provides (ref_op r'))"
        using refs_wfD(3) [OF conjunct2 [OF inv2 [unfolded ready_inv_def]] t(2)] by blast
      moreover have "ref_op r' = U k" using R(1) calculation(1) by (auto simp: linked_def entries_wf_def refs_def)
      ultimately show ?thesis using simple_requires [OF h(2) t(1)] by simp
    qed
    then have m: "linked U m (best_set s2)" "g \<longrightarrow> n = length (op_requires (U h))"
      using link_required_linked [OF R(1) L] by blast+
    have no_best: "op_hash (ref_op r') \<noteq> h" if "r' \<in> set (best_set s2)" for r'
      using R(1) that fresh by (auto simp: linked_def best_wf_def)
    have "entries_wf U (ready_map s')"
      using m(1) R(2) by (auto simp: s'(1) linked_def entries_wf_def hget_tm_insert tx_def r_def split: if_splits)
    moreover have "best_wf (ready_map s') (best_set s2)"
      using m(1) no_best by (auto simp: s'(1) linked_def best_wf_def hget_tm_insert)
    ultimately have "linked U (ready_map s') (best_set s2)" by (simp add: linked_def)
    moreover have "linked U (ready_map s') (best_insert r (best_set s2))" if g
      using m(2) that h(1) by (intro linked_best [OF calculation, of r tx]) (simp_all add: s'(1) hget_tm_insert tx_def r_def)
    ultimately show ?thesis by (simp add: s'(2))
  qed
qed

section \<open>The pool\<close>

definition known :: "(tx_hash \<Rightarrow> 'x pool_operation) \<Rightarrow> 'x waiting_operation \<Rightarrow> bool" where
  "known U w \<longleftrightarrow> waiting_op w = U (op_hash (waiting_op w))"

definition pool_links :: "(tx_hash \<Rightarrow> 'x pool_operation) \<Rightarrow> 'x base_pool \<Rightarrow> bool" where
  "pool_links U p \<longleftrightarrow> (\<forall>shard. links_wf U (ready_of shard p)
     \<and> (\<forall>h w. hget (waiting_at shard p) h = Some w \<longrightarrow> known U w))"

lemma pool_links_new: "pool_links U (base_new reject)"
  by (simp add: pool_links_def base_new_def ready_of_def future_of_def) (simp add: future_default_def)

lemma pool_links_put_ready:
  "pool_links U p \<Longrightarrow> links_wf U s \<Longrightarrow> pool_links U (p\<lparr>readies := hput shard s (readies p)\<rparr>)"
  by (simp add: pool_links_def)

lemma pool_links_put_future:
  "pool_links U p \<Longrightarrow> (\<And>h w. hget (waiting q) h = Some w \<Longrightarrow> known U w) \<Longrightarrow> pool_links U (p\<lparr>futures := hput shard q (futures p)\<rparr>)"
  by (simp add: pool_links_def)

lemma known_still_missing: "known U (still_missing T w) = known U w"
  by (simp add: known_def)

lemma pool_satisfy_tags_links:
  assumes "pool_inv p" "pool_links U p" "pool_satisfy_tags ts shard p = Some (ws, p')"
  shows "pool_links U p' \<and> (\<forall>w\<in>set ws. known U w)"
proof (cases "hget (futures p) shard")
  case None
  then show ?thesis using assms(2,3) by (simp add: pool_satisfy_tags_def)
next
  case (Some q)
  then have q: "future_of shard p = q" by (simp add: future_of_def)
  then have old: "known U w" if "hget (waiting q) h = Some w" for h w
    using assms(2) that by (auto simp: pool_links_def)
  obtain q' where q': "satisfy_tags ts q = Some (ws, q')" "p' = p\<lparr>futures := hput shard q' (futures p)\<rparr>"
    using assms(3) Some by (auto simp: pool_satisfy_tags_def)
  have S: "set ws = released (set ts) (waiting q)" "\<forall>h. hget (waiting q') h = retained (set ts) (waiting q) h"
    using satisfy_tags_wf [of q ts] pool_inv_queues(2) [OF assms(1), of shard] q q'(1) by auto
  have "known U w" if "hget (waiting q') h = Some w" for h w
    using that S(2) old by (auto simp: retained_def known_still_missing split: option.splits if_splits)
  moreover have "known U w" if "w \<in> set ws" for w
    using that S(1) old by (auto simp: released_def known_still_missing)
  ultimately show ?thesis unfolding q'(2) using pool_links_put_future [OF assms(2)] by blast
qed

lemma pool_ready_import_links:
  assumes "pool_inv p" "pool_links U p" "universe U" "known U w" "pool_ready_import w shard p = Some (res, p')"
  shows "pool_links U p'"
proof -
  obtain s' where s': "ready_import w (ready_of shard p) = Some (res, s')" "p' = p\<lparr>readies := hput shard s' (readies p)\<rparr>"
    using assms(5) by (auto simp: pool_ready_import_def)
  have "links_wf U (ready_of shard p)" using assms(2) by (simp add: pool_links_def)
  from ready_import_links [OF this assms(3) pool_inv_queues(1) [OF assms(1)] assms(4) [unfolded known_def] s'(1)]
  show ?thesis unfolding s'(2) by (rule pool_links_put_ready [OF assms(2)])
qed

lemma import_loop_links:
  assumes "pool_inv p" "in_transit shard p stack" "pool_links U p" "universe U" "\<forall>w\<in>set stack. known U w"
    "import_loop shard first stack acc p = Some (res, p')"
  shows "pool_links U p'"
  using assms
proof (induction shard first stack acc p arbitrary: res rule: import_loop.induct)
  case (2 shard first w stack acc p)
  let ?ts = "op_provides (waiting_op w)"
  obtain ws p1 where p1: "pool_satisfy_tags ?ts shard p = Some (ws, p1)" "pool_inv p1" "in_transit shard p1 (rev ws @ w # stack)"
    by (rule pool_satisfy_tags_wf [OF 2(3,4), of ?ts])
  have L1: "pool_links U p1" "\<forall>w\<in>set ws. known U w" using pool_satisfy_tags_links [OF 2(3,5) p1(1)] by simp_all
  have "in_transit shard p1 (w # rev ws @ stack)" using p1(3) by (auto simp: in_transit_def)
  then obtain r p2 where p2: "pool_ready_import w shard p1 = Some (r, p2)" "pool_inv p2" "in_transit shard p2 (rev ws @ stack)"
    by (rule pool_ready_import_wf [OF p1(2)])
  have L2: "pool_links U p2" by (rule pool_ready_import_links [OF p1(2) L1(1) 2(6) _ p2(1)]) (use 2(7) in simp)
  have K: "\<forall>w\<in>set (rev ws @ stack). known U w" using L1(2) 2(7) by auto
  show ?case
  proof (cases r)
    case (Err e)
    show ?thesis
    proof (cases first)
      case True
      then show ?thesis using 2(8) p1(1) p2(1) Err L2 by simp
    next
      case False
      show ?thesis
        using 2(1) [OF p1(1) refl p2(1) [unfolded Err] refl refl False p2(2,3) L2 2(6) K] 2(8) p1(1) p2(1) Err False by simp
    qed
  next
    case (Ok ops)
    show ?thesis
      using 2(2) [OF p1(1) refl p2(1) [unfolded Ok] refl refl p2(2,3) L2 2(6) K] 2(8) p1(1) p2(1) Ok by simp
  qed
qed simp

lemma pool_ready_remove_links:
  assumes "pool_links U p"
  shows "pool_links U (snd (pool_ready_remove hs shard p))"
proof (cases "hget (readies p) shard")
  case None
  then show ?thesis using assms by (simp add: pool_ready_remove_def)
next
  case (Some s)
  then have "links_wf U s" using assms by (auto simp: pool_links_def ready_of_def split: option.splits)
  from pool_links_put_ready [OF assms ready_remove_subtree_links [OF this]] Some show ?thesis
    by (simp add: pool_ready_remove_def case_prod_beta)
qed

lemma pool_future_remove_links:
  assumes "pool_inv p" "pool_links U p"
  shows "pool_links U (snd (pool_future_remove hs shard p))"
proof (cases "hget (futures p) shard")
  case None
  then show ?thesis using assms(2) by (simp add: pool_future_remove_def)
next
  case (Some q)
  then have q: "future_of shard p = q" by (simp add: future_of_def)
  obtain ops q' where q': "future_remove hs q = (ops, q')" by fastforce
  have "known U w" if "hget (waiting q') h = Some w" for h w
    using future_remove_wf [OF _ q'] pool_inv_queues(2) [OF assms(1), of shard] q that assms(2)
    by (auto simp: pool_links_def split: if_splits)
  from pool_links_put_future [OF assms(2) this] Some q' show ?thesis by (simp add: pool_future_remove_def)
qed

lemma base_remove_subtree_links:
  assumes "pool_inv p" "pool_links U p"
  shows "pool_links U (snd (base_remove_subtree hs shard p))"
proof -
  obtain o1 p1 where p1: "pool_ready_remove hs shard p = (o1, p1)" by fastforce
  have "pool_inv p1" using pool_ready_remove_wf [OF assms(1) p1] by simp
  from pool_future_remove_links [OF this] pool_ready_remove_links [OF assms(2), of hs shard] p1 show ?thesis
    by (simp add: base_remove_subtree_def case_prod_beta)
qed

lemma import_to_ready_links:
  assumes "pool_inv p" "in_transit shard p [w]" "pool_links U p" "universe U" "known U w" "import_to_ready w shard p = Some (res, p')"
  shows "pool_links U p'"
proof -
  obtain r p1 where p1: "import_loop shard True [w] ([], [], []) p = Some (r, p1)"
    using assms(6) by (auto simp: import_to_ready_def Let_def split: option.splits)
  have L: "pool_links U p1" by (rule import_loop_links [OF assms(1-4) _ p1]) (use assms(5) in simp)
  with pool_ready_remove_links [OF L] p1 assms(6) show ?thesis
    by (cases r) (auto simp: import_to_ready_def Let_def split: if_splits)
qed

lemma base_import_links:
  assumes "pool_inv p" "pool_links U p" "universe U" "op = U (op_hash op)" "base_import op shard p = Some (res, p')"
  shows "pool_links U p'"
proof (cases "is_imported (op_hash op) shard p")
  case True
  then show ?thesis using assms(2,5) by (simp add: base_import_def)
next
  case False
  define w where "w = waiting_new op (map_option provided_tags (hget (readies p) shard)) (recently_pruned p)"
  have op: "waiting_op w = op" by (simp add: w_def waiting_new_def)
  then have K: "known U w" using assms(4) by (simp add: known_def)
  have wf: "op_wf op" using assms(3,4) simple_op_wf by (metis universe_def)
  have fresh: "ready_ref shard p (op_hash op) = None" "hget (waiting_at shard p) (op_hash op) = None"
    using False by (simp_all add: is_imported_def ready_contains_def future_contains_def refs_def)
  show ?thesis
  proof (cases "is_ready w")
    case True
    then have "in_transit shard p [w]" using wf fresh by (simp add: in_transit_def op)
    from import_to_ready_links [OF assms(1) this assms(2,3) K] assms(5) True False show ?thesis
      by (simp add: base_import_def w_def [symmetric] Let_def)
  next
    case not_ready: False
    have "known U v" if "hget (hput (op_hash op) w (waiting_at shard p)) h = Some v" for h v
      using that K assms(2) by (auto simp: pool_links_def split: if_splits)
    then have "pool_links U (p\<lparr>futures := hput shard q (futures p)\<rparr>)" if "waiting q = hput (op_hash op) w (waiting_at shard p)" for q
      using that by (intro pool_links_put_future [OF assms(2)]) auto
    then show ?thesis
      using assms(2,5) False not_ready op
      by (auto simp: base_import_def w_def [symmetric] Let_def pool_future_import_def future_import_def split: if_splits)
  qed
qed

lemma prune_each_links:
  assumes "pool_inv p" "in_transit shard p ws0" "pool_links U p" "universe U" "\<forall>w\<in>set ws0. known U w"
    "prune_each ts shard p = Some (ws, ops, p')"
  shows "pool_links U p' \<and> (\<forall>w\<in>set ws. known U w)"
  using assms
proof (induction ts arbitrary: p ws0 ws ops)
  case (Cons t ts)
  obtain ws1 p1 where p1: "pool_satisfy_tags [t] shard p = Some (ws1, p1)" "pool_inv p1" "in_transit shard p1 (ws0 @ ws1)"
    by (rule pool_satisfy_tags_wf [OF Cons.prems(1,2)])
  have L1: "pool_links U p1" "\<forall>w\<in>set ws1. known U w" using pool_satisfy_tags_links [OF Cons.prems(1,3) p1(1)] by simp_all
  obtain ops1 p2 where p2: "pool_prune_ready t shard p1 = Some (ops1, p2)" "pool_inv p2" "in_transit shard p2 (ws0 @ ws1)"
    by (rule pool_prune_ready_wf [OF p1(2,3)])
  have L2: "pool_links U p2"
  proof (cases "hget (readies p1) shard")
    case None
    then show ?thesis using p2(1) L1(1) by (simp add: pool_prune_ready_def)
  next
    case (Some s)
    then have "links_wf U s" using L1(1) by (auto simp: pool_links_def ready_of_def split: option.splits)
    moreover obtain s' where "prune_loop [t] s = Some (ops1, s')" "p2 = p1\<lparr>readies := hput shard s' (readies p1)\<rparr>"
      using p2(1) Some by (auto simp: pool_prune_ready_def ready_prune_tags_def simp del: prune_loop.simps)
    ultimately show ?thesis using prune_loop_links [OF _ Cons.prems(4)] pool_links_put_ready [OF L1(1)] by blast
  qed
  let ?p = "p2\<lparr>recently_pruned := (recently_pruned p2)
      [recently_pruned_index p2 := hash_set_insert t (recently_pruned p2 ! recently_pruned_index p2)]\<rparr>"
  have inv: "pool_inv ?p" using p2(2) by (intro pool_inv_recent(1)) (simp_all add: pool_inv_def)
  have tr: "in_transit shard ?p (ws0 @ ws1)" using p2(3) by (simp add: in_transit_def ready_of_def future_of_def)
  have L3: "pool_links U ?p" using L2 by (simp add: pool_links_def ready_of_def future_of_def)
  obtain ws2 ops2 where "prune_each ts shard ?p = Some (ws2, ops2, p')" "ws = ws1 @ ws2"
    using Cons.prems(6) p1(1) p2(1) by auto
  then show ?case using Cons.IH [OF inv tr L3 Cons.prems(4)] Cons.prems(5) L1(2) by auto
qed simp

lemma promote_each_links:
  assumes "pool_inv p" "in_transit shard p ws" "pool_links U p" "universe U" "\<forall>w\<in>set ws. known U w"
    "promote_each ws shard p = Some (prom, fail, p')"
  shows "pool_links U p'"
  using assms
proof (induction ws arbitrary: p prom fail)
  case (Cons w ws)
  obtain res p1 where p1: "import_to_ready w shard p = Some (res, p1)" "pool_inv p1" "in_transit shard p1 ws"
    using import_to_ready_wf [OF Cons.prems(1,2)] by blast
  have "in_transit shard p [w]" using Cons.prems(2) by (simp add: in_transit_def)
  from import_to_ready_links [OF Cons.prems(1) this Cons.prems(3,4) _ p1(1)] Cons.prems(5) have "pool_links U p1" by simp
  from Cons.IH [OF p1(2,3) this Cons.prems(4)] Cons.prems(5,6) p1(1) show ?case by (cases res) auto
qed simp

lemma base_prune_tags_links:
  assumes "pool_inv p" "pool_links U p" "universe U" "base_prune_tags ts shard p = Some (status, p')"
  shows "pool_links U p'"
proof -
  let ?p = "p\<lparr>recently_pruned := (recently_pruned p)[recently_pruned_index p := []]\<rparr>"
  have inv: "pool_inv ?p" using assms(1) by (intro pool_inv_recent(1)) (simp_all add: pool_inv_def)
  have tr: "in_transit shard ?p []" by (simp add: in_transit_def)
  have L: "pool_links U ?p" using assms(2) by (simp add: pool_links_def ready_of_def future_of_def)
  obtain ws ops p1 where p1: "prune_each ts shard ?p = Some (ws, ops, p1)" "pool_inv p1" "in_transit shard p1 ws"
    using prune_each_wf [OF inv tr, of ts] by auto
  have L1: "pool_links U p1" "\<forall>w\<in>set ws. known U w" using prune_each_links [OF inv tr L assms(3) _ p1(1)] by simp_all
  let ?q = "p1\<lparr>recently_pruned_index := (recently_pruned_index p1 + 1) mod RECENTLY_PRUNED_TAGS\<rparr>"
  have inv1: "pool_inv ?q" using p1(2) by (intro pool_inv_recent(2)) (simp_all add: RECENTLY_PRUNED_TAGS_def)
  have tr1: "in_transit shard ?q ws" using p1(3) by (simp add: in_transit_def ready_of_def future_of_def)
  have "pool_links U ?q" using L1(1) by (simp add: pool_links_def ready_of_def future_of_def)
  from promote_each_links [OF inv1 tr1 this assms(3) L1(2)] assms(4) p1(1) show ?thesis
    by (auto simp: base_prune_tags_def split: option.splits)
qed

lemma enforce_ready_links:
  "enforce_ready l shard p = Some r \<Longrightarrow> pool_inv p \<longrightarrow> pool_links U p \<longrightarrow> pool_inv (snd r) \<and> pool_links U (snd r)"
proof (erule enforce_ready.raw_induct [rotated])
  fix f :: "limit \<Rightarrow> shard_identifier \<Rightarrow> 'a base_pool \<Rightarrow> ('a pool_operation list \<times> 'a base_pool) option"
    and l shard p r
  assume IH: "\<And>l shard p r. f l shard p = Some r \<Longrightarrow> pool_inv p \<longrightarrow> pool_links U p \<longrightarrow> pool_inv (snd r) \<and> pool_links U (snd r)"
    and run: "(if is_exceeded l (ready_len (ready_of shard p)) (ready_bytes (ready_of shard p))
      then case ready_fold older (ready_of shard p) of
             None \<Rightarrow> Some ([], p)
           | Some r \<Rightarrow>
               (case base_remove_subtree [op_hash (ref_op r)] shard p of
                  (removed, p') \<Rightarrow> Option.bind (f l shard p') (\<lambda>(removed', p''). Some (removed @ removed', p'')))
      else Some ([], p)) = Some r"
  show "pool_inv p \<longrightarrow> pool_links U p \<longrightarrow> pool_inv (snd r) \<and> pool_links U (snd r)"
  proof (intro impI)
    assume p: "pool_inv p" "pool_links U p"
    have step: "pool_inv p1 \<and> pool_links U p1" if "base_remove_subtree hs shard p = (ops, p1)" for hs ops p1
      using base_remove_subtree_wf [OF p(1) that] base_remove_subtree_links [OF p, of hs shard] that by simp
    show "pool_inv (snd r) \<and> pool_links U (snd r)"
      using run p by (fastforce split: if_splits option.splits prod.splits simp: bind_eq_Some_conv dest!: step IH)
  qed
qed

lemma enforce_future_links:
  "enforce_future l shard p = Some r \<Longrightarrow> pool_inv p \<longrightarrow> pool_links U p \<longrightarrow> pool_inv (snd r) \<and> pool_links U (snd r)"
proof (erule enforce_future.raw_induct [rotated])
  fix f :: "limit \<Rightarrow> shard_identifier \<Rightarrow> 'a base_pool \<Rightarrow> ('a pool_operation list \<times> 'a base_pool) option"
    and l shard p r
  assume IH: "\<And>l shard p r. f l shard p = Some r \<Longrightarrow> pool_inv p \<longrightarrow> pool_links U p \<longrightarrow> pool_inv (snd r) \<and> pool_links U (snd r)"
    and run: "(if is_exceeded l (future_len (future_of shard p)) (future_bytes (future_of shard p))
      then case future_fold first_waiting (future_of shard p) of
             None \<Rightarrow> Some ([], p)
           | Some w \<Rightarrow>
               (case base_remove_subtree [op_hash (waiting_op w)] shard p of
                  (removed, p') \<Rightarrow> Option.bind (f l shard p') (\<lambda>(removed', p''). Some (removed @ removed', p'')))
      else Some ([], p)) = Some r"
  show "pool_inv p \<longrightarrow> pool_links U p \<longrightarrow> pool_inv (snd r) \<and> pool_links U (snd r)"
  proof (intro impI)
    assume p: "pool_inv p" "pool_links U p"
    have step: "pool_inv p1 \<and> pool_links U p1" if "base_remove_subtree hs shard p = (ops, p1)" for hs ops p1
      using base_remove_subtree_wf [OF p(1) that] base_remove_subtree_links [OF p, of hs shard] that by simp
    show "pool_inv (snd r) \<and> pool_links U (snd r)"
      using run p by (fastforce split: if_splits option.splits prod.splits simp: bind_eq_Some_conv dest!: step IH)
  qed
qed

fun command_in :: "(tx_hash \<Rightarrow> 'x pool_operation) \<Rightarrow> 'x pool_command \<Rightarrow> bool" where
  "command_in U (Import op shard) = (op = U (op_hash op))"
| "command_in U _ = True"

lemma command_in_wf: "universe U \<Longrightarrow> command_in U c \<Longrightarrow> command_wf c"
  by (cases c) (simp_all, metis universe_def simple_op_wf)

lemma run_command_links:
  assumes "pool_inv p" "pool_links U p" "universe U" "command_in U c" "run_command c p = Some p'"
  shows "pool_links U p'"
proof (cases c)
  case (Import op shard)
  then show ?thesis using base_import_links [OF assms(1-3), of op shard] assms(4,5) by auto
next
  case (RemoveSubtree hs shard)
  then show ?thesis using base_remove_subtree_links [OF assms(1,2), of hs shard] assms(5) by auto
next
  case (PruneTags ts shard)
  then show ?thesis using base_prune_tags_links [OF assms(1-3), of ts shard] assms(5) by auto
next
  case (EnforceLimits rl fl shard)
  then obtain o1 p1 o2 where p1: "enforce_ready rl shard p = Some (o1, p1)" "enforce_future fl shard p1 = Some (o2, p')"
    using assms(5) by (auto simp: enforce_limits_def bind_eq_Some_conv)
  then show ?thesis using enforce_ready_links [OF p1(1)] enforce_future_links [OF p1(2)] assms(1,2) by auto
next
  case (ClearFuture shard)
  then show ?thesis
    using assms(2,5) pool_links_put_future [OF assms(2), of future_default shard]
    by (cases "hget (futures p) shard") (auto simp: clear_future_def future_clear_def, simp add: future_default_def)
qed

lemma run_commands_links:
  assumes "pool_inv p" "pool_links U p" "universe U" "\<forall>c\<in>set cs. command_in U c" "run_commands cs p = Some p'"
  shows "pool_links U p'"
  using assms
proof (induction cs arbitrary: p)
  case (Cons c cs)
  obtain p1 where p1: "run_command c p = Some p1" "pool_inv p1"
    using run_command_wf [OF Cons.prems(1)] command_in_wf [OF Cons.prems(3)] Cons.prems(4) by (metis list.set_intros(1))
  have "pool_links U p1" using run_command_links [OF Cons.prems(1-3) _ p1(1)] Cons.prems(4) by simp
  from Cons.IH [OF p1(2) this Cons.prems(3)] Cons.prems(4,5) p1(1) show ?case by simp
qed simp

section \<open>The iterator\<close>

text \<open>Operations the iterator may return next: nothing they require is missing, or all of it is provided by the operations
  in \<open>D\<close>, which it has returned.\<close>

definition iter_wf ::
  "(tx_hash \<Rightarrow> 'x pool_operation) \<Rightarrow> 'x ready_index \<Rightarrow> 'x pool_operation set \<Rightarrow> 'x best_iterator \<Rightarrow> bool" where
  "iter_wf U m D it \<longleftrightarrow> iter_all it = index m \<and> awaiting it = []
     \<and> (\<forall>r\<in>set (iter_best it). \<exists>tx. hget (index m) (op_hash (ref_op r)) = Some tx \<and> tx_ref tx = r
          \<and> (length (op_requires (ref_op r)) \<le> requires_offset tx \<or> set (op_requires (ref_op r)) \<subseteq> (\<Union>d\<in>D. set (op_provides d))))"

lemma iter_wf_mono:
  assumes "iter_wf U m D it" "D \<subseteq> E"
  shows "iter_wf U m E it"
proof -
  have "(\<Union>d\<in>D. set (op_provides d)) \<subseteq> (\<Union>d\<in>E. set (op_provides d))" using assms(2) by blast
  then show ?thesis using assms(1) unfolding iter_wf_def by (meson order_trans)
qed

lemma unlock_all_wf:
  assumes "iter_wf U m D it" "entries_wf U m" "universe U" "\<forall>h\<in>set hs. set (op_requires (U h)) \<subseteq> (\<Union>d\<in>D. set (op_provides d))"
  shows "iter_wf U m D (unlock_all hs it)"
  using assms
proof (induction hs arbitrary: it)
  case (Cons h hs)
  have it: "iter_all it = index m" "awaiting it = []" using Cons.prems(1) by (simp_all add: iter_wf_def)
  show ?case
  proof (cases "hget (index m) h")
    case None
    then show ?thesis using Cons.IH [OF Cons.prems(1-3)] Cons.prems(4) it by simp
  next
    case (Some tx)
    have tx: "tx_op tx = U h" using Cons.prems(2) Some by (simp add: entries_wf_def)
    have h: "op_hash (U h) = h" "length (op_requires (U h)) \<le> 1" using Cons.prems(3) by (simp_all add: universe_def simple_op_def)
    let ?it = "it\<lparr>iter_best := best_insert (tx_ref tx) (iter_best it)\<rparr>"
    have "iter_wf U m D ?it"
      unfolding iter_wf_def
    proof (intro conjI ballI)
      fix r assume "r \<in> set (iter_best ?it)"
      then have "r = tx_ref tx \<or> r \<in> set (iter_best it)" by (auto simp: best_insert_def split: if_splits)
      then show "\<exists>tx. hget (index m) (op_hash (ref_op r)) = Some tx \<and> tx_ref tx = r
          \<and> (length (op_requires (ref_op r)) \<le> requires_offset tx \<or> set (op_requires (ref_op r)) \<subseteq> (\<Union>d\<in>D. set (op_provides d)))"
      proof
        assume "r = tx_ref tx"
        then show ?thesis using Some tx h(1) Cons.prems(4) by simp
      next
        assume "r \<in> set (iter_best it)"
        then show ?thesis using Cons.prems(1) unfolding iter_wf_def by blast
      qed
    qed (use it in simp_all)
    then have "iter_wf U m D (unlock_all hs ?it)" using Cons.IH [OF _ Cons.prems(2,3), of ?it] Cons.prems(4) by simp
    moreover have "unlock_all (h # hs) it = unlock_all hs ?it" using it Some tx h(2) by (simp add: best_or_awaiting_def)
    ultimately show ?thesis by simp
  qed
qed simp

lemma best_next_wf:
  assumes "iter_wf U m D it" "entries_wf U m" "universe U" "best_next it = (Some op, it')"
  shows "iter_wf U m (insert op D) it' \<and> (\<exists>tx. hget (index m) (op_hash op) = Some tx \<and> tx_op tx = op
    \<and> (length (op_requires op) \<le> requires_offset tx \<or> set (op_requires op) \<subseteq> (\<Union>d\<in>D. set (op_provides d))))"
  using assms
proof (induction it rule: best_next.induct)
  case (1 it)
  obtain r where r: "best_max (iter_best it) = Some r" using 1(5) by (cases "best_max (iter_best it)") auto
  let ?it = "it\<lparr>iter_best := best_remove r (iter_best it)\<rparr>"
  have wf: "iter_wf U m D ?it" using 1(2) by (auto simp: iter_wf_def best_remove_def)
  obtain tx where tx: "hget (index m) (op_hash (ref_op r)) = Some tx" "tx_ref tx = r"
    "length (op_requires (ref_op r)) \<le> requires_offset tx \<or> set (op_requires (ref_op r)) \<subseteq> (\<Union>d\<in>D. set (op_provides d))"
    using 1(2) best_max_in [OF r] by (auto simp: iter_wf_def)
  have it: "iter_all it = index m" using 1(2) by (simp add: iter_wf_def)
  have res: "op = ref_op r" "it' = unlock_all (unlocks tx) ?it"
    using 1(5) r tx(1) it by (simp_all add: Let_def)
  have "iter_wf U m (insert op D) (unlock_all (unlocks tx) ?it)"
  proof (rule unlock_all_wf [OF iter_wf_mono [OF wf] 1(3,4)])
    have "\<forall>h\<in>set (unlocks tx). set (op_requires (U h)) \<subseteq> set (op_provides (tx_op tx))"
      using 1(3) tx(1) by (simp add: entries_wf_def)
    then show "\<forall>h\<in>set (unlocks tx). set (op_requires (U h)) \<subseteq> (\<Union>d\<in>insert op D. set (op_provides d))"
      using tx(2) res(1) by auto
  qed auto
  then show ?case using res tx by auto
qed

lemma best_take_wf:
  assumes "iter_wf U m D it" "entries_wf U m" "universe U" "i < length (best_take n it)"
  shows "\<exists>tx. hget (index m) (op_hash (best_take n it ! i)) = Some tx \<and> tx_op tx = best_take n it ! i
    \<and> (length (op_requires (best_take n it ! i)) \<le> requires_offset tx
       \<or> set (op_requires (best_take n it ! i)) \<subseteq> (\<Union>d\<in>D \<union> set (take i (best_take n it)). set (op_provides d)))"
  using assms
proof (induction n arbitrary: D it i)
  case (Suc n)
  obtain op it' where N: "best_next it = (Some op, it')"
    using Suc.prems(4) by (cases "best_next it") (auto split: option.splits simp del: best_next.simps)
  note W = best_next_wf [OF Suc.prems(1-3) N]
  have xs: "best_take (Suc n) it = op # best_take n it'" using N by (simp del: best_next.simps)
  show ?case
  proof (cases i)
    case 0
    then show ?thesis using W xs by simp
  next
    case (Suc j)
    from Suc.IH [OF conjunct1 [OF W] Suc.prems(2,3), of j] Suc.prems(4) xs Suc show ?thesis by simp
  qed
qed simp

section \<open>Properties\<close>


definition example_universe :: "tx_hash \<Rightarrow> unit pool_operation" where
  "example_universe h = (if h = 2 then example_op h 2 [[1]] [[2]] else example_op h 1 [] [[1]])"



end
