(* ===== verification/Top_Listener.thy ===== *)
theory Top_Listener
  imports Top_Future
begin

text \<open>
  Bans and notifications of the trusted operation pool (core-primitives/top-pool, rotator.rs, watcher.rs and listener.rs).
  The rotator keeps banned hashes with the time their ban ends. The listener keeps one watcher per
  watched hash; a watcher reports every status to the RPC sender and ignores whether that succeeds, so the
  reports are recorded in the order in which they are made.

  Instants are numbers of nanoseconds. The iteration order of a HashMap is the order of its list, and the
  LinkedHashMap of the finality watchers is a list in the order of insertion.
\<close>

section \<open>Bans\<close>

type_synonym instant = nat

record pool_rotator =
  ban_time :: nat
  banned_until :: "(tx_hash, instant) hmap"

definition EXPECTED_SIZE :: nat where
  "EXPECTED_SIZE = 2048"

definition rotator_default :: pool_rotator where
  "rotator_default = \<lparr>ban_time = 60 * 30 * 10 ^ 9, banned_until = []\<rparr>"

definition is_banned :: "tx_hash \<Rightarrow> pool_rotator \<Rightarrow> bool" where
  "is_banned h r \<longleftrightarrow> hget (banned_until r) h \<noteq> None"

function shrink_banned :: "nat \<Rightarrow> (tx_hash, instant) hmap \<Rightarrow> (tx_hash, instant) hmap" where
  "shrink_banned n m =
     (if n < length m
      then case m of [] \<Rightarrow> m | (k, _) # _ \<Rightarrow> shrink_banned n (hdel k m)
      else m)"
  by pat_completeness auto
termination
proof (relation "measure (length \<circ> snd)", goal_cases)
  case (2 n m p m' k v)
  then show ?case using length_hdel_less [of m k v] by auto
qed simp

declare shrink_banned.simps [simp del]

definition rotator_ban :: "instant \<Rightarrow> tx_hash list \<Rightarrow> pool_rotator \<Rightarrow> pool_rotator" where
  "rotator_ban now hs r =
     (let banned = fold (\<lambda>h. hput h (now + ban_time r)) hs (banned_until r)
      in r\<lparr>banned_until := (if 2 * EXPECTED_SIZE < length banned then shrink_banned EXPECTED_SIZE banned else banned)\<rparr>)"

definition ban_if_stale :: "instant \<Rightarrow> u64 \<Rightarrow> 'x pool_operation \<Rightarrow> pool_rotator \<Rightarrow> bool \<times> pool_rotator" where
  "ban_if_stale now current_block xt r =
     (if current_block < valid_till xt then (False, r) else (True, rotator_ban now [op_hash xt] r))"

definition clear_timeouts :: "instant \<Rightarrow> pool_rotator \<Rightarrow> pool_rotator" where
  "clear_timeouts now r = r\<lparr>banned_until := filter (\<lambda>(_, v). now \<le> v) (banned_until r)\<rparr>"

section \<open>Watchers\<close>

datatype operation_status =
    StSubmitted
  | StFuture
  | StReady
  | StBroadcast
  | StInSidechainBlock h256
  | StRetracted
  | StFinalityTimeout
  | StFinalized
  | StUsurped
  | StDropped
  | StInvalid

record watcher =
  watcher_hash :: tx_hash
  is_in_block :: bool

type_synonym status_event = "tx_hash \<times> operation_status"

definition new_watcher :: "tx_hash \<Rightarrow> watcher" where
  "new_watcher h = \<lparr>watcher_hash = h, is_in_block = False\<rparr>"

text \<open>Every method of a watcher sends one status, which is its second result.\<close>

definition watcher_ready :: "watcher \<Rightarrow> watcher \<times> status_event" where
  "watcher_ready w = (w, watcher_hash w, StReady)"

definition watcher_future :: "watcher \<Rightarrow> watcher \<times> status_event" where
  "watcher_future w = (w, watcher_hash w, StFuture)"

definition watcher_usurped :: "watcher \<Rightarrow> watcher \<times> status_event" where
  "watcher_usurped w = (w\<lparr>is_in_block := True\<rparr>, watcher_hash w, StUsurped)"

definition watcher_in_block :: "h256 \<Rightarrow> watcher \<Rightarrow> watcher \<times> status_event" where
  "watcher_in_block b w = (w\<lparr>is_in_block := True\<rparr>, watcher_hash w, StInSidechainBlock b)"

definition watcher_finalized :: "watcher \<Rightarrow> watcher \<times> status_event" where
  "watcher_finalized w = (w\<lparr>is_in_block := True\<rparr>, watcher_hash w, StFinalized)"

definition watcher_finality_timeout :: "watcher \<Rightarrow> watcher \<times> status_event" where
  "watcher_finality_timeout w = (w\<lparr>is_in_block := True\<rparr>, watcher_hash w, StFinalityTimeout)"

definition watcher_retracted :: "watcher \<Rightarrow> watcher \<times> status_event" where
  "watcher_retracted w = (w, watcher_hash w, StRetracted)"

definition watcher_invalid :: "watcher \<Rightarrow> watcher \<times> status_event" where
  "watcher_invalid w = (w\<lparr>is_in_block := True\<rparr>, watcher_hash w, StInvalid)"

definition watcher_dropped :: "watcher \<Rightarrow> watcher \<times> status_event" where
  "watcher_dropped w = (w\<lparr>is_in_block := True\<rparr>, watcher_hash w, StDropped)"

definition watcher_broadcast :: "string list \<Rightarrow> watcher \<Rightarrow> watcher \<times> status_event" where
  "watcher_broadcast peers w = (w, watcher_hash w, StBroadcast)"

definition is_done :: "watcher \<Rightarrow> bool" where
  "is_done w \<longleftrightarrow> is_in_block w"

section \<open>The listener\<close>

record listener =
  watchers :: "(tx_hash, watcher) hmap"
  finality_watchers :: "(h256 \<times> tx_hash list) list"
  sent :: "status_event list"

definition MAX_FINALITY_WATCHERS :: nat where
  "MAX_FINALITY_WATCHERS = 512"

definition listener_new :: listener where
  "listener_new = \<lparr>watchers = [], finality_watchers = [], sent = []\<rparr>"

definition fire :: "tx_hash \<Rightarrow> (watcher \<Rightarrow> watcher \<times> status_event) \<Rightarrow> listener \<Rightarrow> listener" where
  "fire h f l =
     (case hget (watchers l) h of
        None \<Rightarrow> l
      | Some w \<Rightarrow>
          (case f w of
             (w', e) \<Rightarrow>
               l\<lparr>watchers := (if is_done w' then hdel h (watchers l) else hput h w' (watchers l)), sent := sent l @ [e]\<rparr>))"

definition create_watcher :: "tx_hash \<Rightarrow> listener \<Rightarrow> listener" where
  "create_watcher h l = l\<lparr>watchers := hput h (new_watcher h) (watchers l)\<rparr>"

definition listener_broadcasted :: "tx_hash \<Rightarrow> string list \<Rightarrow> listener \<Rightarrow> listener" where
  "listener_broadcasted h peers = fire h (watcher_broadcast peers)"

definition listener_ready :: "tx_hash \<Rightarrow> tx_hash option \<Rightarrow> listener \<Rightarrow> listener" where
  "listener_ready h old l =
     (let l' = fire h watcher_ready l in case old of Some o' \<Rightarrow> fire o' watcher_usurped l' | None \<Rightarrow> l')"

definition listener_future :: "tx_hash \<Rightarrow> listener \<Rightarrow> listener" where
  "listener_future h = fire h watcher_future"

definition listener_dropped :: "tx_hash \<Rightarrow> tx_hash option \<Rightarrow> listener \<Rightarrow> listener" where
  "listener_dropped h by' = fire h (case by' of Some _ \<Rightarrow> watcher_usurped | None \<Rightarrow> watcher_dropped)"

definition listener_invalid :: "tx_hash \<Rightarrow> listener \<Rightarrow> listener" where
  "listener_invalid h = fire h watcher_invalid"

definition listener_in_block :: "tx_hash \<Rightarrow> h256 \<Rightarrow> listener \<Rightarrow> listener" where
  "listener_in_block h b = fire h (watcher_in_block b)"

fun drop_oldest :: "nat \<Rightarrow> (h256 \<times> tx_hash list) list \<Rightarrow> listener \<Rightarrow> listener" where
  "drop_oldest n [] l = l\<lparr>finality_watchers := []\<rparr>"
| "drop_oldest n ((b, hs) # fs) l =
     (if n < Suc (length fs) then drop_oldest n fs (fold (\<lambda>h. fire h watcher_finality_timeout) hs l)
      else l\<lparr>finality_watchers := (b, hs) # fs\<rparr>)"

definition listener_pruned :: "h256 \<Rightarrow> tx_hash \<Rightarrow> listener \<Rightarrow> listener" where
  "listener_pruned b h l =
     (let l' = fire h (watcher_in_block b) l;
          fs = hput b ((case hget (finality_watchers l') b of Some hs \<Rightarrow> hs | None \<Rightarrow> []) @ [h]) (finality_watchers l')
      in drop_oldest MAX_FINALITY_WATCHERS fs l')"

definition finality_done :: "h256 \<Rightarrow> (watcher \<Rightarrow> watcher \<times> status_event) \<Rightarrow> listener \<Rightarrow> listener" where
  "finality_done b f l =
     (case hget (finality_watchers l) b of
        None \<Rightarrow> l
      | Some hs \<Rightarrow> fold (\<lambda>h. fire h f) hs (l\<lparr>finality_watchers := hdel b (finality_watchers l)\<rparr>))"

definition listener_retracted :: "h256 \<Rightarrow> listener \<Rightarrow> listener" where
  "listener_retracted b = finality_done b watcher_retracted"

definition listener_finalized :: "h256 \<Rightarrow> listener \<Rightarrow> listener" where
  "listener_finalized b = finality_done b watcher_finalized"

lemmas watcher_defs = watcher_ready_def watcher_future_def watcher_usurped_def watcher_in_block_def watcher_finalized_def
  watcher_finality_timeout_def watcher_retracted_def watcher_invalid_def watcher_dropped_def watcher_broadcast_def

section \<open>Bans expire and are bounded\<close>

lemma shrink_banned_length: "length (shrink_banned n m) \<le> max n (length m)" "n < length m \<Longrightarrow> length (shrink_banned n m) \<le> n"
proof -
  have "length (shrink_banned n m) \<le> n \<or> length (shrink_banned n m) \<le> length m \<and> length m \<le> n"
  proof (induction n m rule: shrink_banned.induct)
    case (1 n m)
    show ?case
    proof (cases "n < length m")
      case True
      then obtain k v m' where m: "m = (k, v) # m'" by (cases m) auto
      from 1 [OF True m refl] True m show ?thesis by (subst (1 2) shrink_banned.simps) auto
    qed (simp add: shrink_banned.simps [of n m])
  qed
  then show "length (shrink_banned n m) \<le> max n (length m)" "n < length m \<Longrightarrow> length (shrink_banned n m) \<le> n" by auto
qed

lemma shrink_banned_sub: "hget (shrink_banned n m) h = Some u \<Longrightarrow> hget m h = Some u"
proof (induction n m rule: shrink_banned.induct)
  case (1 n m)
  show ?case
  proof (cases "n < length m")
    case True
    then obtain k v m' where m: "m = (k, v) # m'" by (cases m) auto
    have "hget (shrink_banned n (hdel k m)) h = Some u"
      using 1(2) True m by (subst (asm) shrink_banned.simps) simp
    then have "hget (hdel k m) h = Some u" using 1(1) [OF True m refl] m by simp
    then show ?thesis by (simp split: if_splits)
  qed (use 1(2) in \<open>simp add: shrink_banned.simps [of n m]\<close>)
qed

lemma shrink_banned_hwf: "hwf m \<Longrightarrow> hwf (shrink_banned n m)"
proof (induction n m rule: shrink_banned.induct)
  case (1 n m)
  show ?case
  proof (cases "n < length m")
    case True
    then obtain k v m' where m: "m = (k, v) # m'" by (cases m) auto
    have "hwf (shrink_banned n (hdel k m))" using 1(1) [OF True m refl] 1(2) by simp
    then show ?thesis using True m by (subst shrink_banned.simps) simp
  qed (use 1(2) in \<open>simp add: shrink_banned.simps [of n m]\<close>)
qed

lemma length_fold_put: "length (fold (\<lambda>h. hput h v) hs m) \<le> length m + length hs"
proof (induction hs arbitrary: m)
  case (Cons h hs)
  from Cons [of "hput h v m"] show ?case by (simp add: length_hput split: if_splits)
qed simp

lemma rotator_ban_hwf [simp]: "hwf (banned_until r) \<Longrightarrow> hwf (banned_until (rotator_ban now hs r))"
  by (simp add: rotator_ban_def Let_def shrink_banned_hwf hwf_fold_hput)

lemma rotator_ban_bound: "length (banned_until (rotator_ban now hs r)) \<le> 2 * EXPECTED_SIZE"
  using shrink_banned_length(2) [of EXPECTED_SIZE "fold (\<lambda>h. hput h (now + ban_time r)) hs (banned_until r)"]
  by (auto simp: rotator_ban_def Let_def)

lemma rotator_ban_banned:
  assumes "length (banned_until r) + length hs \<le> 2 * EXPECTED_SIZE"
  shows "hget (banned_until (rotator_ban now hs r)) k = (if k \<in> set hs then Some (now + ban_time r) else hget (banned_until r) k)"
proof -
  have "length (fold (\<lambda>h. hput h (now + ban_time r)) hs (banned_until r)) \<le> 2 * EXPECTED_SIZE"
    by (rule order_trans [OF length_fold_put assms])
  then show ?thesis by (simp add: rotator_ban_def Let_def)
qed

lemma clear_timeouts_banned:
  assumes "hwf (banned_until r)"
  shows "hget (banned_until (clear_timeouts now r)) h
    = (case hget (banned_until r) h of Some u \<Rightarrow> if now \<le> u then Some u else None | None \<Rightarrow> None)"
proof -
  have "hget (filter (\<lambda>(_, v). now \<le> v) m) h = (case hget m h of Some u \<Rightarrow> if now \<le> u then Some u else None | None \<Rightarrow> None)"
    if "hwf m" for m :: "(tx_hash, instant) hmap"
    using that
  proof (induction m)
    case (Cons kv m)
    have "hget m h = None" if "h = fst kv" using Cons.prems that by (simp add: map_of_eq_None_iff)
    with Cons show ?case by (cases kv) (auto split: option.splits)
  qed simp
  from this [OF assms] show ?thesis by (simp add: clear_timeouts_def)
qed

section \<open>Statuses of a watched operation\<close>

text \<open>A watcher ends with the status that marks it as done. The listener removes it at that point.\<close>

fun terminal :: "operation_status \<Rightarrow> bool" where
  "terminal (StInSidechainBlock _) = True"
| "terminal StFinalityTimeout = True"
| "terminal StFinalized = True"
| "terminal StUsurped = True"
| "terminal StDropped = True"
| "terminal StInvalid = True"
| "terminal _ = False"

definition reporting :: "(watcher \<Rightarrow> watcher \<times> status_event) \<Rightarrow> bool" where
  "reporting f \<longleftrightarrow> (\<forall>w. watcher_hash (fst (f w)) = watcher_hash w \<and> fst (snd (f w)) = watcher_hash w
     \<and> is_in_block (fst (f w)) = (is_in_block w \<or> terminal (snd (snd (f w)))))"

lemma reporting_watchers [simp]:
  "reporting watcher_ready" "reporting watcher_future" "reporting watcher_usurped" "reporting (watcher_in_block b)"
  "reporting watcher_finalized" "reporting watcher_finality_timeout" "reporting watcher_retracted" "reporting watcher_invalid"
  "reporting watcher_dropped" "reporting (watcher_broadcast peers)"
  by (simp_all add: reporting_def watcher_defs)

definition listener_wf :: "listener \<Rightarrow> bool" where
  "listener_wf l \<longleftrightarrow> (\<forall>h w. hget (watchers l) h = Some w \<longrightarrow> watcher_hash w = h \<and> \<not> is_in_block w)"

text \<open>The operations other than the creation of a watcher.\<close>

inductive notifies :: "listener \<Rightarrow> listener \<Rightarrow> bool" where
  notifies_refl: "notifies l l"
| notifies_fire: "reporting f \<Longrightarrow> notifies (fire h f l) l' \<Longrightarrow> notifies l l'"
| notifies_finality: "notifies (l\<lparr>finality_watchers := fs\<rparr>) l' \<Longrightarrow> notifies l l'"

lemma notifies_trans: "notifies l l' \<Longrightarrow> notifies l' l'' \<Longrightarrow> notifies l l''"
  by (induction rule: notifies.induct) (auto intro: notifies.intros)

lemma notifies_one: "reporting f \<Longrightarrow> notifies l (fire h f l)"
  by (rule notifies_fire [OF _ notifies_refl])

lemma notifies_set: "notifies l (l\<lparr>finality_watchers := fs\<rparr>)"
  by (rule notifies_finality [OF notifies_refl])

lemma notifies_fold: "reporting f \<Longrightarrow> notifies l (fold (\<lambda>h. fire h f) hs l)"
  by (induction hs arbitrary: l) (auto intro: notifies.intros)

lemma notifies_drop_oldest: "notifies l (drop_oldest n fs l)"
proof (induction n fs l rule: drop_oldest.induct)
  case (2 n b hs fs l)
  show ?case
  proof (cases "n < Suc (length fs)")
    case True
    then show ?thesis using notifies_trans [OF notifies_fold 2 [OF True]] by simp
  qed (simp add: notifies_set)
qed (simp add: notifies_set)

lemma notifies_ops:
  "notifies l (listener_broadcasted h peers l)" "notifies l (listener_ready h old l)" "notifies l (listener_future h l)"
  "notifies l (listener_dropped h by' l)" "notifies l (listener_invalid h l)" "notifies l (listener_in_block h b l)"
  "notifies l (listener_pruned b h l)" "notifies l (listener_retracted b l)" "notifies l (listener_finalized b l)"
proof -
  show "notifies l (listener_pruned b h l)"
    unfolding listener_pruned_def Let_def by (rule notifies_trans [OF notifies_one notifies_drop_oldest]) simp
  have "notifies l (finality_done b f l)" if "reporting f" for f
    by (auto simp: finality_done_def split: option.splits intro: notifies_refl notifies_trans [OF notifies_set notifies_fold [OF that]])
  then show "notifies l (listener_retracted b l)" "notifies l (listener_finalized b l)"
    by (simp_all add: listener_retracted_def listener_finalized_def)
qed (auto simp: listener_broadcasted_def listener_ready_def listener_future_def listener_dropped_def listener_invalid_def
    listener_in_block_def Let_def split: option.splits intro: notifies_one notifies_trans [OF notifies_one notifies_one])

lemma listener_wf_finality [simp]: "listener_wf (l\<lparr>finality_watchers := fs\<rparr>) = listener_wf l"
  by (simp add: listener_wf_def)

lemma fire_wf: "listener_wf l \<Longrightarrow> reporting f \<Longrightarrow> listener_wf (fire h f l)"
  by (auto simp: listener_wf_def fire_def reporting_def is_done_def split: option.splits prod.splits) (metis fst_conv)+

text \<open>What the reports made between two states say of one hash: all but the last are not terminal, and a terminal
  one leaves the hash without a watcher; without a watcher there are no reports.\<close>

definition reports_wf :: "tx_hash \<Rightarrow> listener \<Rightarrow> status_event list \<Rightarrow> listener \<Rightarrow> bool" where
  "reports_wf h l es l' \<longleftrightarrow>
     (\<forall>st\<in>set (butlast (map snd (filter (\<lambda>e. fst e = h) es))). \<not> terminal st)
     \<and> ((\<exists>st. (h, st) \<in> set es \<and> terminal st) \<longrightarrow> hget (watchers l') h = None)
     \<and> (hget (watchers l) h = None \<longrightarrow> filter (\<lambda>e. fst e = h) es = [] \<and> hget (watchers l') h = None)"

lemma reports_wf_nil: "watchers l' = watchers l \<Longrightarrow> reports_wf h l [] l'"
  by (simp add: reports_wf_def)

lemma reports_wf_append:
  assumes "reports_wf h l es l'" "reports_wf h l' es' l''"
  shows "reports_wf h l (es @ es') l''"
proof (cases "filter (\<lambda>e. fst e = h) es' = []")
  case True
  have "(h, st) \<notin> set es'" for st using True by (auto simp: filter_empty_conv)
  with True assms show ?thesis by (auto simp: reports_wf_def)
next
  case False
  then have "hget (watchers l') h \<noteq> None" using assms(2) by (auto simp: reports_wf_def)
  then have es: "hget (watchers l) h \<noteq> None" "\<forall>st. (h, st) \<in> set es \<longrightarrow> \<not> terminal st"
    using assms(1) by (auto simp: reports_wf_def)
  have "\<forall>st\<in>set (map snd (filter (\<lambda>e. fst e = h) es)). \<not> terminal st" using es(2) by auto
  then have "\<forall>st\<in>set (butlast (map snd (filter (\<lambda>e. fst e = h) (es @ es')))). \<not> terminal st"
    using False assms(2) by (auto simp: reports_wf_def butlast_append)
  with es assms(2) show ?thesis by (auto simp: reports_wf_def)
qed

lemma fire_reports:
  assumes "listener_wf l" "reporting f"
  shows "\<exists>es. sent (fire k f l) = sent l @ es \<and> reports_wf h l es (fire k f l)"
proof (cases "hget (watchers l) k")
  case None
  then show ?thesis by (auto simp: fire_def intro: reports_wf_nil)
next
  case (Some w)
  obtain w' k' st where f: "f w = (w', k', st)" by (metis prod.exhaust)
  have "watcher_hash w = k" "\<not> is_in_block w" using assms(1) Some by (auto simp: listener_wf_def)
  then have "k' = k" "is_in_block w' = terminal st" using assms(2) f by (auto simp: reporting_def dest: spec [of _ w])
  with Some f show ?thesis by (auto simp: fire_def reports_wf_def is_done_def)
qed

lemma notifies_reports:
  assumes "notifies l l'" "listener_wf l"
  shows "\<exists>es. sent l' = sent l @ es \<and> reports_wf h l es l'"
  using assms
proof (induction rule: notifies.induct)
  case (notifies_refl l)
  then show ?case by (auto intro: reports_wf_nil)
next
  case (notifies_fire f k l l')
  obtain es where es: "sent (fire k f l) = sent l @ es" "reports_wf h l es (fire k f l)"
    using fire_reports [OF notifies_fire.prems notifies_fire.hyps(1)] by blast
  obtain es' where "sent l' = sent (fire k f l) @ es'" "reports_wf h (fire k f l) es' l'"
    using notifies_fire.IH [OF fire_wf [OF notifies_fire.prems notifies_fire.hyps(1)]] by blast
  with es reports_wf_append [OF es(2)] show ?case by (intro exI [of _ "es @ es'"]) simp
next
  case (notifies_finality l l' fs)
  then show ?case by (simp add: reports_wf_def)
qed

lemma notifies_wf: "notifies l l' \<Longrightarrow> listener_wf l \<Longrightarrow> listener_wf l'"
  by (induction rule: notifies.induct) (simp_all add: fire_wf)

lemma create_watcher_wf: "listener_wf l \<Longrightarrow> listener_wf (create_watcher h l)"
  unfolding listener_wf_def create_watcher_def new_watcher_def by (intro allI impI) (force split: if_splits)

lemma listener_new_wf [simp]: "listener_wf listener_new"
  by (simp add: listener_wf_def listener_new_def)

end
