(* ===== verification/Top_Validated_Pool.thy ===== *)
theory Top_Validated_Pool
  imports Top_Base_Pool Top_Listener Stf_Primitives
begin

text \<open>
  The pool of validated operations (core-primitives/top-pool, validated_pool.rs): the base pool together with the ban
  list, the listener and the sinks that are notified of imports, each behind its own lock. A poisoned lock
  is an error where the source maps it to one, and a panic where the source unwraps it.

  The chain api supplies the validation, the hash and the block ids, and the conversions between its errors and
  those of the pool. Readings of the clock are numbered: \<open>readings\<close> counts those taken. A sink is the sender of a
  channel of the futures crate; \<open>try_send\<close> gives what an attempt to send returns. \<open>map_order\<close> is the
  order in which a HashMap of validated operations is iterated.
\<close>

section \<open>State\<close>

record pool_options =
  ready_limit :: limit
  future_limit :: limit
  options_reject_future :: bool

definition options_default :: pool_options where
  "options_default =
     \<lparr>ready_limit = \<lparr>limit_count = 8192, limit_bytes = 20 * 1024 * 1024\<rparr>,
      future_limit = \<lparr>limit_count = 512, limit_bytes = 1024 * 1024\<rparr>, options_reject_future = False\<rparr>"

datatype ('x, 'e) validated_operation =
    ValidOp "'x pool_operation"
  | InvalidOp tx_hash 'e
  | UnknownOp tx_hash 'e

datatype send_outcome = Sent | ChannelFull | Disconnected

record ('x, 'b, 'e, 's) chain_api =
  validate_transaction :: "trusted_operation_source \<Rightarrow> 'x \<Rightarrow> shard_identifier \<Rightarrow> ('e, (validity_error, valid_transaction) result) result"
  block_id_to_number :: "'b \<Rightarrow> ('e, u64 option) result"
  block_id_to_hash :: "'b \<Rightarrow> ('e, h256 option) result"
  hash_and_length :: "'x \<Rightarrow> tx_hash \<times> nat"
  from_pool_error :: "pool_error \<Rightarrow> 'e"
  into_pool_error :: "'e \<Rightarrow> ('e, pool_error) result"
  pool_clock :: "nat \<Rightarrow> instant"
  try_send :: "tx_hash \<Rightarrow> 's \<Rightarrow> send_outcome \<times> 's"
  map_order :: "(tx_hash \<times> ('x, 'e) validated_operation) list \<Rightarrow> (tx_hash \<times> ('x, 'e) validated_operation) list"

record ('x, 's) validated_pool =
  options :: pool_options
  pool_listener :: listener
  base :: "'x base_pool"
  import_notification_sinks :: "'s list"
  rotator :: pool_rotator
  readings :: nat
  listener_poisoned :: bool
  base_poisoned :: bool
  sinks_poisoned :: bool

definition valid_at ::
  "u64 \<Rightarrow> tx_hash \<Rightarrow> trusted_operation_source \<Rightarrow> 'x \<Rightarrow> nat \<Rightarrow> valid_transaction \<Rightarrow> ('x, 'e) validated_operation" where
  "valid_at at h source d bytes validity =
     ValidOp \<lparr>op_data = d, op_bytes = bytes, op_hash = h, op_priority = vt_priority validity,
        valid_till = saturating_add at (vt_longevity validity), op_requires = vt_requires validity,
        op_provides = vt_provides validity, op_propagate = vt_propagate validity, op_source = source\<rparr>"

definition validated_new :: "pool_options \<Rightarrow> ('x, 's) validated_pool" where
  "validated_new opts =
     \<lparr>options = opts, pool_listener = listener_new, base = base_new (options_reject_future opts),
      import_notification_sinks = [], rotator = rotator_default, readings = 0,
      listener_poisoned = False, base_poisoned = False, sinks_poisoned = False\<rparr>"

definition instant_now :: "('x, 'b, 'e, 's) chain_api \<Rightarrow> ('x, 's) validated_pool \<Rightarrow> instant \<times> ('x, 's) validated_pool" where
  "instant_now api vp = (pool_clock api (readings vp), vp\<lparr>readings := Suc (readings vp)\<rparr>)"

definition pool_ban :: "instant \<Rightarrow> tx_hash list \<Rightarrow> ('x, 's) validated_pool \<Rightarrow> ('x, 's) validated_pool" where
  "pool_ban now hs vp = vp\<lparr>rotator := rotator_ban now hs (rotator vp)\<rparr>"

definition ban_now :: "('x, 'b, 'e, 's) chain_api \<Rightarrow> tx_hash list \<Rightarrow> ('x, 's) validated_pool \<Rightarrow> ('x, 's) validated_pool" where
  "ban_now api hs vp = (case instant_now api vp of (now, vp') \<Rightarrow> pool_ban now hs vp')"

definition pool_is_banned :: "tx_hash \<Rightarrow> ('x, 's) validated_pool \<Rightarrow> bool" where
  "pool_is_banned h vp = is_banned h (rotator vp)"

definition check_is_known ::
  "('x, 'b, 'e, 's) chain_api \<Rightarrow> tx_hash \<Rightarrow> bool \<Rightarrow> shard_identifier \<Rightarrow> ('x, 's) validated_pool \<Rightarrow> ('e, unit) result option" where
  "check_is_known api h ignore_banned shard vp =
     (if \<not> ignore_banned \<and> pool_is_banned h vp then Some (Err (from_pool_error api TemporarilyBanned))
      else if base_poisoned vp then None
      else if is_imported h shard (base vp) then Some (Err (from_pool_error api AlreadyImported))
      else Some (Ok ()))"

section \<open>Submitting\<close>

fun fire_events :: "'x imported \<Rightarrow> listener \<Rightarrow> listener" where
  "fire_events (ImportedReady h prom failed removed) l =
     fold (\<lambda>p. listener_ready p None) prom
       (fold (\<lambda>r. listener_dropped (op_hash r) (Some h)) removed
         (fold listener_invalid failed (listener_ready h None l)))"
| "fire_events (ImportedFuture h) l = listener_future h l"

fun notify_sinks :: "('x, 'b, 'e, 's) chain_api \<Rightarrow> tx_hash \<Rightarrow> 's list \<Rightarrow> 's list" where
  "notify_sinks api h [] = []"
| "notify_sinks api h (s # ss) =
     (case try_send api h s of
        (Sent, s') \<Rightarrow> s' # notify_sinks api h ss
      | (ChannelFull, s') \<Rightarrow> s' # notify_sinks api h ss
      | (Disconnected, s') \<Rightarrow> notify_sinks api h ss)"

definition notify_import ::
  "('x, 'b, 'e, 's) chain_api \<Rightarrow> 'x imported \<Rightarrow> ('x, 's) validated_pool \<Rightarrow> (pool_error, ('x, 's) validated_pool) result" where
  "notify_import api imported vp =
     (case imported of
        ImportedFuture _ \<Rightarrow> Ok vp
      | ImportedReady h _ _ _ \<Rightarrow>
          if sinks_poisoned vp then Err UnlockError
          else Ok (vp\<lparr>import_notification_sinks := notify_sinks api h (import_notification_sinks vp)\<rparr>))"

fun validated_submit_one ::
  "('x, 'b, 'e, 's) chain_api \<Rightarrow> shard_identifier \<Rightarrow> ('x, 'e) validated_operation \<Rightarrow> ('x, 's) validated_pool
   \<Rightarrow> (('e, tx_hash) result \<times> ('x, 's) validated_pool) option" where
  "validated_submit_one api shard (ValidOp op) vp =
     (if base_poisoned vp then Some (Err (from_pool_error api UnlockError), vp)
      else case base_import op shard (base vp) of
             None \<Rightarrow> None
           | Some (Err e, p) \<Rightarrow> Some (Err (from_pool_error api e), vp\<lparr>base := p\<rparr>)
           | Some (Ok imported, p) \<Rightarrow>
               (case notify_import api imported (vp\<lparr>base := p\<rparr>) of
                  Err e \<Rightarrow> Some (Err (from_pool_error api e), vp\<lparr>base := p\<rparr>)
                | Ok vp' \<Rightarrow>
                    if listener_poisoned vp' then Some (Err (from_pool_error api UnlockError), vp')
                    else Some (Ok (imported_hash imported), vp'\<lparr>pool_listener := fire_events imported (pool_listener vp')\<rparr>)))"
| "validated_submit_one api shard (InvalidOp h e) vp = Some (Err e, ban_now api [h] vp)"
| "validated_submit_one api shard (UnknownOp h e) vp =
     (if listener_poisoned vp then None else Some (Err e, vp\<lparr>pool_listener := listener_invalid h (pool_listener vp)\<rparr>))"

definition pool_enforce_limits ::
  "('x, 'b, 'e, 's) chain_api \<Rightarrow> shard_identifier \<Rightarrow> ('x, 's) validated_pool \<Rightarrow> (tx_hash list \<times> ('x, 's) validated_pool) option" where
  "pool_enforce_limits api shard vp =
     (let st = base_status shard (base vp);
          rl = ready_limit (options vp);
          fl = future_limit (options vp)
      in if base_poisoned vp then None
         else if is_exceeded rl (status_ready st) (status_ready_bytes st) \<or> is_exceeded fl (status_future st) (status_future_bytes st)
         then case enforce_limits rl fl shard (base vp) of
                None \<Rightarrow> None
              | Some (ops, p) \<Rightarrow>
                  (let removed = remdups (map op_hash ops);
                       vp' = ban_now api removed (vp\<lparr>base := p\<rparr>)
                   in if listener_poisoned vp' then None
                      else Some (removed, vp'\<lparr>pool_listener := fold (\<lambda>h. listener_dropped h None) removed (pool_listener vp')\<rparr>))
         else Some ([], vp))"

fun submit_all ::
  "('x, 'b, 'e, 's) chain_api \<Rightarrow> shard_identifier \<Rightarrow> ('x, 'e) validated_operation list \<Rightarrow> ('x, 's) validated_pool
   \<Rightarrow> (('e, tx_hash) result list \<times> ('x, 's) validated_pool) option" where
  "submit_all api shard [] vp = Some ([], vp)"
| "submit_all api shard (tx # txs) vp =
     (case validated_submit_one api shard tx vp of
        None \<Rightarrow> None
      | Some (r, vp') \<Rightarrow> map_option (\<lambda>(rs, vp''). (r # rs, vp'')) (submit_all api shard txs vp'))"

fun immediately_dropped :: "('x, 'b, 'e, 's) chain_api \<Rightarrow> tx_hash list \<Rightarrow> ('e, tx_hash) result \<Rightarrow> ('e, tx_hash) result" where
  "immediately_dropped api removed (Ok h) = (if h \<in> set removed then Err (from_pool_error api ImmediatelyDropped) else Ok h)"
| "immediately_dropped api removed (Err e) = Err e"

definition validated_submit ::
  "('x, 'b, 'e, 's) chain_api \<Rightarrow> ('x, 'e) validated_operation list \<Rightarrow> shard_identifier \<Rightarrow> ('x, 's) validated_pool
   \<Rightarrow> (('e, tx_hash) result list \<times> ('x, 's) validated_pool) option" where
  "validated_submit api txs shard vp =
     (case submit_all api shard txs vp of
        None \<Rightarrow> None
      | Some (results, vp') \<Rightarrow>
          map_option (\<lambda>(removed, vp''). (map (immediately_dropped api removed) results, vp''))
            (if \<exists>r\<in>set results. is_ok r then pool_enforce_limits api shard vp' else Some ([], vp')))"

fun validated_submit_and_watch ::
  "('x, 'b, 'e, 's) chain_api \<Rightarrow> ('x, 'e) validated_operation \<Rightarrow> shard_identifier \<Rightarrow> ('x, 's) validated_pool
   \<Rightarrow> (('e, tx_hash) result \<times> ('x, 's) validated_pool) option" where
  "validated_submit_and_watch api (ValidOp op) shard vp =
     (case validated_submit api [ValidOp op] shard vp of
        None \<Rightarrow> None
      | Some ([], vp') \<Rightarrow> None
      | Some (r # rs, vp') \<Rightarrow>
          (case last (r # rs) of
             Ok h \<Rightarrow> if listener_poisoned vp' then None else Some (Ok h, vp'\<lparr>pool_listener := create_watcher h (pool_listener vp')\<rparr>)
           | Err e \<Rightarrow> Some (Err e, vp')))"
| "validated_submit_and_watch api (InvalidOp h e) shard vp = Some (Err e, ban_now api [h] vp)"
| "validated_submit_and_watch api (UnknownOp h e) shard vp = Some (Err e, vp)"

section \<open>Resubmitting\<close>

datatype resubmit_status = StatusFuture | StatusReady | StatusFailed | StatusDropped

type_synonym ('x, 'e) resubmission = "tx_hash \<times> ('x, 'e) validated_operation"

fun take_removed ::
  "'x pool_operation list \<Rightarrow> (tx_hash, ('x, 'e) validated_operation) hmap
   \<Rightarrow> (tx_hash, resubmit_status) hmap \<times> ('x, 'e) resubmission list
   \<Rightarrow> (tx_hash, ('x, 'e) validated_operation) hmap \<times> (tx_hash, resubmit_status) hmap \<times> ('x, 'e) resubmission list" where
  "take_removed [] updated acc = (updated, acc)"
| "take_removed (op # ops) updated (initial, txs) =
     take_removed ops (hdel (op_hash op) updated)
       (hput (op_hash op) StatusReady initial,
        txs @ [(op_hash op, case hget updated (op_hash op) of Some v \<Rightarrow> v | None \<Rightarrow> ValidOp op)])"

lemma take_removed_updated: "fst (take_removed ops updated acc) = fold hdel (map op_hash ops) updated"
  by (induction ops updated acc rule: take_removed.induct) simp_all

lemma length_hdel_le: "length (hdel k m) \<le> length m"
  using length_hdel_less [of m k] hdel_absent [of m k] by (cases "hget m k") force+

lemma length_hdel_fold: "length (hdel h (fold hdel ks m)) \<le> length (hdel h m)"
proof (induction ks arbitrary: m)
  case (Cons k ks)
  have "length (hdel h (fold hdel ks (hdel k m))) \<le> length (hdel k (hdel h m))" using Cons [of "hdel k m"] by (simp add: AList.delete_twist)
  then show ?case using length_hdel_le [of k "hdel h m"] by simp
qed simp

lemma take_removed_less: "length (hdel h (fst (take_removed ops ((h, v) # updated) acc))) < length ((h, v) # updated)"
  using length_hdel_fold [of h "map op_hash ops" "(h, v) # updated"] length_hdel_less [of "(h, v) # updated" h v]
  by (simp only: take_removed_updated) simp

definition remove_one ::
  "shard_identifier \<Rightarrow> tx_hash \<Rightarrow> (tx_hash, ('x, 'e) validated_operation) hmap
   \<Rightarrow> (tx_hash, resubmit_status) hmap \<times> ('x, 'e) resubmission list \<Rightarrow> 'x base_pool
   \<Rightarrow> (tx_hash, ('x, 'e) validated_operation) hmap \<times> ((tx_hash, resubmit_status) hmap \<times> ('x, 'e) resubmission list) \<times> 'x base_pool" where
  "remove_one shard h updated acc p =
     (case base_remove_subtree [h] shard p of
        (removed, p') \<Rightarrow> (case take_removed removed updated acc of (updated', acc') \<Rightarrow> (hdel h updated', acc', p')))"

lemma remove_one_less: "length (fst (remove_one shard (fst kv) (kv # updated) acc p)) < length (kv # updated)"
  using take_removed_less [of "fst kv" "fst (base_remove_subtree [fst kv] shard p)" "snd kv" updated acc]
  by (simp add: remove_one_def split_beta)

function remove_updated ::
  "shard_identifier \<Rightarrow> (tx_hash, ('x, 'e) validated_operation) hmap
   \<Rightarrow> (tx_hash, resubmit_status) hmap \<times> ('x, 'e) resubmission list \<Rightarrow> 'x base_pool
   \<Rightarrow> ((tx_hash, resubmit_status) hmap \<times> ('x, 'e) resubmission list) \<times> 'x base_pool" where
  "remove_updated shard [] acc p = (acc, p)"
| "remove_updated shard (kv # updated) acc p =
     (let st = remove_one shard (fst kv) (kv # updated) acc p
      in remove_updated shard (fst st) (fst (snd st)) (snd (snd st)))"
  by pat_completeness auto
termination
  by (relation "measure (length \<circ> fst \<circ> snd)") (use remove_one_less in auto)

definition import_statuses :: "'x imported \<Rightarrow> tx_hash \<Rightarrow> (tx_hash, resubmit_status) hmap \<Rightarrow> (tx_hash, resubmit_status) hmap" where
  "import_statuses imported h statuses =
     (case imported of
        ImportedReady _ prom failed removed \<Rightarrow>
          fold (\<lambda>op. hput (op_hash op) StatusDropped) removed
            (fold (\<lambda>h. hput h StatusFailed) failed
              (fold (\<lambda>h. hput h StatusReady) prom (hput h StatusReady statuses)))
      | ImportedFuture _ \<Rightarrow> hput h StatusFuture statuses)"

fun reimport ::
  "shard_identifier \<Rightarrow> ('x, 'e) resubmission list \<Rightarrow> (tx_hash, resubmit_status) hmap \<Rightarrow> 'x base_pool
   \<Rightarrow> ((tx_hash, resubmit_status) hmap \<times> 'x base_pool) option" where
  "reimport shard [] statuses p = Some (statuses, p)"
| "reimport shard ((h, ValidOp op) # txs) statuses p =
     (case base_import op shard p of
        None \<Rightarrow> None
      | Some (Ok imported, p') \<Rightarrow> reimport shard txs (import_statuses imported h statuses) p'
      | Some (Err _, p') \<Rightarrow> reimport shard txs (hput h StatusFailed statuses) p')"
| "reimport shard ((h, _) # txs) statuses p = reimport shard txs (hput h StatusFailed statuses) p"

definition resubmit_removed ::
  "shard_identifier \<Rightarrow> ('x, 'e) resubmission list \<Rightarrow> 'x base_pool \<Rightarrow> bool \<Rightarrow> ((tx_hash, resubmit_status) hmap \<times> 'x base_pool) option" where
  "resubmit_removed shard txs p reject =
     (case reimport shard txs [] p of
        None \<Rightarrow> None
      | Some (statuses, p') \<Rightarrow>
          if reject
          then case clear_future shard p' of
                 (ops, p'') \<Rightarrow> Some (fold (\<lambda>op. hput (op_hash op) StatusDropped) ops statuses, p'')
          else Some (statuses, p'))"

fun notify_status :: "tx_hash \<times> resubmit_status \<Rightarrow> listener \<Rightarrow> listener" where
  "notify_status (h, StatusFuture) l = listener_future h l"
| "notify_status (h, StatusReady) l = listener_ready h None l"
| "notify_status (h, StatusDropped) l = listener_dropped h None l"
| "notify_status (h, StatusFailed) l = listener_invalid h l"

definition validated_resubmit ::
  "(tx_hash, ('x, 'e) validated_operation) hmap \<Rightarrow> shard_identifier \<Rightarrow> ('x, 's) validated_pool \<Rightarrow> ('x, 's) validated_pool option" where
  "validated_resubmit updated shard vp =
     (if base_poisoned vp then None
      else case remove_updated shard updated ([], []) (base vp) of
             ((initial, txs), p) \<Rightarrow>
               (case with_futures_enabled (resubmit_removed shard txs) p of
                  None \<Rightarrow> None
                | Some (final, p') \<Rightarrow>
                    if listener_poisoned vp then None
                    else Some (vp\<lparr>base := p',
                           pool_listener := fold notify_status (filter (\<lambda>(h, st). hget initial h \<noteq> Some st) final) (pool_listener vp)\<rparr>)))"

section \<open>Pruning\<close>

definition extrinsics_tags :: "tx_hash list \<Rightarrow> shard_identifier \<Rightarrow> ('x, 's) validated_pool \<Rightarrow> tag list option list option" where
  "extrinsics_tags hs shard vp =
     (if base_poisoned vp then None else Some (map (map_option op_provides) (base_by_hashes hs shard (base vp))))"

definition validated_prune_tags ::
  "tag list \<Rightarrow> shard_identifier \<Rightarrow> ('x, 's) validated_pool \<Rightarrow> ('x prune_status \<times> ('x, 's) validated_pool) option" where
  "validated_prune_tags ts shard vp =
     (if base_poisoned vp then None
      else case base_prune_tags ts shard (base vp) of
             None \<Rightarrow> None
           | Some (st, p) \<Rightarrow>
               if listener_poisoned vp then None
               else Some (st, vp\<lparr>base := p,
                      pool_listener := fold (\<lambda>h. listener_dropped h None) (prune_failed st) (fold fire_events (promoted st) (pool_listener vp))\<rparr>))"

definition fire_pruned ::
  "('x, 'b, 'e, 's) chain_api \<Rightarrow> 'b \<Rightarrow> tx_hash list \<Rightarrow> ('x, 's) validated_pool \<Rightarrow> (('e, unit) result \<times> ('x, 's) validated_pool) option" where
  "fire_pruned api at hs vp =
     (case block_id_to_hash api at of
        Err e \<Rightarrow> Some (Err e, vp)
      | Ok None \<Rightarrow> Some (Err (from_pool_error api InvalidBlockId), vp)
      | Ok (Some b) \<Rightarrow>
          if listener_poisoned vp then None
          else Some (Ok (), vp\<lparr>pool_listener := fold (listener_pruned b) (rev (remdups (rev hs))) (pool_listener vp)\<rparr>))"

text \<open>All operations an iterator returns; the result is \<^term>\<open>None\<close> when it never ends.\<close>

partial_function (option) best_collect :: "'x best_iterator \<Rightarrow> 'x pool_operation list option" where
  "best_collect it =
     (case best_next it of
        (None, _) \<Rightarrow> Some []
      | (Some op, it') \<Rightarrow> Option.bind (best_collect it') (\<lambda>ops. Some (op # ops)))"

declare best_collect.simps [code]

definition validated_ready :: "shard_identifier \<Rightarrow> ('x, 's) validated_pool \<Rightarrow> 'x pool_operation list option" where
  "validated_ready shard vp = (if base_poisoned vp then None else best_collect (base_ready shard (base vp)))"

fun ban_stale :: "instant \<Rightarrow> u64 \<Rightarrow> 'x pool_operation list \<Rightarrow> pool_rotator \<Rightarrow> tx_hash list \<times> pool_rotator" where
  "ban_stale now n [] r = ([], r)"
| "ban_stale now n (op # ops) r =
     (case ban_if_stale now n op r of
        (stale, r') \<Rightarrow> (case ban_stale now n ops r' of (hs, r'') \<Rightarrow> (if stale then op_hash op # hs else hs, r'')))"

definition remove_invalid ::
  "('x, 'b, 'e, 's) chain_api \<Rightarrow> tx_hash list \<Rightarrow> shard_identifier \<Rightarrow> bool \<Rightarrow> ('x, 's) validated_pool
   \<Rightarrow> ('x pool_operation list \<times> ('x, 's) validated_pool) option" where
  "remove_invalid api hs shard inblock vp =
     (if hs = [] then Some ([], vp)
      else if base_poisoned vp then None
      else case base_remove_subtree hs shard (base vp) of
             (invalid, p) \<Rightarrow>
               if listener_poisoned vp then None
               else if inblock then Some (invalid, vp\<lparr>base := p\<rparr>)
               else (let vp' = ban_now api hs (vp\<lparr>base := p\<rparr>)
                     in Some (invalid, vp'\<lparr>pool_listener := fold (\<lambda>op. listener_invalid (op_hash op)) invalid (pool_listener vp')\<rparr>)))"

definition clear_stale ::
  "('x, 'b, 'e, 's) chain_api \<Rightarrow> 'b \<Rightarrow> shard_identifier \<Rightarrow> ('x, 's) validated_pool \<Rightarrow> (('e, unit) result \<times> ('x, 's) validated_pool) option" where
  "clear_stale api at shard vp =
     (case block_id_to_number api at of
        Err e \<Rightarrow> Some (Err e, vp)
      | Ok None \<Rightarrow> Some (Err (from_pool_error api InvalidBlockId), vp)
      | Ok (Some n) \<Rightarrow>
          (case instant_now api vp of
             (now, vp1) \<Rightarrow>
               Option.bind (validated_ready shard vp1) (\<lambda>ops.
                 case ban_stale now n ops (rotator vp1) of
                   (stale, r) \<Rightarrow>
                     (case ban_stale now n (base_futures shard (base vp1)) r of
                        (stale_futures, r') \<Rightarrow>
                          Option.bind (remove_invalid api stale shard False (vp1\<lparr>rotator := r'\<rparr>)) (\<lambda>(_, vp2).
                            Option.bind (remove_invalid api stale_futures shard False vp2) (\<lambda>(_, vp3).
                              Some (Ok (), vp3\<lparr>rotator := clear_timeouts now (rotator vp3)\<rparr>)))))))"

definition resubmit_pruned ::
  "('x, 'b, 'e, 's) chain_api \<Rightarrow> 'b \<Rightarrow> tx_hash list \<Rightarrow> tx_hash list \<Rightarrow> ('x, 'e) validated_operation list \<Rightarrow> shard_identifier
   \<Rightarrow> ('x, 's) validated_pool \<Rightarrow> (('e, unit) result \<times> ('x, 's) validated_pool) option" where
  "resubmit_pruned api at known_imported pruned_hashes pruned_xts shard vp =
     Option.bind (validated_submit api pruned_xts shard vp) (\<lambda>(results, vp1).
       let invalid = [idx. (idx, r) \<leftarrow> enumerate 0 results, (case r of Err e \<Rightarrow> into_pool_error api e = Ok InvalidTrustedOperation | Ok _ \<Rightarrow> False)]
       in if \<exists>idx\<in>set invalid. length pruned_hashes \<le> idx then None
          else Option.bind (fire_pruned api at (map (\<lambda>idx. pruned_hashes ! idx) invalid @ known_imported) vp1) (\<lambda>(r, vp2).
                 case r of
                   Err e \<Rightarrow> Some (Err e, vp2)
                 | Ok _ \<Rightarrow> clear_stale api at shard vp2))"

section \<open>Queries and notifications\<close>

definition validated_ready_by_hash :: "tx_hash \<Rightarrow> shard_identifier \<Rightarrow> ('x, 's) validated_pool \<Rightarrow> 'x pool_operation option option" where
  "validated_ready_by_hash h shard vp = (if base_poisoned vp then None else Some (ready_by_hash h shard (base vp)))"

definition import_notification_stream :: "'s \<Rightarrow> ('x, 's) validated_pool \<Rightarrow> ('x, 's) validated_pool option" where
  "import_notification_stream sink vp =
     (if sinks_poisoned vp then None else Some (vp\<lparr>import_notification_sinks := import_notification_sinks vp @ [sink]\<rparr>))"

definition on_listener :: "(listener \<Rightarrow> listener) \<Rightarrow> ('x, 's) validated_pool \<Rightarrow> ('x, 's) validated_pool option" where
  "on_listener f vp = (if listener_poisoned vp then None else Some (vp\<lparr>pool_listener := f (pool_listener vp)\<rparr>))"

definition on_broadcasted :: "(tx_hash, string list) hmap \<Rightarrow> ('x, 's) validated_pool \<Rightarrow> ('x, 's) validated_pool option" where
  "on_broadcasted propagated = on_listener (fold (\<lambda>(h, peers). listener_broadcasted h peers) propagated)"

definition validated_shards :: "('x, 's) validated_pool \<Rightarrow> shard_identifier list option" where
  "validated_shards vp = (if base_poisoned vp then None else Some (base_get_shards (base vp)))"

definition validated_status :: "shard_identifier \<Rightarrow> ('x, 's) validated_pool \<Rightarrow> pool_status option" where
  "validated_status shard vp = (if base_poisoned vp then None else Some (base_status shard (base vp)))"

definition on_block_finalized :: "h256 \<Rightarrow> ('x, 's) validated_pool \<Rightarrow> ('x, 's) validated_pool option" where
  "on_block_finalized b = on_listener (listener_finalized b)"

definition on_block_retracted :: "h256 \<Rightarrow> ('x, 's) validated_pool \<Rightarrow> ('x, 's) validated_pool option" where
  "on_block_retracted b = on_listener (listener_retracted b)"

definition on_block_imported :: "tx_hash list \<Rightarrow> h256 \<Rightarrow> ('x, 's) validated_pool \<Rightarrow> ('x, 's) validated_pool option" where
  "on_block_imported hs b vp =
     (if hs = [] then Some vp else on_listener (fold (\<lambda>h. listener_in_block h b) hs) vp)"

end
