(* ===== verification/Top_Pool.thy ===== *)
theory Top_Pool
  imports Top_Validated_Pool
begin

text \<open>
  The pool that validates operations before it submits them (core-primitives/top-pool, pool.rs) and the polling of
  the basic pool (basic_pool.rs). The asynchronous functions are modelled as running to their end without
  another one in between. The result \<^term>\<open>None\<close> is a panic or an iterator that never ends.
\<close>

datatype check_banned_before_verify = CheckBanned | IgnoreBanned

section \<open>Verification\<close>

definition verify_one ::
  "('x, 'b, 'e, 's) chain_api \<Rightarrow> u64 \<Rightarrow> trusted_operation_source \<Rightarrow> 'x \<Rightarrow> check_banned_before_verify \<Rightarrow> shard_identifier
   \<Rightarrow> ('x, 's) validated_pool \<Rightarrow> (tx_hash \<times> ('x, 'e) validated_operation) option" where
  "verify_one api block_number source xt check shard vp =
     (case hash_and_length api xt of
        (h, bytes) \<Rightarrow>
          (case check_is_known api h (check = IgnoreBanned) shard vp of
             None \<Rightarrow> None
           | Some (Err e) \<Rightarrow> Some (h, InvalidOp h e)
           | Some (Ok _) \<Rightarrow>
               Some (h,
                 case validate_transaction api source xt shard of
                   Err e \<Rightarrow> InvalidOp h e
                 | Ok (Ok validity) \<Rightarrow>
                     if vt_provides validity = [] then InvalidOp h (from_pool_error api NoTagsProvided)
                     else valid_at block_number h source xt bytes validity
                 | Ok (Err InvalidTransaction) \<Rightarrow> InvalidOp h (from_pool_error api InvalidTrustedOperation)
                 | Ok (Err UnknownTransaction) \<Rightarrow> UnknownOp h (from_pool_error api UnknownTrustedOperation))))"

fun verify_each ::
  "('x, 'b, 'e, 's) chain_api \<Rightarrow> check_banned_before_verify \<Rightarrow> shard_identifier \<Rightarrow> ('x, 's) validated_pool
   \<Rightarrow> (trusted_operation_source \<times> 'x) list \<Rightarrow> (tx_hash \<times> ('x, 'e) validated_operation) list option" where
  "verify_each api check shard vp [] = Some []"
| "verify_each api check shard vp ((source, xt) # xts) =
     (case verify_one api 0 source xt check shard vp of
        None \<Rightarrow> None
      | Some r \<Rightarrow> map_option (Cons r) (verify_each api check shard vp xts))"

definition pool_verify ::
  "('x, 'b, 'e, 's) chain_api \<Rightarrow> (trusted_operation_source \<times> 'x) list \<Rightarrow> check_banned_before_verify \<Rightarrow> shard_identifier
   \<Rightarrow> ('x, 's) validated_pool \<Rightarrow> (tx_hash, ('x, 'e) validated_operation) hmap option" where
  "pool_verify api xts check shard vp =
     map_option (\<lambda>rs. fold (\<lambda>(h, v). hput h v) rs []) (verify_each api check shard vp xts)"

definition into_values :: "('x, 'b, 'e, 's) chain_api \<Rightarrow> (tx_hash, ('x, 'e) validated_operation) hmap \<Rightarrow> ('x, 'e) validated_operation list" where
  "into_values api m = map snd (map_order api m)"

section \<open>Submitting\<close>

definition submit_verified ::
  "('x, 'b, 'e, 's) chain_api \<Rightarrow> check_banned_before_verify \<Rightarrow> trusted_operation_source \<Rightarrow> 'x list \<Rightarrow> shard_identifier \<Rightarrow> ('x, 's) validated_pool
   \<Rightarrow> (('e, tx_hash) result list \<times> ('x, 's) validated_pool) option" where
  "submit_verified api check source xts shard vp =
     Option.bind (pool_verify api (map (Pair source) xts) check shard vp) (\<lambda>validated.
       validated_submit api (into_values api validated) shard vp)"

definition pool_submit_at ::
  "('x, 'b, 'e, 's) chain_api \<Rightarrow> trusted_operation_source \<Rightarrow> 'x list \<Rightarrow> shard_identifier \<Rightarrow> ('x, 's) validated_pool
   \<Rightarrow> (('e, tx_hash) result list \<times> ('x, 's) validated_pool) option" where
  "pool_submit_at api = submit_verified api CheckBanned"

definition resubmit_at ::
  "('x, 'b, 'e, 's) chain_api \<Rightarrow> trusted_operation_source \<Rightarrow> 'x list \<Rightarrow> shard_identifier \<Rightarrow> ('x, 's) validated_pool
   \<Rightarrow> (('e, tx_hash) result list \<times> ('x, 's) validated_pool) option" where
  "resubmit_at api = submit_verified api IgnoreBanned"

definition pool_submit_one ::
  "('x, 'b, 'e, 's) chain_api \<Rightarrow> trusted_operation_source \<Rightarrow> 'x \<Rightarrow> shard_identifier \<Rightarrow> ('x, 's) validated_pool
   \<Rightarrow> (('e, tx_hash) result \<times> ('x, 's) validated_pool) option" where
  "pool_submit_one api source xt shard vp =
     Option.bind (pool_submit_at api source [xt] shard vp) (\<lambda>(rs, vp').
       if rs = [] then None else Some (last rs, vp'))"

definition pool_submit_and_watch ::
  "('x, 'b, 'e, 's) chain_api \<Rightarrow> trusted_operation_source \<Rightarrow> 'x \<Rightarrow> shard_identifier \<Rightarrow> ('x, 's) validated_pool
   \<Rightarrow> (('e, tx_hash) result \<times> ('x, 's) validated_pool) option" where
  "pool_submit_and_watch api source xt shard vp =
     Option.bind (verify_one api 0 source xt CheckBanned shard vp) (\<lambda>(_, tx).
       validated_submit_and_watch api tx shard vp)"

section \<open>Pruning\<close>

definition prune_known ::
  "('x, 'b, 'e, 's) chain_api \<Rightarrow> 'b \<Rightarrow> tx_hash list \<Rightarrow> shard_identifier \<Rightarrow> ('x, 's) validated_pool
   \<Rightarrow> (('e, unit) result \<times> ('x, 's) validated_pool) option" where
  "prune_known api at hs shard vp =
     Option.bind (extrinsics_tags hs shard vp) (\<lambda>tags.
       Option.bind (validated_prune_tags (concat (List.map_filter id tags)) shard vp) (\<lambda>(st, vp').
         fire_pruned api at (hs @ map op_hash (pruned st)) vp'))"

definition pool_prune_tags ::
  "('x, 'b, 'e, 's) chain_api \<Rightarrow> 'b \<Rightarrow> tag list \<Rightarrow> tx_hash list \<Rightarrow> shard_identifier \<Rightarrow> ('x, 's) validated_pool
   \<Rightarrow> (('e, unit) result \<times> ('x, 's) validated_pool) option" where
  "pool_prune_tags api at tags known_imported shard vp =
     Option.bind (validated_prune_tags tags shard vp) (\<lambda>(st, vp1).
       let vp2 = ban_now api known_imported vp1
       in Option.bind (pool_verify api (map (\<lambda>op. (op_source op, op_data op)) (pruned st)) CheckBanned shard vp2) (\<lambda>reverified.
            resubmit_pruned api at known_imported (map op_hash (pruned st)) (into_values api reverified) shard vp2))"

definition hash_of :: "('x, 'b, 'e, 's) chain_api \<Rightarrow> 'x \<Rightarrow> tx_hash" where
  "hash_of api xt = fst (hash_and_length api xt)"

fun future_tags :: "('x, 'b, 'e, 's) chain_api \<Rightarrow> shard_identifier \<Rightarrow> ('x \<times> tag list option) list \<Rightarrow> tag list" where
  "future_tags api shard [] = []"
| "future_tags api shard ((xt, Some tags) # xts) = tags @ future_tags api shard xts"
| "future_tags api shard ((xt, None) # xts) =
     (case validate_transaction api InBlock xt shard of Ok (Ok validity) \<Rightarrow> vt_provides validity | _ \<Rightarrow> []) @ future_tags api shard xts"

definition pool_prune ::
  "('x, 'b, 'e, 's) chain_api \<Rightarrow> 'b \<Rightarrow> 'x list \<Rightarrow> shard_identifier \<Rightarrow> ('x, 's) validated_pool
   \<Rightarrow> (('e, unit) result \<times> ('x, 's) validated_pool) option" where
  "pool_prune api at xts shard vp =
     (let hashes = map (hash_of api) xts
      in Option.bind (extrinsics_tags hashes shard vp) (\<lambda>in_pool_tags.
           pool_prune_tags api at (future_tags api shard (zip xts in_pool_tags)) hashes shard vp))"

section \<open>Polling for ready operations\<close>

text \<open>A poller is the number it waits for and the sender of its channel.\<close>

record 'c ready_poll =
  updated_at :: nat
  pollers :: "(nat \<times> 'c) list"

definition ready_poll_default :: "'c ready_poll" where
  "ready_poll_default = \<lparr>updated_at = 0, pollers = []\<rparr>"

function trigger_loop :: "nat \<Rightarrow> nat \<Rightarrow> (nat \<times> 'c) list \<Rightarrow> 'c list \<times> (nat \<times> 'c) list" where
  "trigger_loop number idx ps =
     (if idx < length ps
      then if fst (ps ! idx) \<le> number
           then (case trigger_loop number idx (swap_remove idx ps) of (sent_to, ps') \<Rightarrow> (snd (ps ! idx) # sent_to, ps'))
           else trigger_loop number (Suc idx) ps
      else ([], ps))"
  by pat_completeness auto
termination
  by (relation "measure (\<lambda>(number, idx, ps). length ps - idx)") (auto simp: swap_remove_def)

definition trigger :: "nat \<Rightarrow> 'c ready_poll \<Rightarrow> 'c list \<times> 'c ready_poll" where
  "trigger number rp =
     (case trigger_loop number 0 (pollers rp) of (sent_to, ps) \<Rightarrow> (sent_to, rp\<lparr>updated_at := number, pollers := ps\<rparr>))"

definition poll_add :: "nat \<Rightarrow> 'c \<Rightarrow> 'c ready_poll \<Rightarrow> 'c ready_poll" where
  "poll_add number sender rp = rp\<lparr>pollers := pollers rp @ [(number, sender)]\<rparr>"

text \<open>A request for a number that was already reached is answered at once; another one waits with its sender.\<close>

definition ready_at ::
  "nat \<Rightarrow> 'c \<Rightarrow> shard_identifier \<Rightarrow> ('x, 's) validated_pool \<Rightarrow> 'c ready_poll \<Rightarrow> ('x pool_operation list option \<times> 'c ready_poll) option" where
  "ready_at at sender shard vp rp =
     (if at \<le> updated_at rp then map_option (\<lambda>ops. (Some ops, rp)) (validated_ready shard vp)
      else Some (None, poll_add at sender rp))"

end
