(* ===== verification/Top_Fifo.thy ===== *)
theory Top_Fifo
  imports Top_Pool
begin

text \<open>
  Pools whose operations require no tags and agree in priority and longevity. These are the pools of trusted
  calls: \<open>validate_trusted_call\<close> gives every call an empty list of required tags, one provided tag and
  constants for the rest. Such a pool is a first-in first-out queue without two operations for the same tag, from which the
  limits drop the oldest operations.
\<close>

section \<open>The abstract queue\<close>

fun drop_exceeding :: "limit \<Rightarrow> 'x pool_operation list \<Rightarrow> 'x pool_operation list \<times> 'x pool_operation list" where
  "drop_exceeding l [] = ([], [])"
| "drop_exceeding l (x # xs) =
     (if is_exceeded l (length (x # xs)) (sum_list (map op_bytes (x # xs)))
      then (case drop_exceeding l xs of (dropped, kept) \<Rightarrow> (x # dropped, kept))
      else ([], x # xs))"

definition conflicts :: "'x pool_operation \<Rightarrow> 'x pool_operation list \<Rightarrow> bool" where
  "conflicts op xs \<longleftrightarrow> (\<exists>x\<in>set xs. op_hash x = op_hash op \<or> set (op_provides x) \<inter> set (op_provides op) \<noteq> {})"

definition fifo_submit :: "limit \<Rightarrow> 'x pool_operation \<Rightarrow> 'x pool_operation list \<Rightarrow> 'x pool_operation list" where
  "fifo_submit l op xs = (if conflicts op xs then xs else snd (drop_exceeding l (xs @ [op])))"

definition fifo_remove :: "tx_hash \<Rightarrow> 'x pool_operation list \<Rightarrow> 'x pool_operation list" where
  "fifo_remove h xs = filter (\<lambda>x. op_hash x \<noteq> h) xs"

lemma drop_exceeding_append: "fst (drop_exceeding l xs) @ snd (drop_exceeding l xs) = xs"
  by (induction xs) (auto split: prod.split)

lemma drop_exceeding_not_exceeded:
  "\<not> is_exceeded l (length xs) (sum_list (map op_bytes xs)) \<Longrightarrow> drop_exceeding l xs = ([], xs)"
  by (cases xs) simp_all

section \<open>Plain operations in the ready queue\<close>

definition plain_op :: "u64 \<Rightarrow> u64 \<Rightarrow> 'x pool_operation \<Rightarrow> bool" where
  "plain_op prio till op \<longleftrightarrow> op_requires op = [] \<and> op_priority op = prio \<and> valid_till op = till \<and> distinct (op_provides op)"

lemma plain_op_wf: "plain_op prio till op \<Longrightarrow> op_wf op"
  by (simp add: plain_op_def op_wf_def)

abbreviation ready_refs :: "'x ready_shard \<Rightarrow> 'x operation_ref list" where
  "ready_refs s \<equiv> map (tx_ref \<circ> snd) (index (ready_map s))"

definition pending_ops :: "'x ready_shard \<Rightarrow> 'x pool_operation list" where
  "pending_ops s = map ref_op (ready_refs s)"

definition fifo_shard :: "u64 \<Rightarrow> u64 \<Rightarrow> 'x ready_shard \<Rightarrow> bool" where
  "fifo_shard prio till s \<longleftrightarrow> ready_inv {} s
     \<and> (\<forall>tx\<in>snd ` set (index (ready_map s)). unlocks tx = [] \<and> plain_op prio till (tx_op tx))
     \<and> best_set s = rev (ready_refs s)
     \<and> sorted_wrt (\<lambda>a b. insertion_id a < insertion_id b) (ready_refs s)
     \<and> (\<forall>r\<in>set (ready_refs s). insertion_id r \<le> last_insertion_id s)"

lemma fifo_shardD:
  assumes "fifo_shard prio till s"
  shows "ready_inv {} s" "hget (index (ready_map s)) h = Some tx \<Longrightarrow> unlocks tx = [] \<and> plain_op prio till (tx_op tx)"
    "best_set s = rev (ready_refs s)" "sorted_wrt (\<lambda>a b. insertion_id a < insertion_id b) (ready_refs s)"
    "r \<in> set (ready_refs s) \<Longrightarrow> insertion_id r \<le> last_insertion_id s"
  using assms by (auto simp: fifo_shard_def dest!: map_of_SomeD)

lemma ready_hwf: "ready_inv F s \<Longrightarrow> hwf (index (ready_map s))"
  by (simp add: ready_inv_def tracked_ok_def)

lemma ready_op_hash: "ready_inv F s \<Longrightarrow> hget (index (ready_map s)) h = Some tx \<Longrightarrow> op_hash (tx_op tx) = h"
  unfolding ready_inv_def using refs_wfD(1) [of F "provided_tags s" "refs (ready_map s)" "best_set s" h "tx_ref tx"]
  by (simp add: refs_def)

lemma ready_entry: "ready_inv F s \<Longrightarrow> (h, tx) \<in> set (index (ready_map s)) \<longleftrightarrow> hget (index (ready_map s)) h = Some tx"
  using ready_hwf [of F s] by (metis map_of_eq_Some_iff)

lemma pending_iff:
  assumes "ready_inv F s"
  shows "(\<exists>x\<in>set (pending_ops s). P x) \<longleftrightarrow> (\<exists>h tx. hget (index (ready_map s)) h = Some tx \<and> P (tx_op tx))"
proof -
  have "(\<exists>x\<in>set (pending_ops s). P x) \<longleftrightarrow> (\<exists>h tx. (h, tx) \<in> set (index (ready_map s)) \<and> P (tx_op tx))"
    by (force simp: pending_ops_def)
  then show ?thesis by (simp only: ready_entry [OF assms])
qed

lemma pending_hash:
  assumes "ready_inv F s"
  shows "hget (index (ready_map s)) h \<noteq> None \<longleftrightarrow> (\<exists>x\<in>set (pending_ops s). op_hash x = h)"
proof -
  have "(\<exists>k tx. hget (index (ready_map s)) k = Some tx \<and> op_hash (tx_op tx) = h) \<longleftrightarrow> (\<exists>tx. hget (index (ready_map s)) h = Some tx)"
    using ready_op_hash [OF assms] by (metis (no_types))
  then show ?thesis by (simp add: pending_iff [OF assms])
qed

lemma pending_tag:
  assumes "ready_inv {} s"
  shows "hget (provided_tags s) t \<noteq> None \<longleftrightarrow> (\<exists>x\<in>set (pending_ops s). t \<in> set (op_provides x))"
proof -
  let ?R = "refs (ready_map s)"
  have wf: "refs_wf {} (provided_tags s) ?R (best_set s)" using assms by (simp add: ready_inv_def)
  have "hget (provided_tags s) t \<noteq> None \<longleftrightarrow> (\<exists>h r. ?R h = Some r \<and> t \<in> set (op_provides (ref_op r)))"
    using refs_wfD(3) [OF wf, of t] refs_wfD(4) [OF wf, of _ _ t] by (metis empty_iff option.exhaust option.distinct(1))
  also have "\<dots> \<longleftrightarrow> (\<exists>h tx. hget (index (ready_map s)) h = Some tx \<and> t \<in> set (op_provides (tx_op tx)))"
    by (auto simp: refs_def)
  finally show ?thesis using pending_iff [OF assms] by simp
qed

subsection \<open>The iterator\<close>

lemma best_max_last: "\<forall>x\<in>set xs. ref_less x r \<Longrightarrow> best_max (xs @ [r]) = Some r"
  by (induction xs) simp_all

lemma best_remove_id: "\<forall>x\<in>set xs. \<not> ref_eq r x \<Longrightarrow> best_remove r xs = xs"
  by (induction xs) (simp_all add: best_remove_def)

lemma best_collect_sorted:
  assumes "sorted_wrt (\<lambda>a b. insertion_id a < insertion_id b) rs"
    and "\<forall>r\<in>set rs. plain_op prio till (ref_op r) \<and> (\<exists>tx. hget all (op_hash (ref_op r)) = Some tx \<and> unlocks tx = [])"
  shows "best_collect \<lparr>iter_all = all, awaiting = [], iter_best = rev rs\<rparr> = Some (map ref_op rs)"
  using assms
proof (induction rs)
  case Nil
  then show ?case by (subst best_collect.simps) simp
next
  case (Cons r rs)
  have less: "ref_less x r \<and> \<not> ref_eq r x" if "x \<in> set rs" for x
  proof -
    have "insertion_id r < insertion_id x" "plain_op prio till (ref_op x)" "plain_op prio till (ref_op r)"
      using Cons.prems that by simp_all
    then show ?thesis by (simp add: plain_op_def ref_less_def ref_eq_def)
  qed
  have "\<exists>tx. hget all (op_hash (ref_op r)) = Some tx \<and> unlocks tx = []" using Cons.prems(2) by simp
  then obtain tx where tx: "hget all (op_hash (ref_op r)) = Some tx" "unlocks tx = []" by blast
  have "best_max (rev (r # rs)) = Some r" using best_max_last [of "rev rs" r] less by simp
  moreover have "best_remove r (rev (r # rs)) = rev rs" using best_remove_id [of "rev rs" r] less by (simp add: best_remove_def)
  ultimately have "best_next \<lparr>iter_all = all, awaiting = [], iter_best = rev (r # rs)\<rparr>
    = (Some (ref_op r), \<lparr>iter_all = all, awaiting = [], iter_best = rev rs\<rparr>)"
    using tx by (subst best_next.simps) (simp del: best_next.simps)
  moreover have "best_collect \<lparr>iter_all = all, awaiting = [], iter_best = rev rs\<rparr> = Some (map ref_op rs)"
    by (rule Cons.IH) (use Cons.prems in simp_all)
  ultimately show ?case by (subst best_collect.simps) (simp del: best_next.simps rev.simps)
qed

lemma fifo_collect:
  assumes "fifo_shard prio till s"
  shows "best_collect (ready_get s) = Some (pending_ops s)"
proof -
  have "plain_op prio till (ref_op r) \<and> (\<exists>tx. hget (index (ready_map s)) (op_hash (ref_op r)) = Some tx \<and> unlocks tx = [])"
    if r: "r \<in> set (ready_refs s)" for r
  proof -
    obtain h tx where tx: "(h, tx) \<in> set (index (ready_map s))" "r = tx_ref tx" using r by auto
    then have "hget (index (ready_map s)) h = Some tx" by (simp only: ready_entry [OF fifo_shardD(1) [OF assms]])
    then show ?thesis
      using fifo_shardD(2) [OF assms, of h tx] ready_op_hash [OF fifo_shardD(1) [OF assms], of h tx] tx(2) by simp
  qed
  then show ?thesis
    using best_collect_sorted [OF fifo_shardD(4) [OF assms], of prio till "index (ready_map s)"]
    by (simp add: ready_get_def fifo_shardD(3) [OF assms] pending_ops_def)
qed

subsection \<open>Removing\<close>

lemma fifo_same_entry:
  assumes "fifo_shard prio till s" "(h, tx) \<in> set (index (ready_map s))" "(k, tx') \<in> set (index (ready_map s))"
  shows "ref_eq (tx_ref tx) (tx_ref tx') \<longleftrightarrow> k = h"
proof
  let ?ids = "map (insertion_id \<circ> tx_ref \<circ> snd) (index (ready_map s))"
  have "sorted_wrt (<) ?ids" using fifo_shardD(4) [OF assms(1)] by (simp add: sorted_wrt_map comp_def)
  then have "distinct ?ids" by (simp add: strict_sorted_iff)
  then have inj: "inj_on (insertion_id \<circ> tx_ref \<circ> snd) (set (index (ready_map s)))" by (simp only: distinct_map)
  assume "ref_eq (tx_ref tx) (tx_ref tx')"
  then show "k = h" using inj_onD [OF inj _ assms(2,3)] by (simp add: ref_eq_def)
next
  assume "k = h"
  then have "tx' = tx"
    using eq_key_imp_eq_value [OF ready_hwf [OF fifo_shardD(1) [OF assms(1)]]] assms(2,3) by blast
  then show "ref_eq (tx_ref tx) (tx_ref tx')" by simp
qed

lemma filter_key: "hwf m \<Longrightarrow> hget m h = Some v \<Longrightarrow> filter (\<lambda>(k, _). k = h) m = [(h, v)]"
proof (induction m)
  case (Cons kv m)
  have "filter (\<lambda>(k, _). k = h) m = []" if "fst kv = h"
    using Cons.prems(1) that by (auto simp: filter_empty_conv image_iff)
  with Cons show ?case by (cases kv) (auto split: if_splits)
qed simp

lemma fifo_remove_one:
  assumes "fifo_shard prio till s"
  obtains s' where "ready_remove_subtree [h] s = (filter (\<lambda>x. op_hash x = h) (pending_ops s), s')"
    "fifo_shard prio till s'" "pending_ops s' = fifo_remove h (pending_ops s)" "last_insertion_id s' = last_insertion_id s"
proof (cases "hget (index (ready_map s)) h")
  case None
  then have "\<forall>x\<in>set (pending_ops s). op_hash x \<noteq> h" using pending_hash [OF fifo_shardD(1) [OF assms], of h] by auto
  then have "filter (\<lambda>x. op_hash x = h) (pending_ops s) = []" "fifo_remove h (pending_ops s) = pending_ops s"
    by (simp_all add: fifo_remove_def filter_empty_conv)
  then show ?thesis
    using assms None by (intro that [of s]) (simp_all add: ready_remove_subtree_def remove_subtree_with_tag_filter_def)
next
  case (Some tx)
  let ?ix = "index (ready_map s)"
  have inv: "ready_inv {} s" by (rule fifo_shardD(1) [OF assms])
  have tx: "unlocks tx = []" "plain_op prio till (tx_op tx)" using fifo_shardD(2) [OF assms Some] by auto
  define s' where "s' = snd (ready_remove_subtree [h] s)"
  have run: "ready_remove_subtree [h] s = ([tx_op tx], s')"
    "s' = s\<lparr>provided_tags := fold hdel (op_provides (tx_op tx)) (provided_tags s),
            ready_map := snd (tm_remove ready_tx_size h (ready_map s)), best_set := best_remove (tx_ref tx) (best_set s)\<rparr>"
    using Some tx by (simp_all add: s'_def ready_remove_subtree_def remove_subtree_with_tag_filter_def plain_op_def
        invalidated_def Let_def)
  have ix: "index (ready_map s') = filter (\<lambda>(k, _). h \<noteq> k) ?ix" using run(2) Some by (simp add: tm_remove_def AList.delete_eq)
  have key: "op_hash (tx_op tx') = k" if "(k, tx') \<in> set ?ix" for k tx'
    using ready_op_hash [OF inv, of k tx'] ready_entry [OF inv, of k tx'] that by simp
  have same: "ref_eq (tx_ref tx) (tx_ref tx') \<longleftrightarrow> h = k" if "(k, tx') \<in> set ?ix" for k tx'
    using fifo_same_entry [OF assms _ that, of h tx] ready_entry [OF inv, of h tx] Some by auto
  have keys: "filter (\<lambda>(k, _). h \<noteq> k) ?ix = filter (\<lambda>x. op_hash (tx_op (snd x)) \<noteq> h) ?ix"
    "filter (\<lambda>(k, _). k = h) ?ix = filter (\<lambda>x. op_hash (tx_op (snd x)) = h) ?ix"
    "filter (\<lambda>(k, _). h \<noteq> k) ?ix = filter (\<lambda>x. \<not> ref_eq (tx_ref tx) (tx_ref (snd x))) ?ix"
    by (auto intro!: filter_cong simp: same dest: key)
  have "pending_ops s' = fifo_remove h (pending_ops s)"
    by (simp add: pending_ops_def fifo_remove_def ix keys(1) filter_map comp_def)
  moreover have "filter (\<lambda>x. op_hash x = h) (pending_ops s) = [tx_op tx]"
    using filter_key [OF ready_hwf [OF inv] Some] by (simp add: pending_ops_def filter_map comp_def keys(2) [symmetric])
  moreover have "fifo_shard prio till s'"
    unfolding fifo_shard_def
  proof (intro conjI)
    show "ready_inv {} s'" using ready_remove_subtree_wf [OF inv run(1)] by simp
    have best: "best_set s' = best_remove (tx_ref tx) (rev (ready_refs s))"
      by (subst run(2)) (simp add: fifo_shardD(3) [OF assms])
    show "best_set s' = rev (ready_refs s')"
      unfolding best ix keys(3) best_remove_def by (simp add: rev_filter [symmetric] filter_map comp_def)
    show "sorted_wrt (\<lambda>a b. insertion_id a < insertion_id b) (ready_refs s')"
      using fifo_shardD(4) [OF assms] by (simp add: ix sorted_wrt_map sorted_wrt_filter)
    show "\<forall>tx\<in>snd ` set (index (ready_map s')). unlocks tx = [] \<and> plain_op prio till (tx_op tx)"
      using assms by (auto simp: fifo_shard_def ix)
    show "\<forall>r\<in>set (ready_refs s'). insertion_id r \<le> last_insertion_id s'"
    proof -
      have "last_insertion_id s' = last_insertion_id s" by (subst run(2)) simp
      moreover have "set (ready_refs s') \<subseteq> set (ready_refs s)" unfolding ix by auto
      ultimately show ?thesis using fifo_shardD(5) [OF assms] by auto
    qed
  qed
  ultimately show ?thesis using run by (intro that [of s']) simp_all
qed

subsection \<open>Importing\<close>

lemma saturating_add_ge: "a \<le> saturating_add a b" "b \<le> saturating_add a b"
proof -
  have "unat x < 2 ^ 64" for x :: u64 using unsigned_less [where ?'a = nat, of x] by simp
  from this [of a] this [of b] show "a \<le> saturating_add a b" "b \<le> saturating_add a b"
    by (simp_all add: word_le_nat_alt unat_saturating_add)
qed

lemma foldl_saturating_start: "a \<le> foldl (\<lambda>total x. saturating_add total (f x)) a xs"
proof (induction xs arbitrary: a)
  case (Cons x xs)
  show ?case using order_trans [OF saturating_add_ge(1) Cons [of "saturating_add a (f x)"]] by simp
qed simp

lemma foldl_saturating_ge: "x \<in> set xs \<Longrightarrow> f x \<le> foldl (\<lambda>total x. saturating_add total (f x)) a xs"
proof (induction xs arbitrary: a)
  case (Cons y xs)
  then show ?case using order_trans [OF saturating_add_ge(2) foldl_saturating_start] by auto
qed simp

lemma in_map_filter: "f x = Some y \<Longrightarrow> x \<in> set xs \<Longrightarrow> y \<in> set (List.map_filter f xs)"
  by (force simp: List.map_filter_def)

lemma replace_previous_fifo:
  assumes "fifo_shard prio till s" "plain_op prio till op"
  shows "replace_previous op s =
    (if \<exists>t\<in>set (op_provides op). hget (provided_tags s) t \<noteq> None then (Err (TooLowPriority prio), s) else (Ok ([], []), s))"
proof (cases "\<exists>t\<in>set (op_provides op). hget (provided_tags s) t \<noteq> None")
  case True
  then obtain t h where t: "t \<in> set (op_provides op)" "hget (provided_tags s) t = Some h" by auto
  have wf: "refs_wf {} (provided_tags s) (refs (ready_map s)) (best_set s)"
    using fifo_shardD(1) [OF assms(1)] by (simp add: ready_inv_def)
  obtain tx where tx: "hget (index (ready_map s)) h = Some tx" using refs_wfD(3) [OF wf t(2)] by (auto simp: refs_def)
  let ?hs = "remdups (List.map_filter (hget (provided_tags s)) (op_provides op))"
  have h: "h \<in> set ?hs" using in_map_filter [of "hget (provided_tags s)" t h] t by simp
  then have "tx \<in> set (List.map_filter (hget (index (ready_map s))) ?hs)"
    using in_map_filter [of "hget (index (ready_map s))" h tx] tx by blast
  from foldl_saturating_ge [OF this, of "\<lambda>tx. op_priority (tx_op tx)" 0]
  have "prio \<le> foldl (\<lambda>total tx. saturating_add total (op_priority (tx_op tx))) 0 (List.map_filter (hget (index (ready_map s))) ?hs)"
    using fifo_shardD(2) [OF assms(1) tx] by (simp add: plain_op_def)
  moreover have "?hs \<noteq> []" "op_priority op = prio" using h assms(2) by (auto simp: plain_op_def)
  ultimately show ?thesis using True by (simp add: replace_previous_def Let_def)
next
  case False
  then have "List.map_filter (hget (provided_tags s)) (op_provides op) = []" by (auto simp: List.map_filter_def filter_empty_conv)
  with False show ?thesis by (simp add: replace_previous_def)
qed

lemma unat_Suc_id: "unat (i :: u64) < 2 ^ 64 - 1 \<Longrightarrow> unat (i + 1) = Suc (unat i)"
  by (subst unat_add_lem [THEN iffD1]) simp_all

lemma ready_import_fifo:
  assumes "fifo_shard prio till s" "plain_op prio till (waiting_op w)" "is_ready w" "unat (last_insertion_id s) < 2 ^ 64 - 1"
    and "hget (index (ready_map s)) (op_hash (waiting_op w)) = None"
  obtains s' where "fifo_shard prio till s'" "last_insertion_id s' = last_insertion_id s + 1"
    "\<exists>t\<in>set (op_provides (waiting_op w)). hget (provided_tags s) t \<noteq> None \<Longrightarrow>
       ready_import w s = Some (Err (TooLowPriority prio), s') \<and> pending_ops s' = pending_ops s"
    "\<not> (\<exists>t\<in>set (op_provides (waiting_op w)). hget (provided_tags s) t \<noteq> None) \<Longrightarrow>
       ready_import w s = Some (Ok [], s') \<and> pending_ops s' = pending_ops s @ [waiting_op w]"
proof -
  let ?op = "waiting_op w"
  let ?s1 = "s\<lparr>last_insertion_id := last_insertion_id s + 1\<rparr>"
  have after: "x < last_insertion_id s + 1" if "x \<le> last_insertion_id s" for x
    using that unat_Suc_id [OF assms(4)] by (simp add: word_less_nat_alt word_le_nat_alt)
  have s1: "fifo_shard prio till ?s1" using assms(1) after by (auto simp: fifo_shard_def ready_inv_def intro: order.strict_implies_order)
  note rp = replace_previous_fifo [OF s1 assms(2)]
  have req: "op_requires ?op = []" using assms(2) by (simp add: plain_op_def)
  show ?thesis
  proof (cases "\<exists>t\<in>set (op_provides ?op). hget (provided_tags s) t \<noteq> None")
    case True
    then have "replace_previous ?op ?s1 = (Err (TooLowPriority prio), ?s1)" using rp by simp
    then have "ready_import w s = Some (Err (TooLowPriority prio), ?s1)" using assms(3,5) by (simp add: ready_import_def Let_def)
    then show ?thesis using True s1 by (intro that [of ?s1]) (simp_all add: pending_ops_def)
  next
    case False
    define r where "r = \<lparr>ref_op = ?op, insertion_id = last_insertion_id s + 1\<rparr>"
    define s' where "s' = ?s1\<lparr>provided_tags := fold (\<lambda>t. hput t (op_hash ?op)) (op_provides ?op) (provided_tags s),
        best_set := best_insert r (best_set s),
        ready_map := snd (tm_insert ready_tx_size (op_hash ?op) \<lparr>tx_ref = r, unlocks = [], requires_offset = 0\<rparr> (ready_map s))\<rparr>"
    have "replace_previous ?op ?s1 = (Ok ([], []), ?s1)" using rp False by auto
    then have run: "ready_import w s = Some (Ok [], s')"
      using assms(3,5) req by (simp add: ready_import_def Let_def s'_def r_def)
    have ix: "index (ready_map s') = index (ready_map s) @ [(op_hash ?op, \<lparr>tx_ref = r, unlocks = [], requires_offset = 0\<rparr>)]"
      using hput_absent [OF assms(5)] assms(5) by (simp add: s'_def tm_insert_def Let_def)
    have ids: "insertion_id x < insertion_id r" if "x \<in> set (ready_refs s)" for x
      using after [OF fifo_shardD(5) [OF assms(1) that]] by (simp add: r_def)
    have fields: "best_set s' = best_insert r (best_set s)" "last_insertion_id s' = last_insertion_id s + 1"
      by (simp_all add: s'_def)
    have refs: "ready_refs s' = ready_refs s @ [r]" by (simp add: ix)
    have "\<not> ref_eq r x" if "x \<in> set (best_set s)" for x
      using ids [of x] that fifo_shardD(3) [OF assms(1)] by (auto simp: ref_eq_def)
    then have "best_set s' = rev (ready_refs s')"
      unfolding fields refs by (auto simp: best_insert_def fifo_shardD(3) [OF assms(1)])
    moreover have "refs (ready_map s) (op_hash ?op) = None" using assms(5) by (simp add: refs_def)
    from ready_import_wf [OF fifo_shardD(1) [OF assms(1)] assms(3) plain_op_wf [OF assms(2)] this] run
    have "ready_inv {} s'" by auto
    moreover have "sorted_wrt (\<lambda>a b. insertion_id a < insertion_id b) (ready_refs s')"
      unfolding refs using fifo_shardD(4) [OF assms(1)] ids by (simp add: sorted_wrt_append)
    moreover have "\<forall>x\<in>set (ready_refs s'). insertion_id x \<le> last_insertion_id s'"
      unfolding refs fields using ids by (auto simp: r_def intro: order.strict_implies_order)
    moreover have "\<forall>tx\<in>snd ` set (index (ready_map s')). unlocks tx = [] \<and> plain_op prio till (tx_op tx)"
      unfolding ix using assms(1,2) by (auto simp: fifo_shard_def r_def)
    ultimately have "fifo_shard prio till s'" unfolding fifo_shard_def by blast
    then show ?thesis using False run by (intro that [of s']) (auto simp: pending_ops_def refs fields r_def)
  qed
qed

section \<open>The base pool\<close>

abbreviation pending :: "shard_identifier \<Rightarrow> 'x base_pool \<Rightarrow> 'x pool_operation list" where
  "pending shard p \<equiv> pending_ops (ready_of shard p)"

text \<open>The bound \<open>n\<close> counts imports, so that the insertion ids do not wrap around.\<close>

definition fifo_pool :: "u64 \<Rightarrow> u64 \<Rightarrow> nat \<Rightarrow> 'x base_pool \<Rightarrow> bool" where
  "fifo_pool prio till n p \<longleftrightarrow> futures p = []
     \<and> (\<forall>shard. fifo_shard prio till (ready_of shard p) \<and> unat (last_insertion_id (ready_of shard p)) \<le> n)"

lemma fifo_poolD:
  assumes "fifo_pool prio till n p"
  shows "futures p = []" "fifo_shard prio till (ready_of shard p)" "unat (last_insertion_id (ready_of shard p)) \<le> n"
    "future_of shard p = future_default"
  using assms by (simp_all add: fifo_pool_def future_of_def)

lemma fifo_pool_mono: "fifo_pool prio till n p \<Longrightarrow> n \<le> m \<Longrightarrow> fifo_pool prio till m p"
  unfolding fifo_pool_def by (meson order_trans)

lemma fifo_pool_new: "fifo_pool prio till 0 (base_new reject)" "pending shard (base_new reject) = []"
  by (simp_all add: fifo_pool_def fifo_shard_def base_new_def ready_of_def pending_ops_def)
    (simp_all add: ready_default_def tm_default_def)

lemma fifo_pool_put:
  assumes "fifo_pool prio till n p" "fifo_shard prio till s" "unat (last_insertion_id s) \<le> m" "n \<le> m"
  shows "fifo_pool prio till m (p\<lparr>readies := hput shard s (readies p)\<rparr>)"
  using fifo_pool_mono [OF assms(1,4)] assms(2,3) by (simp add: fifo_pool_def)

lemma is_imported_fifo:
  assumes "fifo_pool prio till n p"
  shows "is_imported h shard p \<longleftrightarrow> (\<exists>x\<in>set (pending shard p). op_hash x = h)"
  using pending_hash [OF fifo_shardD(1) [OF fifo_poolD(2) [OF assms]]]
  by (simp add: is_imported_def future_contains_def ready_contains_def fifo_poolD(4) [OF assms] future_default_def)

lemma base_import_fifo:
  assumes "fifo_pool prio till n p" "plain_op prio till op" "n < 2 ^ 64 - 1"
  obtains p' where "fifo_pool prio till (Suc n) p'" "\<And>k. k \<noteq> shard \<Longrightarrow> pending k p' = pending k p"
    "conflicts op (pending shard p) \<Longrightarrow> \<exists>e. base_import op shard p = Some (Err e, p') \<and> pending shard p' = pending shard p"
    "\<not> conflicts op (pending shard p) \<Longrightarrow>
       base_import op shard p = Some (Ok (ImportedReady (op_hash op) [] [] []), p') \<and> pending shard p' = pending shard p @ [op]"
proof (cases "is_imported (op_hash op) shard p")
  case True
  then have "base_import op shard p = Some (Err AlreadyImported, p)" by (simp add: base_import_def)
  moreover have "conflicts op (pending shard p)" using True is_imported_fifo [OF assms(1)] by (auto simp: conflicts_def)
  ultimately show ?thesis using fifo_pool_mono [OF assms(1)] by (intro that [of p]) auto
next
  case False
  let ?s = "ready_of shard p"
  define w where "w = waiting_new op (map_option provided_tags (hget (readies p) shard)) (recently_pruned p)"
  have w: "waiting_op w = op" "is_ready w" using assms(2) by (simp_all add: w_def waiting_new_def is_ready_def plain_op_def)
  note s = fifo_poolD(2) [OF assms(1), of shard]
  have none: "hget (index (ready_map ?s)) (op_hash (waiting_op w)) = None"
    using False is_imported_fifo [OF assms(1), of "op_hash op" shard] pending_hash [OF fifo_shardD(1) [OF s], of "op_hash op"] w(1)
    by (metis (no_types))
  have id: "unat (last_insertion_id ?s) < 2 ^ 64 - 1" using fifo_poolD(3) [OF assms(1), of shard] assms(3) by linarith
  have "plain_op prio till (waiting_op w)" using assms(2) w(1) by simp
  from ready_import_fifo [OF s this w(2) id none] obtain s' where
    s': "fifo_shard prio till s'" "last_insertion_id s' = last_insertion_id ?s + 1"
      "\<exists>t\<in>set (op_provides op). hget (provided_tags ?s) t \<noteq> None \<Longrightarrow>
         ready_import w ?s = Some (Err (TooLowPriority prio), s') \<and> pending_ops s' = pending_ops ?s"
      "\<not> (\<exists>t\<in>set (op_provides op). hget (provided_tags ?s) t \<noteq> None) \<Longrightarrow>
         ready_import w ?s = Some (Ok [], s') \<and> pending_ops s' = pending_ops ?s @ [op]"
    unfolding w(1) by blast
  let ?p = "p\<lparr>readies := hput shard s' (readies p)\<rparr>"
  have fifo: "fifo_pool prio till (Suc n) ?p"
    using fifo_poolD(3) [OF assms(1), of shard] unat_Suc_id [OF id] s'(2)
    by (intro fifo_pool_put [OF assms(1) s'(1)]) simp_all
  have sat: "pool_satisfy_tags ts shard p = Some ([], p)" for ts
    by (simp add: pool_satisfy_tags_def fifo_poolD(1) [OF assms(1)])
  have conf: "conflicts op (pending shard p) \<longleftrightarrow> (\<exists>t\<in>set (op_provides op). hget (provided_tags ?s) t \<noteq> None)"
    using False is_imported_fifo [OF assms(1)] unfolding conflicts_def pending_tag [OF fifo_shardD(1) [OF s]] by blast
  have run: "base_import op shard p = import_to_ready w shard p" using False w(2) by (simp add: base_import_def w_def Let_def)
  show ?thesis
  proof (rule that [of ?p])
    show "fifo_pool prio till (Suc n) ?p" by (rule fifo)
    show "pending k ?p = pending k p" if "k \<noteq> shard" for k using that by simp
    show "\<exists>e. base_import op shard p = Some (Err e, ?p) \<and> pending shard ?p = pending shard p" if "conflicts op (pending shard p)"
      using s'(3) that conf by (simp add: run import_to_ready_def sat pool_ready_import_def)
    show "base_import op shard p = Some (Ok (ImportedReady (op_hash op) [] [] []), ?p) \<and> pending shard ?p = pending shard p @ [op]"
      if "\<not> conflicts op (pending shard p)"
      using s'(4) that conf by (simp add: run import_to_ready_def sat pool_ready_import_def w(1))
  qed
qed

lemma base_remove_fifo:
  assumes "fifo_pool prio till n p"
  obtains p' where "base_remove_subtree [h] shard p = (filter (\<lambda>x. op_hash x = h) (pending shard p), p')" "fifo_pool prio till n p'"
    "pending shard p' = fifo_remove h (pending shard p)" "\<And>k. k \<noteq> shard \<Longrightarrow> pending k p' = pending k p"
proof (cases "hget (readies p) shard")
  case None
  then have "pending shard p = []" by (simp add: ready_of_def pending_ops_def ready_default_def tm_default_def)
  then show ?thesis using None assms fifo_poolD(1) [OF assms]
    by (intro that [of p]) (simp_all add: base_remove_subtree_def pool_ready_remove_def pool_future_remove_def fifo_remove_def)
next
  case (Some s)
  then have s: "ready_of shard p = s" by (simp add: ready_of_def)
  obtain s' where s': "ready_remove_subtree [h] s = (filter (\<lambda>x. op_hash x = h) (pending_ops s), s')" "fifo_shard prio till s'"
    "pending_ops s' = fifo_remove h (pending_ops s)" "last_insertion_id s' = last_insertion_id s"
    using fifo_remove_one [of prio till s h] fifo_poolD(2) [OF assms, of shard] s by auto
  have "fifo_pool prio till n (p\<lparr>readies := hput shard s' (readies p)\<rparr>)"
    using fifo_poolD(3) [OF assms, of shard] s s'(4) by (intro fifo_pool_put [OF assms s'(2)]) simp_all
  then show ?thesis
    using s' Some s fifo_poolD(1) [OF assms]
    by (intro that [of "p\<lparr>readies := hput shard s' (readies p)\<rparr>"])
      (simp_all add: base_remove_subtree_def pool_ready_remove_def pool_future_remove_def)
qed

lemma foldl_older_first: "\<forall>tx\<in>set txs. insertion_id r \<le> insertion_id (tx_ref tx) \<Longrightarrow> foldl older (Some r) txs = Some r"
  by (induction txs) (auto simp: older_def)

lemma ready_fold_oldest:
  assumes "fifo_shard prio till s" "pending_ops s = x # xs"
  shows "\<exists>r. ready_fold older s = Some r \<and> ref_op r = x"
proof -
  obtain kv ix where ix: "index (ready_map s) = kv # ix" using assms(2) by (cases "index (ready_map s)") (auto simp: pending_ops_def)
  have "\<forall>tx\<in>snd ` set ix. insertion_id (tx_ref (snd kv)) \<le> insertion_id (tx_ref tx)"
    using fifo_shardD(4) [OF assms(1)] ix by (auto intro: order.strict_implies_order)
  then have "foldl older (Some (tx_ref (snd kv))) (map snd ix) = Some (tx_ref (snd kv))" by (intro foldl_older_first) simp
  then show ?thesis using assms(2) ix by (simp add: ready_fold_def older_def pending_ops_def)
qed

lemma ready_sizes_fifo:
  assumes "fifo_shard prio till s"
  shows "ready_len s = length (pending_ops s)" "ready_bytes s = sum_list (map op_bytes (pending_ops s))"
  using tracked_ok_sizes [of ready_tx_size "ready_map s"] fifo_shardD(1) [OF assms]
  by (simp_all add: ready_inv_def ready_len_def ready_bytes_def pending_ops_def comp_def ready_tx_size_def [abs_def])

lemma enforce_ready_fifo:
  assumes "fifo_pool prio till n p" "distinct (map op_hash (pending shard p))"
  shows "\<exists>p'. enforce_ready l shard p = Some (fst (drop_exceeding l (pending shard p)), p') \<and> fifo_pool prio till n p'
    \<and> pending shard p' = snd (drop_exceeding l (pending shard p)) \<and> (\<forall>k. k \<noteq> shard \<longrightarrow> pending k p' = pending k p)"
  using assms
proof (induction "pending shard p" arbitrary: p)
  case Nil
  note sizes = ready_sizes_fifo [OF fifo_poolD(2) [OF Nil(2), of shard]]
  have "\<not> is_exceeded l 0 0" by (simp add: is_exceeded_def)
  then show ?case using Nil sizes by (subst enforce_ready.simps) (simp add: Nil(1) [symmetric])
next
  case (Cons x xs)
  note s = fifo_poolD(2) [OF Cons.prems(1), of shard]
  note sizes = ready_sizes_fifo [OF s]
  show ?case
  proof (cases "is_exceeded l (length (x # xs)) (sum_list (map op_bytes (x # xs)))")
    case False
    then show ?thesis using Cons.prems(1) sizes
      by (subst enforce_ready.simps) (simp add: drop_exceeding_not_exceeded Cons.hyps(2) [symmetric])
  next
    case True
    obtain r where r: "ready_fold older (ready_of shard p) = Some r" "ref_op r = x"
      using ready_fold_oldest [OF s] Cons.hyps(2) by metis
    obtain p1 where p1: "base_remove_subtree [op_hash x] shard p = (filter (\<lambda>y. op_hash y = op_hash x) (pending shard p), p1)"
      "fifo_pool prio till n p1" "pending shard p1 = fifo_remove (op_hash x) (pending shard p)"
      "\<And>k. k \<noteq> shard \<Longrightarrow> pending k p1 = pending k p"
      using base_remove_fifo [OF Cons.prems(1), of "op_hash x" shard] by blast
    have "\<forall>y\<in>set xs. op_hash y \<noteq> op_hash x" using Cons.prems(2) Cons.hyps(2) by (metis distinct.simps(2) image_eqI list.map(2) list.set_map)
    then have split: "filter (\<lambda>y. op_hash y = op_hash x) (pending shard p) = [x]" "fifo_remove (op_hash x) (pending shard p) = xs"
      by (auto simp: Cons.hyps(2) [symmetric] fifo_remove_def filter_empty_conv)
    have "distinct (map op_hash (pending shard p1))" using Cons.prems(2) Cons.hyps(2) p1(3) split(2) by (metis distinct.simps(2) list.map(2))
    from Cons.hyps(1) [OF _ p1(2) this] obtain p' where
      p': "enforce_ready l shard p1 = Some (fst (drop_exceeding l xs), p')" "fifo_pool prio till n p'"
        "pending shard p' = snd (drop_exceeding l xs)" "\<forall>k. k \<noteq> shard \<longrightarrow> pending k p' = pending k p1"
      using p1(3) split(2) by metis
    have "enforce_ready l shard p = Some (x # fst (drop_exceeding l xs), p')"
      using True r p1(1) split(1) p'(1) sizes by (subst enforce_ready.simps) (simp add: Cons.hyps(2) [symmetric])
    then show ?thesis using True p' p1(4) by (simp add: Cons.hyps(2) [symmetric] split_beta)
  qed
qed

lemma enforce_limits_fifo:
  assumes "fifo_pool prio till n p" "distinct (map op_hash (pending shard p))"
  obtains p' where "enforce_limits rl fl shard p = Some (fst (drop_exceeding rl (pending shard p)), p')" "fifo_pool prio till n p'"
    "pending shard p' = snd (drop_exceeding rl (pending shard p))" "\<And>k. k \<noteq> shard \<Longrightarrow> pending k p' = pending k p"
proof -
  obtain p' where p': "enforce_ready rl shard p = Some (fst (drop_exceeding rl (pending shard p)), p')" "fifo_pool prio till n p'"
    "pending shard p' = snd (drop_exceeding rl (pending shard p))" "\<forall>k. k \<noteq> shard \<longrightarrow> pending k p' = pending k p"
    using enforce_ready_fifo [OF assms, of rl] by blast
  have "enforce_future fl shard p' = Some ([], p')"
    by (subst enforce_future.simps) (simp add: fifo_poolD(4) [OF p'(2)] future_default_def future_len_def future_bytes_def
        future_all_def is_exceeded_def)
  with p' show ?thesis by (intro that [of p']) (simp_all add: enforce_limits_def)
qed

lemma pending_distinct:
  assumes "fifo_pool prio till n p"
  shows "distinct (map op_hash (pending shard p))"
proof -
  let ?s = "ready_of shard p"
  note inv = fifo_shardD(1) [OF fifo_poolD(2) [OF assms, of shard]]
  have "op_hash (tx_op tx) = h" if "(h, tx) \<in> set (index (ready_map ?s))" for h tx
    using ready_op_hash [OF inv, of h tx] ready_entry [OF inv, of h tx] that by simp
  then have "map op_hash (pending shard p) = map fst (index (ready_map ?s))" by (auto simp: pending_ops_def)
  then show ?thesis using ready_hwf [OF inv] by simp
qed

text \<open>No two pending operations provide the same tag.\<close>

lemma pending_tags_disjoint:
  assumes "fifo_pool prio till n p" "x \<in> set (pending shard p)" "y \<in> set (pending shard p)"
    and "t \<in> set (op_provides x)" "t \<in> set (op_provides y)"
  shows "x = y"
proof -
  let ?s = "ready_of shard p"
  note inv = fifo_shardD(1) [OF fifo_poolD(2) [OF assms(1), of shard]]
  have wf: "refs_wf {} (provided_tags ?s) (refs (ready_map ?s)) (best_set ?s)" using inv by (simp add: ready_inv_def)
  have ref: "\<exists>r. refs (ready_map ?s) (op_hash z) = Some r \<and> ref_op r = z" if z: "z \<in> set (pending shard p)" for z
  proof -
    obtain h tx where tx: "hget (index (ready_map ?s)) h = Some tx" "tx_op tx = z"
      using z pending_iff [OF inv, of "\<lambda>x. x = z"] by auto
    with ready_op_hash [OF inv tx(1)] show ?thesis by (auto simp: refs_def)
  qed
  obtain r r' where "refs (ready_map ?s) (op_hash x) = Some r" "ref_op r = x" "refs (ready_map ?s) (op_hash y) = Some r'" "ref_op r' = y"
    using ref [OF assms(2)] ref [OF assms(3)] by blast
  moreover from this have "hget (provided_tags ?s) t = Some (op_hash x)" "hget (provided_tags ?s) t = Some (op_hash y)"
    using refs_wfD(4) [OF wf] assms(4,5) by blast+
  ultimately show ?thesis by simp
qed

section \<open>The validated pool\<close>

definition fifo_validated :: "u64 \<Rightarrow> u64 \<Rightarrow> nat \<Rightarrow> ('x, 's) validated_pool \<Rightarrow> bool" where
  "fifo_validated prio till n vp \<longleftrightarrow> fifo_pool prio till n (base vp)
     \<and> \<not> base_poisoned vp \<and> \<not> listener_poisoned vp \<and> \<not> sinks_poisoned vp"

abbreviation pool_pending :: "shard_identifier \<Rightarrow> ('x, 's) validated_pool \<Rightarrow> 'x pool_operation list" where
  "pool_pending shard vp \<equiv> pending shard (base vp)"

lemma fifo_validated_new: "fifo_validated prio till 0 (validated_new opts)"
  by (simp add: fifo_validated_def validated_new_def fifo_pool_new)

lemma fifo_validated_mono: "fifo_validated prio till n vp \<Longrightarrow> n \<le> m \<Longrightarrow> fifo_validated prio till m vp"
  by (auto simp: fifo_validated_def intro: fifo_pool_mono)

lemma validated_ready_fifo: "fifo_validated prio till n vp \<Longrightarrow> validated_ready shard vp = Some (pool_pending shard vp)"
  using fifo_collect [OF fifo_poolD(2), of prio till n "base vp" shard]
  by (simp add: fifo_validated_def validated_ready_def base_ready_def)

lemma ban_now_fields [simp]:
  "base (ban_now api hs vp) = base vp" "options (ban_now api hs vp) = options vp"
  "base_poisoned (ban_now api hs vp) = base_poisoned vp" "listener_poisoned (ban_now api hs vp) = listener_poisoned vp"
  "sinks_poisoned (ban_now api hs vp) = sinks_poisoned vp" "pool_listener (ban_now api hs vp) = pool_listener vp"
  by (simp_all add: ban_now_def instant_now_def pool_ban_def)

lemma fifo_validated_ban [simp]: "fifo_validated prio till n (ban_now api hs vp) = fifo_validated prio till n vp"
  by (simp add: fifo_validated_def)

lemma fifo_validated_listener [simp]:
  "fifo_validated prio till n (vp\<lparr>pool_listener := l\<rparr>) = fifo_validated prio till n vp"
  by (simp add: fifo_validated_def)

lemma pool_enforce_limits_fifo:
  assumes "fifo_validated prio till n vp"
  obtains vp' where
    "pool_enforce_limits api shard vp
       = Some (remdups (map op_hash (fst (drop_exceeding (ready_limit (options vp)) (pool_pending shard vp)))), vp')"
    "fifo_validated prio till n vp'" "options vp' = options vp"
    "pool_pending shard vp' = snd (drop_exceeding (ready_limit (options vp)) (pool_pending shard vp))"
    "\<And>k. k \<noteq> shard \<Longrightarrow> pool_pending k vp' = pool_pending k vp"
proof -
  let ?rl = "ready_limit (options vp)" and ?xs = "pool_pending shard vp"
  have p: "fifo_pool prio till n (base vp)" and locks: "\<not> base_poisoned vp" "\<not> listener_poisoned vp" "\<not> sinks_poisoned vp"
    using assms by (auto simp: fifo_validated_def)
  have st: "base_status shard (base vp) = \<lparr>status_ready = length ?xs, status_ready_bytes = sum_list (map op_bytes ?xs),
      status_future = 0, status_future_bytes = 0\<rparr>"
    using ready_sizes_fifo [OF fifo_poolD(2) [OF p, of shard]] fifo_poolD(4) [OF p, of shard]
    by (simp add: base_status_def future_len_def future_bytes_def future_all_def future_default_def)
  have never: "\<not> is_exceeded l 0 0" for l by (simp add: is_exceeded_def)
  show ?thesis
  proof (cases "is_exceeded ?rl (length ?xs) (sum_list (map op_bytes ?xs))")
    case False
    then show ?thesis using assms locks st never
      by (intro that [of vp]) (simp_all add: pool_enforce_limits_def Let_def drop_exceeding_not_exceeded)
  next
    case True
    obtain p' where p': "enforce_limits ?rl (future_limit (options vp)) shard (base vp) = Some (fst (drop_exceeding ?rl ?xs), p')"
      "fifo_pool prio till n p'" "pending shard p' = snd (drop_exceeding ?rl ?xs)" "\<And>k. k \<noteq> shard \<Longrightarrow> pending k p' = pending k (base vp)"
      using enforce_limits_fifo [OF p pending_distinct [OF p], where rl = ?rl and fl = "future_limit (options vp)"] by blast
    let ?removed = "remdups (map op_hash (fst (drop_exceeding ?rl ?xs)))"
    let ?vp = "ban_now api ?removed (vp\<lparr>base := p'\<rparr>)"
    have "pool_enforce_limits api shard vp
      = Some (?removed, ?vp\<lparr>pool_listener := fold (\<lambda>h. listener_dropped h None) ?removed (pool_listener vp)\<rparr>)"
      using True locks st p'(1) by (simp add: pool_enforce_limits_def Let_def)
    moreover have "fifo_validated prio till n ?vp" using p'(2) locks by (simp add: fifo_validated_def)
    ultimately show ?thesis
      using p'(3,4) by (intro that [of "?vp\<lparr>pool_listener := fold (\<lambda>h. listener_dropped h None) ?removed (pool_listener vp)\<rparr>"]) simp_all
  qed
qed

lemma submit_fifo:
  assumes "fifo_validated prio till n vp" "plain_op prio till op" "n < 2 ^ 64 - 1"
  obtains r vp' where "validated_submit api [ValidOp op] shard vp = Some ([r], vp')" "fifo_validated prio till (Suc n) vp'"
    "options vp' = options vp" "pool_pending shard vp' = fifo_submit (ready_limit (options vp)) op (pool_pending shard vp)"
    "\<And>k. k \<noteq> shard \<Longrightarrow> pool_pending k vp' = pool_pending k vp"
    "r = Ok (op_hash op) \<longleftrightarrow> \<not> conflicts op (pool_pending shard vp) \<and> op \<in> set (pool_pending shard vp')"
    "is_ok r \<Longrightarrow> r = Ok (op_hash op)"
proof -
  let ?xs = "pool_pending shard vp" and ?rl = "ready_limit (options vp)"
  have p: "fifo_pool prio till n (base vp)" and locks: "\<not> base_poisoned vp" "\<not> listener_poisoned vp" "\<not> sinks_poisoned vp"
    using assms by (auto simp: fifo_validated_def)
  obtain p' where p': "fifo_pool prio till (Suc n) p'" "\<And>k. k \<noteq> shard \<Longrightarrow> pending k p' = pending k (base vp)"
    "conflicts op ?xs \<Longrightarrow> \<exists>e. base_import op shard (base vp) = Some (Err e, p') \<and> pending shard p' = ?xs"
    "\<not> conflicts op ?xs \<Longrightarrow> base_import op shard (base vp) = Some (Ok (ImportedReady (op_hash op) [] [] []), p')
       \<and> pending shard p' = ?xs @ [op]"
    using base_import_fifo [OF p assms(2,3), of shard] by blast
  have vp: "fifo_validated prio till (Suc n) (vp\<lparr>base := p'\<rparr>)" using p'(1) locks by (simp add: fifo_validated_def)
  show ?thesis
  proof (cases "conflicts op ?xs")
    case True
    then obtain e where e: "base_import op shard (base vp) = Some (Err e, p')" "pending shard p' = ?xs" using p'(3) by blast
    then have "validated_submit api [ValidOp op] shard vp = Some ([Err (from_pool_error api e)], vp\<lparr>base := p'\<rparr>)"
      using locks by (simp add: validated_submit_def)
    then show ?thesis using True vp e(2) p'(2) by (intro that [of "Err (from_pool_error api e)" "vp\<lparr>base := p'\<rparr>"]) (simp_all add: fifo_submit_def)
  next
    case False
    define vp1 where "vp1 = vp\<lparr>base := p', import_notification_sinks := notify_sinks api (op_hash op) (import_notification_sinks vp),
      pool_listener := listener_ready (op_hash op) None (pool_listener vp)\<rparr>"
    have one: "validated_submit_one api shard (ValidOp op) vp = Some (Ok (op_hash op), vp1)"
      using locks p'(4) [OF False] by (simp add: notify_import_def vp1_def)
    have vp1: "fifo_validated prio till (Suc n) vp1" "options vp1 = options vp" "pool_pending shard vp1 = ?xs @ [op]"
      using p'(1) p'(4) [OF False] locks by (simp_all add: vp1_def fifo_validated_def)
    let ?D = "drop_exceeding ?rl (?xs @ [op])"
    obtain vp' where vp': "pool_enforce_limits api shard vp1 = Some (remdups (map op_hash (fst ?D)), vp')"
      "fifo_validated prio till (Suc n) vp'" "options vp' = options vp" "pool_pending shard vp' = snd ?D"
      "\<And>k. k \<noteq> shard \<Longrightarrow> pool_pending k vp' = pool_pending k vp1"
      using pool_enforce_limits_fifo [OF vp1(1), of api shard] vp1(2,3) by metis
    let ?r = "immediately_dropped api (remdups (map op_hash (fst ?D))) (Ok (op_hash op))"
    have run: "validated_submit api [ValidOp op] shard vp = Some ([?r], vp')"
      using one vp'(1) by (simp add: validated_submit_def)
    have "distinct (map op_hash (?xs @ [op]))" using False pending_distinct [OF p, of shard] by (auto simp: conflicts_def)
    then have "distinct (map op_hash (fst ?D @ snd ?D))" by (simp only: drop_exceeding_append)
    moreover have "op \<in> set (fst ?D @ snd ?D)" by (simp only: drop_exceeding_append) simp
    ultimately have "op_hash op \<in> set (map op_hash (fst ?D)) \<longleftrightarrow> op \<notin> set (snd ?D)" by force
    then have "?r = Ok (op_hash op) \<longleftrightarrow> op \<in> set (snd ?D)" "is_ok ?r \<Longrightarrow> ?r = Ok (op_hash op)" by (auto split: if_splits)
    moreover have "pool_pending k vp' = pool_pending k vp" if "k \<noteq> shard" for k using vp'(5) [OF that] p'(2) [OF that] by (simp add: vp1_def)
    ultimately show ?thesis using run vp' False by (intro that [of ?r vp']) (simp_all add: fifo_submit_def)
  qed
qed

lemma remove_invalid_fifo:
  assumes "fifo_validated prio till n vp"
  obtains vp' where "remove_invalid api [h] shard inblock vp = Some (filter (\<lambda>x. op_hash x = h) (pool_pending shard vp), vp')"
    "fifo_validated prio till n vp'" "options vp' = options vp" "pool_pending shard vp' = fifo_remove h (pool_pending shard vp)"
    "\<And>k. k \<noteq> shard \<Longrightarrow> pool_pending k vp' = pool_pending k vp" "inblock \<Longrightarrow> rotator vp' = rotator vp"
proof -
  have p: "fifo_pool prio till n (base vp)" and locks: "\<not> base_poisoned vp" "\<not> listener_poisoned vp" "\<not> sinks_poisoned vp"
    using assms by (auto simp: fifo_validated_def)
  let ?ops = "filter (\<lambda>x. op_hash x = h) (pool_pending shard vp)"
  obtain p' where p': "base_remove_subtree [h] shard (base vp) = (?ops, p')" "fifo_pool prio till n p'"
    "pending shard p' = fifo_remove h (pool_pending shard vp)" "\<And>k. k \<noteq> shard \<Longrightarrow> pending k p' = pool_pending k vp"
    using base_remove_fifo [OF p, of h shard] by blast
  let ?vp = "ban_now api [h] (vp\<lparr>base := p'\<rparr>)"
  let ?vp' = "if inblock then vp\<lparr>base := p'\<rparr>
    else ?vp\<lparr>pool_listener := fold (\<lambda>op. listener_invalid (op_hash op)) ?ops (pool_listener vp)\<rparr>"
  have "remove_invalid api [h] shard inblock vp = Some (?ops, ?vp')" using p'(1) locks by (simp add: remove_invalid_def Let_def)
  moreover have "fifo_validated prio till n ?vp'" using p'(2) locks by (simp add: fifo_validated_def)
  ultimately show ?thesis using p'(3,4) by (intro that [of ?vp']) auto
qed

section \<open>Submitting through the validation\<close>

text \<open>What a chain api must guarantee: its HashMap iteration only permutes, and it validates every operation of the set
  \<open>X\<close> as a plain one.\<close>

definition plain_api :: "u64 \<Rightarrow> u64 \<Rightarrow> 'x set \<Rightarrow> ('x, 'b, 'e, 's) chain_api \<Rightarrow> bool" where
  "plain_api prio till X api \<longleftrightarrow> (\<forall>m. mset (map_order api m) = mset m)
     \<and> (\<forall>source xt shard. xt \<in> X \<longrightarrow> (\<exists>v. validate_transaction api source xt shard = Ok (Ok v) \<and> vt_requires v = []
          \<and> vt_priority v = prio \<and> vt_longevity v = till \<and> vt_provides v \<noteq> [] \<and> distinct (vt_provides v)))"

definition operation_of :: "('x, 'b, 'e, 's) chain_api \<Rightarrow> trusted_operation_source \<Rightarrow> 'x \<Rightarrow> shard_identifier \<Rightarrow> 'x pool_operation" where
  "operation_of api source xt shard =
     (case validate_transaction api source xt shard of
        Ok (Ok v) \<Rightarrow>
          \<lparr>op_data = xt, op_bytes = snd (hash_and_length api xt), op_hash = fst (hash_and_length api xt), op_priority = vt_priority v,
           valid_till = vt_longevity v, op_requires = vt_requires v, op_provides = vt_provides v,
           op_propagate = vt_propagate v, op_source = source\<rparr>
      | _ \<Rightarrow> undefined)"

lemma saturating_add_0 [simp]: "saturating_add 0 b = b"
  using unsigned_less [where ?'a = nat, of b] by (simp add: saturating_add_def)

lemma verify_one_fifo:
  fixes source shard
  assumes "plain_api prio till X api" "xt \<in> X" "fifo_validated prio till n vp"
  defines "op \<equiv> operation_of api source xt shard"
  shows "plain_op prio till op" "op_hash op = hash_of api xt" "op_data op = xt"
    and "verify_one api 0 source xt CheckBanned shard vp = Some (hash_of api xt,
      if pool_is_banned (hash_of api xt) vp then InvalidOp (hash_of api xt) (from_pool_error api TemporarilyBanned)
      else if \<exists>x\<in>set (pool_pending shard vp). op_hash x = hash_of api xt
      then InvalidOp (hash_of api xt) (from_pool_error api AlreadyImported)
      else ValidOp op)"
proof -
  obtain v where v: "validate_transaction api source xt shard = Ok (Ok v)" "vt_requires v = []" "vt_priority v = prio"
    "vt_longevity v = till" "vt_provides v \<noteq> []" "distinct (vt_provides v)"
    using assms(1,2) unfolding plain_api_def by blast
  obtain h b where hb: "hash_and_length api xt = (h, b)" by fastforce
  show "plain_op prio till op" "op_hash op = hash_of api xt" "op_data op = xt"
    using v hb by (simp_all add: op_def operation_of_def plain_op_def hash_of_def)
  have "is_imported h shard (base vp) \<longleftrightarrow> (\<exists>x\<in>set (pool_pending shard vp). op_hash x = h)" "\<not> base_poisoned vp"
    using assms(3) is_imported_fifo [of prio till n "base vp"] by (simp_all add: fifo_validated_def)
  then show "verify_one api 0 source xt CheckBanned shard vp = Some (hash_of api xt,
      if pool_is_banned (hash_of api xt) vp then InvalidOp (hash_of api xt) (from_pool_error api TemporarilyBanned)
      else if \<exists>x\<in>set (pool_pending shard vp). op_hash x = hash_of api xt
      then InvalidOp (hash_of api xt) (from_pool_error api AlreadyImported)
      else ValidOp op)"
    using v hb by (simp add: verify_one_def check_is_known_def hash_of_def op_def operation_of_def valid_at_def)
qed

text \<open>The result of submitting one operation, with or without a watcher.\<close>

definition submit_outcome ::
  "('x, 'b, 'e, 's) chain_api \<Rightarrow> 'x pool_operation \<Rightarrow> shard_identifier \<Rightarrow> ('x, 's) validated_pool \<Rightarrow> ('e, tx_hash) result
   \<Rightarrow> ('x, 's) validated_pool \<Rightarrow> bool" where
  "submit_outcome api op shard vp r vp' \<longleftrightarrow> options vp' = options vp
     \<and> pool_pending shard vp' = (if pool_is_banned (op_hash op) vp then pool_pending shard vp
          else fifo_submit (ready_limit (options vp)) op (pool_pending shard vp))
     \<and> (\<forall>k. k \<noteq> shard \<longrightarrow> pool_pending k vp' = pool_pending k vp)
     \<and> (r = Ok (op_hash op) \<longleftrightarrow> \<not> pool_is_banned (op_hash op) vp \<and> \<not> conflicts op (pool_pending shard vp)
          \<and> op \<in> set (pool_pending shard vp'))
     \<and> (is_ok r \<longrightarrow> r = Ok (op_hash op))"

lemma submit_verified_fifo:
  assumes "fifo_validated prio till n vp" "plain_op prio till op" "n < 2 ^ 64 - 1"
    and "tx = (if pool_is_banned (op_hash op) vp then InvalidOp (op_hash op) e
      else if \<exists>x\<in>set (pool_pending shard vp). op_hash x = op_hash op then InvalidOp (op_hash op) e' else ValidOp op)"
  shows "\<exists>r vp'. validated_submit api [tx] shard vp = Some ([r], vp') \<and> fifo_validated prio till (Suc n) vp' \<and> submit_outcome api op shard vp r vp'"
    and "\<exists>r vp'. validated_submit_and_watch api tx shard vp = Some (r, vp') \<and> fifo_validated prio till (Suc n) vp' \<and> submit_outcome api op shard vp r vp'"
proof -
  have "(\<exists>r vp'. validated_submit api [tx] shard vp = Some ([r], vp') \<and> fifo_validated prio till (Suc n) vp' \<and> submit_outcome api op shard vp r vp')
    \<and> (\<exists>r vp'. validated_submit_and_watch api tx shard vp = Some (r, vp') \<and> fifo_validated prio till (Suc n) vp' \<and> submit_outcome api op shard vp r vp')"
  proof (cases "\<exists>e. tx = InvalidOp (op_hash op) e")
    case True
    then obtain e where tx: "tx = InvalidOp (op_hash op) e" by blast
    have rej: "pool_is_banned (op_hash op) vp \<or> conflicts op (pool_pending shard vp)"
      using assms(4) tx by (auto simp: conflicts_def split: if_splits)
    let ?vp = "ban_now api [op_hash op] vp"
    have "fifo_validated prio till (Suc n) ?vp" using fifo_validated_mono [OF assms(1), of "Suc n"] by simp
    moreover have "submit_outcome api op shard vp (Err e) ?vp" using rej by (auto simp: submit_outcome_def fifo_submit_def)
    ultimately show ?thesis using tx by (simp add: validated_submit_def)
  next
    case False
    then have tx: "tx = ValidOp op" "\<not> pool_is_banned (op_hash op) vp" using assms(4) by (auto split: if_splits)
    obtain r vp' where S: "validated_submit api [ValidOp op] shard vp = Some ([r], vp')" "fifo_validated prio till (Suc n) vp'"
      "options vp' = options vp" "pool_pending shard vp' = fifo_submit (ready_limit (options vp)) op (pool_pending shard vp)"
      "\<And>k. k \<noteq> shard \<Longrightarrow> pool_pending k vp' = pool_pending k vp"
      "r = Ok (op_hash op) \<longleftrightarrow> \<not> conflicts op (pool_pending shard vp) \<and> op \<in> set (pool_pending shard vp')"
      "is_ok r \<Longrightarrow> r = Ok (op_hash op)"
      using submit_fifo [OF assms(1-3), of api shard] by metis
    then have out: "submit_outcome api op shard vp r vp'" using tx(2) by (auto simp: submit_outcome_def)
    have "\<not> listener_poisoned vp'" using S(2) by (simp add: fifo_validated_def)
    moreover have "submit_outcome api op shard vp r (vp'\<lparr>pool_listener := l\<rparr>)" for l using out by (simp add: submit_outcome_def)
    ultimately show ?thesis using S(1,2) tx(1) out by (cases r) simp_all
  qed
  then show "\<exists>r vp'. validated_submit api [tx] shard vp = Some ([r], vp') \<and> fifo_validated prio till (Suc n) vp' \<and> submit_outcome api op shard vp r vp'"
    "\<exists>r vp'. validated_submit_and_watch api tx shard vp = Some (r, vp') \<and> fifo_validated prio till (Suc n) vp' \<and> submit_outcome api op shard vp r vp'"
    by blast+
qed

lemma pool_submit_fifo:
  assumes "plain_api prio till X api" "xt \<in> X" "fifo_validated prio till n vp" "n < 2 ^ 64 - 1"
  shows "\<exists>r vp'. pool_submit_one api source xt shard vp = Some (r, vp') \<and> fifo_validated prio till (Suc n) vp'
      \<and> submit_outcome api (operation_of api source xt shard) shard vp r vp'"
    and "\<exists>r vp'. pool_submit_and_watch api source xt shard vp = Some (r, vp') \<and> fifo_validated prio till (Suc n) vp'
      \<and> submit_outcome api (operation_of api source xt shard) shard vp r vp'"
proof -
  let ?op = "operation_of api source xt shard"
  note V = verify_one_fifo [OF assms(1-3), of source shard]
  define tx where "tx = (if pool_is_banned (op_hash ?op) vp then InvalidOp (op_hash ?op) (from_pool_error api TemporarilyBanned)
    else if \<exists>x\<in>set (pool_pending shard vp). op_hash x = op_hash ?op then InvalidOp (op_hash ?op) (from_pool_error api AlreadyImported)
    else ValidOp ?op)"
  have v: "verify_one api 0 source xt CheckBanned shard vp = Some (op_hash ?op, tx)" using V(2,4) by (simp add: tx_def)
  have "mset (map_order api [(op_hash ?op, tx)]) = {#(op_hash ?op, tx)#}" using assms(1) by (simp add: plain_api_def)
  then have "map_order api [(op_hash ?op, tx)] = [(op_hash ?op, tx)]" by (simp add: mset_single_iff_right)
  then have "pool_submit_at api source [xt] shard vp = validated_submit api [tx] shard vp"
    using v by (simp add: pool_submit_at_def submit_verified_def pool_verify_def into_values_def)
  then show "\<exists>r vp'. pool_submit_one api source xt shard vp = Some (r, vp') \<and> fifo_validated prio till (Suc n) vp'
      \<and> submit_outcome api ?op shard vp r vp'"
    using submit_verified_fifo(1) [OF assms(3) V(1) assms(4) tx_def, of api] by (auto simp: pool_submit_one_def)
  show "\<exists>r vp'. pool_submit_and_watch api source xt shard vp = Some (r, vp') \<and> fifo_validated prio till (Suc n) vp'
      \<and> submit_outcome api ?op shard vp r vp'"
    using submit_verified_fifo(2) [OF assms(3) V(1) assms(4) tx_def, of api] v by (simp add: pool_submit_and_watch_def)
qed

end
