(* ===== verification/Top_Author.thy ===== *)
theory Top_Author
  imports Top_Fifo
begin

text \<open>
  The author of trusted operations (core-primitives/top-pool-author): it decrypts and decodes what clients send, filters it,
  submits it to the pool, and hands the pending operations to the block production. \<open>sidechain_api\<close> is the chain api of
  api.rs over the trusted operations of \<open>Stf_Primitives\<close>; SCALE, the cipher, the key repository and the shards of the
  state handler are functions of \<open>author_env\<close>. Metric updates are recorded in order; the texts of
  RPC errors are left out.
\<close>

section \<open>Errors\<close>

datatype client_error =
    ClientErr
  | ClientPool pool_error
  | ClientVerification
  | BadFormat
  | BadFormatDecipher
  | BadSeedPhrase
  | BadKeyType
  | UnsupportedKeyType
  | KeyStoreUnavailable
  | InvalidSessionKeys
  | InvalidShard
  | UnsupportedOperation

datatype rpc_code = ServerError int | InternalError

fun client_error_code :: "client_error \<Rightarrow> rpc_code" where
  "client_error_code BadFormat = ServerError 1001"
| "client_error_code BadFormatDecipher = ServerError 1001"
| "client_error_code ClientVerification = ServerError 1002"
| "client_error_code InvalidShard = ServerError 1002"
| "client_error_code (ClientPool InvalidTrustedOperation) = ServerError 1010"
| "client_error_code (ClientPool UnknownTrustedOperation) = ServerError 1011"
| "client_error_code (ClientPool TemporarilyBanned) = ServerError 1012"
| "client_error_code (ClientPool AlreadyImported) = ServerError 1013"
| "client_error_code (ClientPool (TooLowPriority _)) = ServerError 1014"
| "client_error_code (ClientPool CycleDetected) = ServerError 1015"
| "client_error_code (ClientPool ImmediatelyDropped) = ServerError 1016"
| "client_error_code UnsupportedKeyType = ServerError 1017"
| "client_error_code _ = InternalError"

datatype state_rpc_error =
    RpcClient
  | InvalidBlockRange string string string
  | InvalidCount u32 u32
  | RpcPoolError pool_error
  | RpcClientError client_error
  | CodecError

fun state_rpc_into_pool_error :: "state_rpc_error \<Rightarrow> (state_rpc_error, pool_error) result" where
  "state_rpc_into_pool_error (RpcPoolError e) = Ok e"
| "state_rpc_into_pool_error e = Err e"

fun state_rpc_code :: "state_rpc_error \<Rightarrow> rpc_code" where
  "state_rpc_code (InvalidBlockRange _ _ _) = ServerError 4001"
| "state_rpc_code (InvalidCount _ _) = ServerError 4002"
| "state_rpc_code _ = ServerError 4004"

definition map_top_error :: "('x, 'b, state_rpc_error, 's) chain_api \<Rightarrow> state_rpc_error \<Rightarrow> rpc_code" where
  "map_top_error api e =
     state_rpc_code (RpcPoolError (case into_pool_error api e of Ok pe \<Rightarrow> pe | Err _ \<Rightarrow> VerificationError))"

section \<open>Filters\<close>

fun calls_only_filter :: "('t, 'g) trusted_operation \<Rightarrow> bool" where
  "calls_only_filter (DirectCall _) = True"
| "calls_only_filter (IndirectCall _) = True"
| "calls_only_filter (Get _) = False"

definition allow_all_filter :: "('t, 'g) trusted_operation \<Rightarrow> bool" where
  "allow_all_filter op = True"

fun getters_only_filter :: "('t, 'g) trusted_operation \<Rightarrow> bool" where
  "getters_only_filter (Get _) = True"
| "getters_only_filter _ = False"

fun indirect_calls_only_filter :: "('t, 'g) trusted_operation \<Rightarrow> bool" where
  "indirect_calls_only_filter (IndirectCall _) = True"
| "indirect_calls_only_filter _ = False"

fun no_direct_calls_filter :: "('t, 'g) trusted_operation \<Rightarrow> bool" where
  "no_direct_calls_filter (DirectCall _) = False"
| "no_direct_calls_filter _ = True"

definition deny_all_filter :: "('t, 'g) trusted_operation \<Rightarrow> bool" where
  "deny_all_filter op = False"

section \<open>The chain api of the sidechain\<close>

datatype block_id = BlockHashId h256 | BlockNumberId u64

fun api_block_id_to_number :: "block_id \<Rightarrow> u64 option" where
  "api_block_id_to_number (BlockNumberId n) = Some n"
| "api_block_id_to_number (BlockHashId _) = None"

fun api_block_id_to_hash :: "block_id \<Rightarrow> h256 option" where
  "api_block_id_to_hash (BlockHashId _) = None"
| "api_block_id_to_hash (BlockNumberId _) = None"

type_synonym ('t, 'g, 's) top_api = "(('t, 'g) trusted_operation, block_id, state_rpc_error, 's) chain_api"

definition sidechain_api ::
  "('t, 'g) call_env \<Rightarrow> (('t, 'g) trusted_operation \<Rightarrow> nat) \<Rightarrow> (nat \<Rightarrow> instant) \<Rightarrow> (tx_hash \<Rightarrow> 's \<Rightarrow> send_outcome \<times> 's)
   \<Rightarrow> ((tx_hash \<times> (('t, 'g) trusted_operation, state_rpc_error) validated_operation) list
        \<Rightarrow> (tx_hash \<times> (('t, 'g) trusted_operation, state_rpc_error) validated_operation) list)
   \<Rightarrow> ('t, 'g, 's) top_api" where
  "sidechain_api calls encoded_length clk send order =
     \<lparr>validate_transaction = (\<lambda>_ uxt _. Ok (validate_operation calls uxt)),
      block_id_to_number = (\<lambda>at. Ok (api_block_id_to_number at)),
      block_id_to_hash = (\<lambda>at. Ok (api_block_id_to_hash at)),
      hash_and_length = (\<lambda>ex. (top_hash calls ex, encoded_length ex)),
      from_pool_error = RpcPoolError, into_pool_error = state_rpc_into_pool_error,
      pool_clock = clk, try_send = send, map_order = order\<rparr>"

section \<open>The author\<close>

text \<open>An exchange rate is a fixed point number, kept by its 64 bits.\<close>

datatype exchange_rate_oracle_metric =
    MetricExchangeRate string string u64
  | MetricResponseTime string "128 word"
  | MetricRequestsIncrement string

datatype enclave_metric =
    SetSidechainBlockHeight u64
  | TopPoolSizeSet u64
  | TopPoolSizeIncrement
  | TopPoolSizeDecrement
  | ExchangeRateOracle exchange_rate_oracle_metric

record ('t, 'g, 's, 'key) author_env =
  author_calls :: "('t, 'g) call_env"
  author_api :: "('t, 'g, 's) top_api"
  author_filter :: "('t, 'g) trusted_operation \<Rightarrow> bool"
  facade_shard_exists :: "shard_identifier \<Rightarrow> (unit, bool) result"
  facade_list_shards :: "(unit, shard_identifier list) result"
  retrieve_shielding_key :: "(unit, 'key) result"
  shielding_decrypt :: "'key \<Rightarrow> bytes \<Rightarrow> (unit, bytes) result"
  decode_top :: "bytes \<Rightarrow> ('t, 'g) trusted_operation option"
  encode_top :: "('t, 'g) trusted_operation \<Rightarrow> bytes"

record ('t, 'g, 's) author =
  author_pool :: "(('t, 'g) trusted_operation, 's) validated_pool"
  metrics :: "enclave_metric list"

definition author_new :: "pool_options \<Rightarrow> ('t, 'g, 's) author" where
  "author_new opts = \<lparr>author_pool = validated_new opts, metrics = []\<rparr>"

definition TX_SOURCE :: trusted_operation_source where
  "TX_SOURCE = External"

datatype top_submission_mode = Submit | SubmitWatch

definition receive_top ::
  "('t, 'g, 's, 'key) author_env \<Rightarrow> bytes \<Rightarrow> shard_identifier \<Rightarrow> (client_error, ('t, 'g) trusted_operation) result" where
  "receive_top env ext shard =
     (case facade_shard_exists env shard of
        Err _ \<Rightarrow> Err InvalidShard
      | Ok False \<Rightarrow> Err InvalidShard
      | Ok True \<Rightarrow>
          (case retrieve_shielding_key env of
             Err _ \<Rightarrow> Err BadFormatDecipher
           | Ok key \<Rightarrow>
               (case shielding_decrypt env key ext of
                  Err _ \<Rightarrow> Err BadFormatDecipher
                | Ok request \<Rightarrow>
                    (case decode_top env request of
                       None \<Rightarrow> Err BadFormat
                     | Some op \<Rightarrow> if author_filter env op then Ok op else Err UnsupportedOperation))))"

definition process_top ::
  "('t, 'g, 's, 'key) author_env \<Rightarrow> bytes \<Rightarrow> shard_identifier \<Rightarrow> top_submission_mode \<Rightarrow> ('t, 'g, 's) author
   \<Rightarrow> ((rpc_code, tx_hash) result \<times> ('t, 'g, 's) author) option" where
  "process_top env ext shard mode a =
     (case receive_top env ext shard of
        Err e \<Rightarrow> Some (Err (client_error_code e), a)
      | Ok op \<Rightarrow>
          (let submitted = (case mode of
                 Submit \<Rightarrow> pool_submit_one (author_api env) TX_SOURCE op shard (author_pool a)
               | SubmitWatch \<Rightarrow> pool_submit_and_watch (author_api env) TX_SOURCE op shard (author_pool a))
           in map_option (\<lambda>(r, vp). (map_err (map_top_error (author_api env)) r,
                \<lparr>author_pool = vp, metrics = metrics a @ [TopPoolSizeIncrement]\<rparr>)) submitted))"

definition submit_top ::
  "('t, 'g, 's, 'key) author_env \<Rightarrow> bytes \<Rightarrow> shard_identifier \<Rightarrow> ('t, 'g, 's) author
   \<Rightarrow> ((rpc_code, tx_hash) result \<times> ('t, 'g, 's) author) option" where
  "submit_top env ext shard = process_top env ext shard Submit"

definition watch_top ::
  "('t, 'g, 's, 'key) author_env \<Rightarrow> bytes \<Rightarrow> shard_identifier \<Rightarrow> ('t, 'g, 's) author
   \<Rightarrow> ((rpc_code, tx_hash) result \<times> ('t, 'g, 's) author) option" where
  "watch_top env ext shard = process_top env ext shard SubmitWatch"

fun removed_hash ::
  "('t, 'g, 's, 'key) author_env \<Rightarrow> ('t, 'g) trusted_operation_or_hash \<Rightarrow> (state_rpc_error, tx_hash) result" where
  "removed_hash env (OperationHash h) = Ok h"
| "removed_hash env (OperationEncoded bs) =
     (case decode_top env bs of Some op \<Rightarrow> Ok (hash_of (author_api env) op) | None \<Rightarrow> Err CodecError)"
| "removed_hash env (Operation op) = Ok (hash_of (author_api env) op)"

definition remove_top ::
  "('t, 'g, 's, 'key) author_env \<Rightarrow> ('t, 'g) trusted_operation_or_hash \<Rightarrow> shard_identifier \<Rightarrow> bool \<Rightarrow> ('t, 'g, 's) author
   \<Rightarrow> ((state_rpc_error, tx_hash) result \<times> ('t, 'g, 's) author) option" where
  "remove_top env bytes_or_hash shard inblock a =
     (case removed_hash env bytes_or_hash of
        Err e \<Rightarrow> Some (Err e, a)
      | Ok h \<Rightarrow>
          map_option (\<lambda>(removed, vp).
              (case removed of [] \<Rightarrow> Err (RpcPoolError InvalidTrustedOperation) | op # _ \<Rightarrow> Ok (op_hash op),
               \<lparr>author_pool = vp, metrics = metrics a @ [TopPoolSizeDecrement]\<rparr>))
            (remove_invalid (author_api env) [h] shard inblock (author_pool a)))"

fun remove_calls_from_pool ::
  "('t, 'g, 's, 'key) author_env \<Rightarrow> shard_identifier \<Rightarrow> (('t, 'g) trusted_operation_or_hash \<times> bool) list \<Rightarrow> ('t, 'g, 's) author
   \<Rightarrow> (('t, 'g) trusted_operation_or_hash list \<times> ('t, 'g, 's) author) option" where
  "remove_calls_from_pool env shard [] a = Some ([], a)"
| "remove_calls_from_pool env shard ((call, inblock) # calls) a =
     (case remove_top env call shard inblock a of
        None \<Rightarrow> None
      | Some (r, a') \<Rightarrow>
          map_option (\<lambda>(failed, a''). (if is_ok r then failed else call # failed, a'')) (remove_calls_from_pool env shard calls a'))"

definition pending_tops :: "('t, 'g, 's, 'key) author_env \<Rightarrow> shard_identifier \<Rightarrow> ('t, 'g, 's) author \<Rightarrow> bytes list option" where
  "pending_tops env shard a = map_option (map (encode_top env \<circ> op_data)) (validated_ready shard (author_pool a))"

definition get_pending_getters :: "shard_identifier \<Rightarrow> ('t, 'g, 's) author \<Rightarrow> ('t, 'g) trusted_operation list option" where
  "get_pending_getters shard a = map_option (filter getters_only_filter \<circ> map op_data) (validated_ready shard (author_pool a))"

definition get_pending_trusted_calls :: "shard_identifier \<Rightarrow> ('t, 'g, 's) author \<Rightarrow> ('t, 'g) trusted_operation list option" where
  "get_pending_trusted_calls shard a = map_option (filter calls_only_filter \<circ> map op_data) (validated_ready shard (author_pool a))"

definition get_pending_trusted_calls_for ::
  "('t, 'g, 's, 'key) author_env \<Rightarrow> shard_identifier \<Rightarrow> account_id \<Rightarrow> ('t, 'g, 's) author \<Rightarrow> ('t, 'g) trusted_operation list option" where
  "get_pending_trusted_calls_for env shard account a =
     map_option (filter (\<lambda>op. signed_caller_account (author_calls env) op = Some account)) (get_pending_trusted_calls shard a)"

definition get_status :: "shard_identifier \<Rightarrow> ('t, 'g, 's) author \<Rightarrow> pool_status option" where
  "get_status shard a = validated_status shard (author_pool a)"

definition get_shards :: "('t, 'g, 's) author \<Rightarrow> shard_identifier list option" where
  "get_shards a = validated_shards (author_pool a)"

definition list_handled_shards :: "('t, 'g, 's, 'key) author_env \<Rightarrow> shard_identifier list" where
  "list_handled_shards env = (case facade_list_shards env of Ok shards \<Rightarrow> shards | Err _ \<Rightarrow> [])"

definition author_on_block_imported :: "tx_hash list \<Rightarrow> h256 \<Rightarrow> ('t, 'g, 's) author \<Rightarrow> ('t, 'g, 's) author option" where
  "author_on_block_imported hs b a = map_option (\<lambda>vp. a\<lparr>author_pool := vp\<rparr>) (on_block_imported hs b (author_pool a))"

section \<open>The author keeps its calls in order\<close>

datatype ('t, 'g) author_command =
    SubmitTop bytes shard_identifier
  | WatchTop bytes shard_identifier
  | RemoveCalls shard_identifier "(('t, 'g) trusted_operation_or_hash \<times> bool) list"
  | BlockImported "tx_hash list" h256

fun author_step :: "('t, 'g, 's, 'key) author_env \<Rightarrow> ('t, 'g) author_command \<Rightarrow> ('t, 'g, 's) author \<Rightarrow> ('t, 'g, 's) author option" where
  "author_step env (SubmitTop ext shard) a = map_option snd (submit_top env ext shard a)"
| "author_step env (WatchTop ext shard) a = map_option snd (watch_top env ext shard a)"
| "author_step env (RemoveCalls shard calls) a = map_option snd (remove_calls_from_pool env shard calls a)"
| "author_step env (BlockImported hs b) a = author_on_block_imported hs b a"

fun run_author :: "('t, 'g, 's, 'key) author_env \<Rightarrow> ('t, 'g) author_command list \<Rightarrow> ('t, 'g, 's) author \<Rightarrow> ('t, 'g, 's) author option" where
  "run_author env [] a = Some a"
| "run_author env (c # cs) a = Option.bind (author_step env c a) (run_author env cs)"

text \<open>The hypotheses on the environment: the chain api is that of the sidechain, a HashMap is iterated in some order, and
  the filter lets only calls pass, as the filters of the sidechain and of the offchain worker do.\<close>

definition author_env_wf :: "('t, 'g, 's, 'key) author_env \<Rightarrow> bool" where
  "author_env_wf env \<longleftrightarrow>
     (\<exists>len clk send order. author_api env = sidechain_api (author_calls env) len clk send order \<and> (\<forall>m. mset (order m) = mset m))
     \<and> (\<forall>op. author_filter env op \<longrightarrow> calls_only_filter op)"

abbreviation CALL_PRIORITY :: u64 where
  "CALL_PRIORITY \<equiv> 2 ^ 20"

lemma calls_plain:
  assumes "author_env_wf env"
  shows "plain_api CALL_PRIORITY 64 (Collect calls_only_filter) (author_api env)"
proof -
  obtain len clk send order where api: "author_api env = sidechain_api (author_calls env) len clk send order" "\<forall>m. mset (order m) = mset m"
    using assms by (auto simp: author_env_wf_def)
  have "\<exists>v. validate_operation (author_calls env) xt = Ok v \<and> vt_requires v = [] \<and> vt_priority v = CALL_PRIORITY \<and> vt_longevity v = 64
      \<and> vt_provides v \<noteq> [] \<and> distinct (vt_provides v)" if "calls_only_filter xt" for xt
    using that by (cases xt) (simp_all add: validate_trusted_call_def)
  then show ?thesis using api by (simp add: plain_api_def sidechain_api_def)
qed

text \<open>A call in the pool occupies the slot of its sender and nonce.\<close>

fun call_slot :: "('t, 'g) call_env \<Rightarrow> ('t, 'g) trusted_operation \<Rightarrow> (account_id \<times> nonce) option" where
  "call_slot calls op = map_option (\<lambda>c. (sender_account calls c, call_nonce calls c)) (to_call op)"

definition call_entry :: "('t, 'g) call_env \<Rightarrow> ('t, 'g) trusted_operation pool_operation \<Rightarrow> bool" where
  "call_entry calls x \<longleftrightarrow> calls_only_filter (op_data x)
     \<and> (\<exists>slot. call_slot calls (op_data x) = Some slot \<and> op_provides x = [encode_account_nonce calls slot])"

lemma operation_of_entry:
  assumes "author_env_wf env" "calls_only_filter op"
  shows "call_entry (author_calls env) (operation_of (author_api env) source op shard)"
proof -
  obtain len clk send order where "author_api env = sidechain_api (author_calls env) len clk send order"
    using assms(1) by (auto simp: author_env_wf_def)
  then show ?thesis
    using assms(2) by (cases op) (simp_all add: call_entry_def operation_of_def sidechain_api_def validate_trusted_call_def)
qed

definition author_inv :: "('t, 'g, 's, 'key) author_env \<Rightarrow> pool_options \<Rightarrow> nat \<Rightarrow> ('t, 'g, 's) author \<Rightarrow> bool" where
  "author_inv env opts n a \<longleftrightarrow> fifo_validated CALL_PRIORITY 64 n (author_pool a) \<and> options (author_pool a) = opts
     \<and> (\<forall>shard. \<forall>x\<in>set (pool_pending shard (author_pool a)). call_entry (author_calls env) x)"

lemma author_invD:
  assumes "author_inv env opts n a"
  shows "fifo_validated CALL_PRIORITY 64 n (author_pool a)" "options (author_pool a) = opts"
    "x \<in> set (pool_pending shard (author_pool a)) \<Longrightarrow> call_entry (author_calls env) x"
    "validated_ready shard (author_pool a) = Some (pool_pending shard (author_pool a))"
  using assms validated_ready_fifo [of CALL_PRIORITY 64 n "author_pool a"] by (auto simp: author_inv_def)

lemma author_inv_mono: "author_inv env opts n a \<Longrightarrow> n \<le> m \<Longrightarrow> author_inv env opts m a"
  by (auto simp: author_inv_def intro: fifo_validated_mono)

lemma author_inv_new: "author_inv env opts 0 (author_new opts)"
  by (simp add: author_inv_def author_new_def fifo_validated_new) (simp add: validated_new_def fifo_pool_new)

lemma fifo_submit_subset: "set (fifo_submit l op xs) \<subseteq> insert op (set xs)"
proof -
  have "set (snd (drop_exceeding l (xs @ [op]))) \<subseteq> set (fst (drop_exceeding l (xs @ [op])) @ snd (drop_exceeding l (xs @ [op])))" by simp
  then show ?thesis by (auto simp: fifo_submit_def drop_exceeding_append)
qed

text \<open>The operation a request adds to the pool, unless the pool has one for its hash or slot.\<close>

definition requested ::
  "('t, 'g, 's, 'key) author_env \<Rightarrow> bytes \<Rightarrow> shard_identifier \<Rightarrow> ('t, 'g, 's) author \<Rightarrow> ('t, 'g) trusted_operation pool_operation option" where
  "requested env ext shard a =
     (case receive_top env ext shard of
        Err _ \<Rightarrow> None
      | Ok op \<Rightarrow> if pool_is_banned (hash_of (author_api env) op) (author_pool a) then None
                 else Some (operation_of (author_api env) TX_SOURCE op shard))"

definition queue_after ::
  "limit \<Rightarrow> ('t, 'g) trusted_operation pool_operation option \<Rightarrow> ('t, 'g) trusted_operation pool_operation list
   \<Rightarrow> ('t, 'g) trusted_operation pool_operation list" where
  "queue_after l request xs = (case request of None \<Rightarrow> xs | Some op \<Rightarrow> fifo_submit l op xs)"

lemma process_top_fifo:
  assumes "author_env_wf env" "author_inv env opts n a" "n < 2 ^ 64 - 1"
  obtains r a' where "process_top env ext shard mode a = Some (r, a')" "author_inv env opts (Suc n) a'"
    "pool_pending shard (author_pool a') = queue_after (ready_limit opts) (requested env ext shard a) (pool_pending shard (author_pool a))"
    "\<And>k. k \<noteq> shard \<Longrightarrow> pool_pending k (author_pool a') = pool_pending k (author_pool a)"
    "\<And>h. r = Ok h \<longleftrightarrow> (\<exists>op. requested env ext shard a = Some op \<and> h = op_hash op \<and> \<not> conflicts op (pool_pending shard (author_pool a))
        \<and> op \<in> set (pool_pending shard (author_pool a')))"
proof (cases "receive_top env ext shard")
  case (Err e)
  then have "process_top env ext shard mode a = Some (Err (client_error_code e), a)" "requested env ext shard a = None"
    by (simp_all add: process_top_def requested_def)
  then show ?thesis
    using author_inv_mono [OF assms(2), of "Suc n"] by (intro that [of "Err (client_error_code e)" a]) (simp_all add: queue_after_def)
next
  case (Ok top)
  let ?api = "author_api env" and ?vp = "author_pool a"
  let ?op = "operation_of ?api TX_SOURCE top shard"
  have call: "calls_only_filter top"
    using Ok assms(1) by (auto simp: receive_top_def author_env_wf_def split: result.splits bool.splits option.splits if_splits)
  note P = calls_plain [OF assms(1)]
  have hash: "op_hash ?op = hash_of ?api top"
    using verify_one_fifo(2) [OF P _ author_invD(1) [OF assms(2)]] call by blast
  obtain r vp' where S: "process_top env ext shard mode a
      = Some (map_err (map_top_error ?api) r, \<lparr>author_pool = vp', metrics = metrics a @ [TopPoolSizeIncrement]\<rparr>)"
    "fifo_validated CALL_PRIORITY 64 (Suc n) vp'" "submit_outcome ?api ?op shard ?vp r vp'"
    using pool_submit_fifo [OF P _ author_invD(1) [OF assms(2)] assms(3), of top TX_SOURCE shard] call Ok
    by (cases mode) (auto simp: process_top_def Let_def)
  let ?a = "\<lparr>author_pool = vp', metrics = metrics a @ [TopPoolSizeIncrement]\<rparr>"
  have out: "options vp' = opts" "\<And>k. k \<noteq> shard \<Longrightarrow> pool_pending k vp' = pool_pending k ?vp"
    "pool_pending shard vp' = queue_after (ready_limit opts) (requested env ext shard a) (pool_pending shard ?vp)"
    "r = Ok (op_hash ?op) \<longleftrightarrow> \<not> pool_is_banned (op_hash ?op) ?vp \<and> \<not> conflicts ?op (pool_pending shard ?vp) \<and> ?op \<in> set (pool_pending shard vp')"
    "is_ok r \<Longrightarrow> r = Ok (op_hash ?op)"
    using S(3) author_invD(2) [OF assms(2)] Ok hash by (simp_all add: submit_outcome_def requested_def queue_after_def)
  have "set (pool_pending k vp') \<subseteq> insert ?op (set (pool_pending k ?vp))" for k
    using out(2) [of k] out(3) fifo_submit_subset Ok by (cases "k = shard") (auto simp: queue_after_def requested_def split: if_splits)
  then have "call_entry (author_calls env) x" if "x \<in> set (pool_pending k vp')" for x k
    using that operation_of_entry [OF assms(1) call, of TX_SOURCE shard] author_invD(3) [OF assms(2), of x k] by blast
  then have "author_inv env opts (Suc n) ?a" using S(2) out(1) by (simp add: author_inv_def)
  moreover have "map_err (map_top_error ?api) r = Ok h \<longleftrightarrow> (\<exists>op. requested env ext shard a = Some op \<and> h = op_hash op
      \<and> \<not> conflicts op (pool_pending shard ?vp) \<and> op \<in> set (pool_pending shard vp'))" for h
    using out(4,5) Ok hash by (cases r) (auto simp: requested_def)
  ultimately show ?thesis using S(1) out(2,3) by (intro that [of "map_err (map_top_error ?api) r" ?a]) simp_all
qed

lemma remove_top_fifo:
  assumes "author_inv env opts n a"
  obtains r a' where "remove_top env call shard inblock a = Some (r, a')" "author_inv env opts n a'"
    "\<And>h. removed_hash env call = Ok h \<Longrightarrow> pool_pending shard (author_pool a') = fifo_remove h (pool_pending shard (author_pool a))"
    "\<And>k. k \<noteq> shard \<Longrightarrow> pool_pending k (author_pool a') = pool_pending k (author_pool a)"
proof (cases "removed_hash env call")
  case (Err e)
  then show ?thesis using assms by (intro that [of "Err e" a]) (simp_all add: remove_top_def)
next
  case (Ok h)
  obtain vp' where vp': "remove_invalid (author_api env) [h] shard inblock (author_pool a)
      = Some (filter (\<lambda>x. op_hash x = h) (pool_pending shard (author_pool a)), vp')"
    "fifo_validated CALL_PRIORITY 64 n vp'" "options vp' = options (author_pool a)"
    "pool_pending shard vp' = fifo_remove h (pool_pending shard (author_pool a))"
    "\<And>k. k \<noteq> shard \<Longrightarrow> pool_pending k vp' = pool_pending k (author_pool a)"
    using remove_invalid_fifo [OF author_invD(1) [OF assms], of "author_api env" h shard inblock] by blast
  have sub: "set (pool_pending k vp') \<subseteq> set (pool_pending k (author_pool a))" for k
    using vp'(4) vp'(5) [of k] by (cases "k = shard") (auto simp: fifo_remove_def)
  let ?a = "\<lparr>author_pool = vp', metrics = metrics a @ [TopPoolSizeDecrement]\<rparr>"
  have "call_entry (author_calls env) x" if "x \<in> set (pool_pending k vp')" for x k
    using that sub [of k] author_invD(3) [OF assms, of x k] by blast
  then have inv: "author_inv env opts n ?a" using vp'(2,3) author_invD(2) [OF assms] by (simp add: author_inv_def)
  obtain r where "remove_top env call shard inblock a = Some (r, ?a)" using Ok vp'(1) by (simp add: remove_top_def)
  with inv vp'(4,5) Ok show ?thesis by (intro that [of r ?a]) simp_all
qed

lemma remove_calls_inv:
  assumes "author_inv env opts n a"
  shows "\<exists>failed a'. remove_calls_from_pool env shard calls a = Some (failed, a') \<and> author_inv env opts n a'"
  using assms
proof (induction calls arbitrary: a)
  case (Cons call calls)
  obtain c inblock where call: "call = (c, inblock)" by fastforce
  obtain r a1 where a1: "remove_top env c shard inblock a = Some (r, a1)" "author_inv env opts n a1"
    by (rule remove_top_fifo [OF Cons.prems])
  obtain failed a' where "remove_calls_from_pool env shard calls a1 = Some (failed, a')" "author_inv env opts n a'"
    using Cons.IH [OF a1(2)] by blast
  with call a1 show ?case by simp
qed simp

lemma author_step_inv:
  assumes "author_env_wf env" "author_inv env opts n a" "n < 2 ^ 64 - 1"
  shows "\<exists>a'. author_step env c a = Some a' \<and> author_inv env opts (Suc n) a'"
proof (cases c)
  case (SubmitTop ext shard)
  obtain r a' where "process_top env ext shard Submit a = Some (r, a')" "author_inv env opts (Suc n) a'"
    by (rule process_top_fifo [OF assms])
  with SubmitTop show ?thesis by (simp add: submit_top_def)
next
  case (WatchTop ext shard)
  obtain r a' where "process_top env ext shard SubmitWatch a = Some (r, a')" "author_inv env opts (Suc n) a'"
    by (rule process_top_fifo [OF assms])
  with WatchTop show ?thesis by (simp add: watch_top_def)
next
  case (RemoveCalls shard calls)
  then show ?thesis using remove_calls_inv [OF author_inv_mono [OF assms(2), of "Suc n"], of shard calls] by auto
next
  case (BlockImported hs b)
  have inv: "author_inv env opts (Suc n) (a\<lparr>author_pool := author_pool a\<lparr>pool_listener := l\<rparr>\<rparr>)" for l
    using author_inv_mono [OF assms(2), of "Suc n"] by (simp add: author_inv_def)
  have "\<not> listener_poisoned (author_pool a)" using author_invD(1) [OF assms(2)] by (simp add: fifo_validated_def)
  then show ?thesis using BlockImported inv inv [of "pool_listener (author_pool a)"]
    by (simp add: author_on_block_imported_def on_block_imported_def on_listener_def)
qed

lemma run_author_inv:
  assumes "author_env_wf env" "author_inv env opts n a" "n + length cs \<le> 2 ^ 64 - 1"
  shows "\<exists>a'. run_author env cs a = Some a' \<and> author_inv env opts (n + length cs) a'"
  using assms(2,3)
proof (induction cs arbitrary: n a)
  case (Cons c cs)
  obtain a1 where a1: "author_step env c a = Some a1" "author_inv env opts (Suc n) a1"
    using author_step_inv [OF assms(1) Cons.prems(1), of c] Cons.prems(2) by auto
  from Cons.IH [OF a1(2)] Cons.prems(2) a1(1) show ?case by simp
qed simp

lemma call_slots_distinct:
  assumes "author_inv env opts n a"
  shows "distinct (map (call_slot (author_calls env) \<circ> op_data) (pool_pending shard (author_pool a)))"
proof -
  let ?calls = "author_calls env" and ?xs = "pool_pending shard (author_pool a)"
  have p: "fifo_pool CALL_PRIORITY 64 n (base (author_pool a))" using author_invD(1) [OF assms] by (simp add: fifo_validated_def)
  have "x = y" if xy: "x \<in> set ?xs" "y \<in> set ?xs" "call_slot ?calls (op_data x) = call_slot ?calls (op_data y)" for x y
  proof -
    obtain slot where "op_provides x = [encode_account_nonce ?calls slot]" "op_provides y = [encode_account_nonce ?calls slot]"
      using author_invD(3) [OF assms xy(1)] author_invD(3) [OF assms xy(2)] xy(3) by (auto simp: call_entry_def)
    then show ?thesis using pending_tags_disjoint [OF p xy(1,2)] by auto
  qed
  then have "inj_on (call_slot ?calls \<circ> op_data) (set ?xs)" by (auto intro!: inj_onI)
  moreover have "distinct ?xs" using pending_distinct [OF p, of shard] by (simp add: distinct_map)
  ultimately show ?thesis by (simp only: distinct_map)
qed

section \<open>Properties\<close>

text \<open>C9: The author is a first-in first-out queue of calls per shard: after any sequence of requests, removals and
  block imports, one more request ends without a panic, and the operations ready for the next block are those from
  before followed by the new one, if it is not banned and no pending operation has its hash or its slot of sender and
  nonce, minus the oldest operations beyond the limit. The request succeeds exactly when its operation is then in the queue.
  The number of requests must stay below 2 ^ 64, since insertion ids wrap around.\<close>
theorem author_submit_fifo:
  assumes "author_env_wf env" "run_author env cs (author_new opts) = Some a" "length cs < 2 ^ 64 - 1"
  shows "\<exists>queue r a'. (\<forall>k. validated_ready k (author_pool a) = Some (queue k)) \<and> process_top env ext shard mode a = Some (r, a')
    \<and> (\<forall>k. validated_ready k (author_pool a')
         = Some (if k = shard then queue_after (ready_limit opts) (requested env ext shard a) (queue k) else queue k))
    \<and> (\<forall>h. r = Ok h \<longleftrightarrow> (\<exists>op. requested env ext shard a = Some op \<and> h = op_hash op \<and> \<not> conflicts op (queue shard)
         \<and> op \<in> set (queue_after (ready_limit opts) (Some op) (queue shard))))"
proof -
  have inv: "author_inv env opts (length cs) a"
    using run_author_inv [OF assms(1) author_inv_new, of cs opts] assms(2,3) by simp
  obtain r a' where P: "process_top env ext shard mode a = Some (r, a')" "author_inv env opts (Suc (length cs)) a'"
    "pool_pending shard (author_pool a') = queue_after (ready_limit opts) (requested env ext shard a) (pool_pending shard (author_pool a))"
    "\<And>k. k \<noteq> shard \<Longrightarrow> pool_pending k (author_pool a') = pool_pending k (author_pool a)"
    "\<And>h. r = Ok h \<longleftrightarrow> (\<exists>op. requested env ext shard a = Some op \<and> h = op_hash op \<and> \<not> conflicts op (pool_pending shard (author_pool a))
        \<and> op \<in> set (pool_pending shard (author_pool a')))"
    using process_top_fifo [OF assms(1) inv assms(3), of ext shard mode] by blast
  show ?thesis
  proof (intro exI conjI)
    show "\<forall>k. validated_ready k (author_pool a) = Some (pool_pending k (author_pool a))" using author_invD(4) [OF inv] by simp
    show "process_top env ext shard mode a = Some (r, a')" by (rule P(1))
    show "\<forall>k. validated_ready k (author_pool a') = Some (if k = shard
        then queue_after (ready_limit opts) (requested env ext shard a) (pool_pending k (author_pool a)) else pool_pending k (author_pool a))"
      using author_invD(4) [OF P(2)] P(3,4) by simp
    show "\<forall>h. r = Ok h \<longleftrightarrow> (\<exists>op. requested env ext shard a = Some op \<and> h = op_hash op \<and> \<not> conflicts op (pool_pending shard (author_pool a))
         \<and> op \<in> set (queue_after (ready_limit opts) (Some op) (pool_pending shard (author_pool a))))"
      unfolding P(5) P(3) by auto
  qed
qed

definition example_calls :: "(account_id \<times> nonce, unit) call_env" where
  "example_calls =
     \<lparr>sender_account = fst, call_nonce = snd, call_verify_signature = (\<lambda>_ _ _. True),
      encode_account_nonce = (\<lambda>(a, n). [ucast a, ucast n]),
      top_hash = (\<lambda>op. case to_call op of Some (a, n) \<Rightarrow> 256 * a + ucast n | None \<Rightarrow> 0),
      getter_validate = (\<lambda>_. Err UnknownTransaction)\<rparr>"

definition example_author :: "(account_id \<times> nonce, unit, unit, unit) author_env" where
  "example_author =
     \<lparr>author_calls = example_calls,
      author_api = sidechain_api example_calls (\<lambda>_. 2) (\<lambda>i. i) (\<lambda>_ _. (Sent, ())) id,
      author_filter = calls_only_filter, facade_shard_exists = (\<lambda>_. Ok True), facade_list_shards = Ok [7],
      retrieve_shielding_key = Ok (), shielding_decrypt = (\<lambda>_ bs. Ok bs),
      decode_top = (\<lambda>bs. case bs of [a, n] \<Rightarrow> Some (DirectCall (ucast a, ucast n)) | _ \<Rightarrow> None),
      encode_top = (\<lambda>op. case to_call op of Some (a, n) \<Rightarrow> [ucast a, ucast n] | None \<Rightarrow> [])\<rparr>"

lemma example_author_wf: "author_env_wf example_author"
  unfolding author_env_wf_def example_author_def by force

theorem author_submit_fifo_witness:
  "\<exists>a queue r a'. run_author example_author [SubmitTop [1, 0] 7, SubmitTop [1, 1] 7] (author_new options_default) = Some a
    \<and> process_top example_author [2, 0] 7 Submit a = Some (r, a')
    \<and> validated_ready 7 (author_pool a')
        = Some (queue_after (ready_limit options_default) (requested example_author [2, 0] 7 a) queue)"
proof -
  let ?cs = "[SubmitTop [1, 0] 7, SubmitTop [1, 1] 7]"
  obtain a where a: "run_author example_author ?cs (author_new options_default) = Some a"
    using run_author_inv [OF example_author_wf author_inv_new, of ?cs options_default] by auto
  have "length ?cs < 2 ^ 64 - 1" by simp
  from author_submit_fifo [OF example_author_wf a this, of "[2, 0]" 7 Submit] obtain queue r a' where
    "process_top example_author [2, 0] 7 Submit a = Some (r, a')"
    "\<forall>k. validated_ready k (author_pool a')
         = Some (if k = 7 then queue_after (ready_limit options_default) (requested example_author [2, 0] 7 a) (queue k) else queue k)"
    by blast
  with a show ?thesis by (intro exI [of _ a] exI [of _ "queue 7"] exI [of _ r] exI [of _ a']) simp
qed

text \<open>C10: At any time the pending trusted calls of a shard are exactly the operations the pool holds ready, each
  for another pair of sender and nonce.\<close>
theorem pending_calls_one_per_slot:
  assumes "author_env_wf env" "length cs < 2 ^ 64"
  shows "\<exists>a. run_author env cs (author_new opts) = Some a
    \<and> (\<forall>shard. \<exists>calls. get_pending_trusted_calls shard a = Some calls \<and> get_pending_getters shard a = Some []
         \<and> distinct (map (call_slot (author_calls env)) calls) \<and> None \<notin> set (map (call_slot (author_calls env)) calls)
         \<and> map_option status_ready (get_status shard a) = Some (length calls))"
proof -
  obtain a where a: "run_author env cs (author_new opts) = Some a" "author_inv env opts (length cs) a"
    using run_author_inv [OF assms(1) author_inv_new, of cs opts] assms(2) by auto
  have "\<exists>calls. get_pending_trusted_calls shard a = Some calls \<and> get_pending_getters shard a = Some []
      \<and> distinct (map (call_slot (author_calls env)) calls) \<and> None \<notin> set (map (call_slot (author_calls env)) calls)
      \<and> map_option status_ready (get_status shard a) = Some (length calls)" for shard
  proof -
    let ?xs = "pool_pending shard (author_pool a)"
    have call: "calls_only_filter (op_data x) \<and> call_slot (author_calls env) (op_data x) \<noteq> None \<and> \<not> getters_only_filter (op_data x)"
      if "x \<in> set ?xs" for x
      using author_invD(3) [OF a(2) that] by (cases "op_data x") (auto simp: call_entry_def)
    have "get_pending_trusted_calls shard a = Some (map op_data ?xs)" "get_pending_getters shard a = Some []"
      using call author_invD(4) [OF a(2), of shard]
      by (auto simp: get_pending_trusted_calls_def get_pending_getters_def filter_empty_conv intro!: filter_True)
    moreover have "None \<notin> set (map (call_slot (author_calls env)) (map op_data ?xs))" using call by force
    moreover have "map_option status_ready (get_status shard a) = Some (length (map op_data ?xs))"
      using author_invD(1) [OF a(2)] ready_sizes_fifo(1) [OF fifo_poolD(2)]
      by (auto simp: get_status_def validated_status_def fifo_validated_def base_status_def)
    ultimately show ?thesis using call_slots_distinct [OF a(2), of shard] by (intro exI [of _ "map op_data ?xs"]) simp
  qed
  with a(1) show ?thesis by blast
qed

theorem pending_calls_one_per_slot_witness:
  "\<exists>a calls. run_author example_author [SubmitTop [1, 0] 7, WatchTop [1, 0] 7] (author_new options_default) = Some a
    \<and> get_pending_trusted_calls 7 a = Some calls \<and> distinct (map (call_slot example_calls) calls)"
proof -
  let ?cs = "[SubmitTop [1, 0] 7, WatchTop [1, 0] 7]"
  have "length ?cs < 2 ^ 64" by simp
  from pending_calls_one_per_slot [OF example_author_wf this, of options_default] obtain a calls where
    "run_author example_author ?cs (author_new options_default) = Some a" "get_pending_trusted_calls 7 a = Some calls"
    "distinct (map (call_slot (author_calls example_author)) calls)"
    by blast
  moreover have "author_calls example_author = example_calls" by (simp add: example_author_def)
  ultimately show ?thesis by metis
qed

end
