(* ===== verification/Rpc_Responder.thy ===== *)
theory Rpc_Responder
  imports Top_Listener
begin

text \<open>
  Status updates to RPC clients (core/direct-rpc-server with the hex helpers of core-primitives/utils and the messages of
  core-primitives/rpc): the registry of connections, the responder that the watchers of the pool report to, and the
  handler that registers a connection for a response which asks for it.

  SCALE, the hex crate, serde_json and the io handler are functions of \<open>rpc_env\<close>; \<open>respond\<close> says whether the channel of a
  connection accepts a message. The messages it accepted are kept in order.
\<close>

section \<open>Messages\<close>

datatype direct_request_status = RequestOk | RequestTopStatus operation_status | RequestError

record rpc_return_value =
  return_value :: bytes
  do_watch :: bool
  return_status :: direct_request_status

datatype rpc_id = IdNumber u32 | IdText string

record rpc_response =
  jsonrpc :: string
  response_result :: string
  response_id :: rpc_id

record 'c rpc_env =
  encode_return :: "rpc_return_value \<Rightarrow> bytes"
  decode_return :: "bytes \<Rightarrow> rpc_return_value option"
  encode_str :: "string \<Rightarrow> bytes"
  decode_hash :: "bytes \<Rightarrow> tx_hash option"
  hex_crate_encode :: "bytes \<Rightarrow> string"
  hex_crate_decode :: "string \<Rightarrow> bytes option"
  to_json :: "rpc_response \<Rightarrow> string option"
  from_json :: "string \<Rightarrow> rpc_response option"
  respond :: "'c \<Rightarrow> string \<Rightarrow> bool"
  handle_request_sync :: "string \<Rightarrow> string option"

definition hex_encode :: "'c rpc_env \<Rightarrow> bytes \<Rightarrow> string" where
  "hex_encode env bs = ''0x'' @ hex_crate_encode env bs"

definition decode_hex :: "'c rpc_env \<Rightarrow> string \<Rightarrow> bytes option" where
  "decode_hex env message =
     hex_crate_decode env (if take 2 message = ''0x'' then drop 2 message else message)"

definition return_to_hex :: "'c rpc_env \<Rightarrow> rpc_return_value \<Rightarrow> string" where
  "return_to_hex env v = hex_encode env (encode_return env v)"

definition return_from_hex :: "'c rpc_env \<Rightarrow> string \<Rightarrow> rpc_return_value option" where
  "return_from_hex env s = Option.bind (decode_hex env s) (decode_return env)"

definition from_error_message :: "'c rpc_env \<Rightarrow> string \<Rightarrow> rpc_return_value" where
  "from_error_message env msg = \<lparr>return_value = encode_str env msg, do_watch = False, return_status = RequestError\<rparr>"

section \<open>Registry and responder\<close>

datatype direct_rpc_error = InvalidConnectionHash | SerializationError | WebSocketFailure | EncodingError | OtherRpcError

type_synonym 'c registry = "(tx_hash, 'c \<times> rpc_response) hmap"

record 'c responder =
  connection_registry :: "'c registry"
  responses :: "('c \<times> string) list"

definition registry_store :: "tx_hash \<Rightarrow> 'c \<Rightarrow> rpc_response \<Rightarrow> 'c responder \<Rightarrow> 'c responder" where
  "registry_store h c resp rr = rr\<lparr>connection_registry := hput h (c, resp) (connection_registry rr)\<rparr>"

definition registry_withdraw :: "tx_hash \<Rightarrow> 'c responder \<Rightarrow> ('c \<times> rpc_response) option \<times> 'c responder" where
  "registry_withdraw h rr =
     (hget (connection_registry rr) h, rr\<lparr>connection_registry := hdel h (connection_registry rr)\<rparr>)"

definition encode_and_send_response ::
  "'c rpc_env \<Rightarrow> 'c \<Rightarrow> rpc_response \<Rightarrow> 'c responder \<Rightarrow> (direct_rpc_error, unit) result \<times> 'c responder" where
  "encode_and_send_response env c resp rr =
     (case to_json env resp of
        None \<Rightarrow> (Err SerializationError, rr)
      | Some msg \<Rightarrow>
          if respond env c msg then (Ok (), rr\<lparr>responses := responses rr @ [(c, msg)]\<rparr>) else (Err WebSocketFailure, rr))"

fun continue_watching :: "operation_status \<Rightarrow> bool" where
  "continue_watching StInvalid = False"
| "continue_watching (StInSidechainBlock _) = False"
| "continue_watching StFinalized = False"
| "continue_watching StUsurped = False"
| "continue_watching _ = True"

definition status_response :: "'c rpc_env \<Rightarrow> operation_status \<Rightarrow> rpc_response \<Rightarrow> rpc_return_value \<Rightarrow> rpc_response" where
  "status_response env st resp v =
     resp\<lparr>response_result := return_to_hex env (v\<lparr>do_watch := continue_watching st, return_status := RequestTopStatus st\<rparr>)\<rparr>"

definition update_status_event ::
  "'c rpc_env \<Rightarrow> tx_hash \<Rightarrow> operation_status \<Rightarrow> 'c responder \<Rightarrow> (direct_rpc_error, unit) result \<times> 'c responder" where
  "update_status_event env h st rr =
     (case registry_withdraw h rr of
        (None, rr') \<Rightarrow> (Err InvalidConnectionHash, rr')
      | (Some (c, resp), rr') \<Rightarrow>
          (case return_from_hex env (response_result resp) of
             None \<Rightarrow> (Err OtherRpcError, rr')
           | Some v \<Rightarrow>
               (let new_response = status_response env st resp v
                in case encode_and_send_response env c new_response rr' of
                     (Err e, rr'') \<Rightarrow> (Err e, rr'')
                   | (Ok _, rr'') \<Rightarrow>
                       (Ok (), if continue_watching st then registry_store h c new_response rr'' else rr''))))"

definition send_state ::
  "'c rpc_env \<Rightarrow> tx_hash \<Rightarrow> bytes \<Rightarrow> 'c responder \<Rightarrow> (direct_rpc_error, unit) result \<times> 'c responder" where
  "send_state env h state_encoded rr =
     (case registry_withdraw h rr of
        (None, rr') \<Rightarrow> (Err InvalidConnectionHash, rr')
      | (Some (c, resp), rr') \<Rightarrow>
          encode_and_send_response env c
            (resp\<lparr>response_result := return_to_hex env
               \<lparr>return_value = state_encoded, do_watch = False, return_status = RequestTopStatus StSubmitted\<rparr>\<rparr>) rr')"

section \<open>Requests\<close>

definition must_be_watched :: "'c rpc_env \<Rightarrow> rpc_response \<Rightarrow> (direct_rpc_error, tx_hash option) result" where
  "must_be_watched env resp =
     (case return_from_hex env (response_result resp) of
        None \<Rightarrow> Err OtherRpcError
      | Some v \<Rightarrow>
          if \<not> do_watch v then Ok None
          else (case return_status v of
                  RequestTopStatus _ \<Rightarrow>
                    (case decode_hash env (return_value v) of Some h \<Rightarrow> Ok (Some h) | None \<Rightarrow> Err EncodingError)
                | _ \<Rightarrow> Ok None))"

definition handle_message :: "'c rpc_env \<Rightarrow> 'c \<Rightarrow> string \<Rightarrow> 'c responder \<Rightarrow> string option \<times> 'c responder" where
  "handle_message env c message rr =
     (let maybe_response = handle_request_sync env message
      in (maybe_response,
          case from_json env (case maybe_response of Some s \<Rightarrow> s | None \<Rightarrow> []) of
            None \<Rightarrow> rr
          | Some resp \<Rightarrow>
              (case must_be_watched env resp of
                 Ok (Some h) \<Rightarrow> registry_store h c resp rr
               | _ \<Rightarrow> rr)))"

section \<open>Delivery of the statuses of a watcher\<close>

definition deliver :: "'c rpc_env \<Rightarrow> status_event list \<Rightarrow> 'c responder \<Rightarrow> 'c responder" where
  "deliver env es rr = fold (\<lambda>(h, st) rr. snd (update_status_event env h st rr)) es rr"

text \<open>What the code relies on: SCALE and hex round trips and a serialisation that does not fail.\<close>

definition rpc_env_wf :: "'c rpc_env \<Rightarrow> bool" where
  "rpc_env_wf env \<longleftrightarrow> (\<forall>v. decode_return env (encode_return env v) = Some v)
     \<and> (\<forall>bs. hex_crate_decode env (hex_crate_encode env bs) = Some bs) \<and> (\<forall>resp. to_json env resp \<noteq> None)"

lemma decode_hex_encode: "rpc_env_wf env \<Longrightarrow> decode_hex env (hex_encode env bs) = Some bs"
  by (simp add: rpc_env_wf_def decode_hex_def hex_encode_def)

lemma return_from_to_hex: "rpc_env_wf env \<Longrightarrow> return_from_hex env (return_to_hex env v) = Some v"
  by (simp add: return_from_hex_def return_to_hex_def decode_hex_encode) (simp add: rpc_env_wf_def)

text \<open>The message that reports a status on a watched connection.\<close>

definition status_message :: "'c rpc_env \<Rightarrow> rpc_response \<Rightarrow> rpc_return_value \<Rightarrow> operation_status \<Rightarrow> string" where
  "status_message env resp v st = the (to_json env (status_response env st resp v))"

lemma update_status_watched:
  assumes "rpc_env_wf env" "hget (connection_registry rr) h = Some (c, resp)" "return_from_hex env (response_result resp) = Some v"
    and "respond env c (status_message env resp v st)"
  shows "update_status_event env h st rr = (Ok (), rr
    \<lparr>connection_registry := (if continue_watching st then hput h (c, status_response env st resp v) (hdel h (connection_registry rr))
        else hdel h (connection_registry rr)),
     responses := responses rr @ [(c, status_message env resp v st)]\<rparr>)"
proof -
  obtain msg where "to_json env (status_response env st resp v) = Some msg"
    using assms(1) unfolding rpc_env_wf_def by (meson not_None_eq)
  then show ?thesis
    using assms by (simp add: update_status_event_def registry_withdraw_def encode_and_send_response_def status_message_def
        registry_store_def Let_def)
qed

lemma status_response_again:
  "status_response env st' (status_response env st resp v) (v\<lparr>do_watch := b, return_status := s\<rparr>) = status_response env st' resp v"
  by (simp add: status_response_def)

text \<open>What a client is sent on its connection, and that the connection watches one operation only.\<close>

definition messages_on :: "'c \<Rightarrow> 'c responder \<Rightarrow> string list" where
  "messages_on c rr = map snd (filter (\<lambda>e. fst e = c) (responses rr))"

definition only_watches :: "'c \<Rightarrow> tx_hash \<Rightarrow> 'c responder \<Rightarrow> bool" where
  "only_watches c h rr \<longleftrightarrow> (\<forall>h' d. hget (connection_registry rr) h' = Some d \<longrightarrow> fst d = c \<longrightarrow> h' = h)"

definition reports_of :: "tx_hash \<Rightarrow> status_event list \<Rightarrow> operation_status list" where
  "reports_of h es = map snd (filter (\<lambda>e. fst e = h) es)"

lemma messages_on_simps [simp]:
  "messages_on c (rr\<lparr>connection_registry := m\<rparr>) = messages_on c rr"
  "messages_on c (rr\<lparr>responses := xs @ [(d, msg)]\<rparr>) = map snd (filter (\<lambda>e. fst e = c) xs) @ (if d = c then [msg] else [])"
  by (simp_all add: messages_on_def)

text \<open>A status of another operation leaves the connection of an operation alone.\<close>

lemma encode_and_send_frame:
  assumes "encode_and_send_response env d resp rr = (r, rr')"
  shows "connection_registry rr' = connection_registry rr" "d \<noteq> c \<Longrightarrow> messages_on c rr' = messages_on c rr"
  using assms by (auto simp: encode_and_send_response_def messages_on_def split: option.splits if_splits)

lemma only_watches_upd:
  "only_watches c h rr \<Longrightarrow> connection_registry rr' = hdel k (connection_registry rr) \<Longrightarrow> only_watches c h rr'"
  "only_watches c h rr \<Longrightarrow> connection_registry rr' = hput k (d, resp) (hdel k (connection_registry rr)) \<Longrightarrow> d = c \<longrightarrow> k = h
    \<Longrightarrow> only_watches c h rr'"
  unfolding only_watches_def by (simp_all split: if_splits)

lemma update_status_registry:
  assumes "update_status_event env k st rr = (r, rr')"
  obtains "connection_registry rr' = hdel k (connection_registry rr)"
  | d resp resp' where "hget (connection_registry rr) k = Some (d, resp)"
      "connection_registry rr' = hput k (d, resp') (hdel k (connection_registry rr))"
  using assms that by (auto simp: update_status_event_def registry_withdraw_def registry_store_def Let_def
      dest: encode_and_send_frame(1) split: option.splits prod.splits result.splits if_splits)

lemma update_status_only_watches:
  assumes "only_watches c h rr"
  shows "only_watches c h (snd (update_status_event env k st rr))"
proof -
  obtain r rr' where u: "update_status_event env k st rr = (r, rr')" by fastforce
  from u have "only_watches c h rr'"
  proof (cases rule: update_status_registry)
    case 1
    then show ?thesis by (rule only_watches_upd(1) [OF assms])
  next
    case (2 d resp resp')
    then show ?thesis using assms by (intro only_watches_upd(2) [OF assms 2(2)]) (auto simp: only_watches_def)
  qed
  then show ?thesis by (simp add: u)
qed

lemma update_status_other:
  assumes "only_watches c h rr" "k \<noteq> h"
  shows "hget (connection_registry (snd (update_status_event env k st rr))) h = hget (connection_registry rr) h"
    and "messages_on c (snd (update_status_event env k st rr)) = messages_on c rr"
proof -
  obtain r rr' where u: "update_status_event env k st rr = (r, rr')" by fastforce
  then show "hget (connection_registry (snd (update_status_event env k st rr))) h = hget (connection_registry rr) h"
    using assms(2) by (auto elim!: update_status_registry)
  have "d \<noteq> c" if "hget (connection_registry rr) k = Some (d, resp)" for d resp
    using assms that by (auto simp: only_watches_def)
  then show "messages_on c (snd (update_status_event env k st rr)) = messages_on c rr"
    by (auto simp: update_status_event_def registry_withdraw_def registry_store_def Let_def
        dest: encode_and_send_frame(2) split: option.splits prod.splits result.splits)
qed

lemma deliver_Cons: "deliver env ((k, st) # es) rr = deliver env es (snd (update_status_event env k st rr))"
  by (simp add: deliver_def)

lemma reports_of_simps [simp]:
  "reports_of h [] = []" "reports_of h ((k, st) # es) = (if k = h then st # reports_of h es else reports_of h es)"
  by (simp_all add: reports_of_def)

text \<open>
  While all statuses but the last keep the watch, the client hears them all, and loses its connection only by the last.
\<close>

lemma deliver_statuses:
  assumes "rpc_env_wf env" "\<And>msg. respond env c msg"
    and "hget (connection_registry rr) h = Some (c, resp)" "return_from_hex env (response_result resp) = Some v"
    and "only_watches c h rr" "\<forall>st\<in>set (butlast (reports_of h es)). continue_watching st"
  shows "messages_on c (deliver env es rr) = messages_on c rr @ map (status_message env resp v) (reports_of h es)
    \<and> (hget (connection_registry (deliver env es rr)) h = None \<longleftrightarrow> (\<exists>st\<in>set (reports_of h es). \<not> continue_watching st))"
  using assms(3-)
proof (induction es arbitrary: rr resp v)
  case Nil
  then show ?case by (simp add: deliver_def)
next
  case (Cons e es)
  obtain k st where e: "e = (k, st)" by fastforce
  let ?rr = "snd (update_status_event env k st rr)"
  have watches: "only_watches c h ?rr" using Cons.prems(3) by (rule update_status_only_watches)
  show ?case
  proof (cases "k = h")
    case False
    then show ?thesis
      using Cons.IH [of ?rr resp v] Cons.prems watches update_status_other [OF Cons.prems(3), of k env st] by (simp add: e deliver_Cons)
  next
    case [simp]: True
    note U = update_status_watched [OF assms(1) Cons.prems(1,2) assms(2), of st]
    show ?thesis
    proof (cases "continue_watching st")
      case True
      let ?v = "v\<lparr>do_watch := True, return_status := RequestTopStatus st\<rparr>" and ?r = "status_response env st resp v"
      have "return_from_hex env (response_result ?r) = Some ?v"
        using True by (simp add: status_response_def return_from_to_hex [OF assms(1)])
      moreover have "\<forall>st\<in>set (butlast (reports_of h es)). continue_watching st"
        using Cons.prems(4) by (auto simp: e split: if_splits)
      moreover have "hget (connection_registry ?rr) h = Some (c, ?r)" using U True by simp
      ultimately show ?thesis
        using Cons.IH [of ?rr ?r ?v] watches U True
        by (simp add: e deliver_Cons status_message_def status_response_again [abs_def] comp_def messages_on_def)
    next
      case False
      then have none: "reports_of h es = []" using Cons.prems(4) by (auto simp: e split: if_splits)
      then have "messages_on c (deliver env es rr') = messages_on c rr' \<and> hget (connection_registry (deliver env es rr')) h = None"
        if "only_watches c h rr'" "hget (connection_registry rr') h = None" for rr'
        using that
      proof (induction es arbitrary: rr')
        case (Cons e' es)
        obtain k' st' where e': "e' = (k', st')" by fastforce
        then have "k' \<noteq> h" "reports_of h es = []" using Cons.prems(1) by (auto split: if_splits)
        then show ?case
          using Cons.IH [of "snd (update_status_event env k' st' rr')"] Cons.prems
            update_status_other [OF Cons.prems(2), of k' env st'] update_status_only_watches [OF Cons.prems(2), of env k' st']
          by (simp add: e' deliver_Cons)
      qed (simp add: deliver_def)
      from this [OF watches] show ?thesis using U False none by (simp add: e deliver_Cons messages_on_def)
    qed
  qed
qed

lemma continue_if_not_terminal: "\<not> terminal st \<Longrightarrow> continue_watching st"
  by (cases st) simp_all

text \<open>C16: A client that watches an operation on a connection of its own is sent every status that the pool reports of the
  operation, in the order of the reports and through any sequence of notifications, whatever happens to the operations
  of other clients; and its connection is withdrawn only when the pool no longer watches the operation.
\<close>

theorem client_hears_all_statuses:
  assumes "notifies l l'" "listener_wf l" "sent l' = sent l @ es"
    and "rpc_env_wf env" "\<And>msg. respond env c msg"
    and "hget (connection_registry rr) h = Some (c, resp)" "return_from_hex env (response_result resp) = Some v"
    and "only_watches c h rr"
  shows "messages_on c (deliver env es rr) = messages_on c rr @ map (status_message env resp v) (reports_of h es)
    \<and> (hget (connection_registry (deliver env es rr)) h = None \<longrightarrow> hget (watchers l') h = None)"
proof -
  have wf: "reports_wf h l es l'" using notifies_reports [OF assms(1,2), of h] assms(3) by auto
  then have "\<forall>st\<in>set (butlast (reports_of h es)). continue_watching st"
    unfolding reports_wf_def reports_of_def using continue_if_not_terminal by blast
  note D = deliver_statuses [OF assms(4-8) this]
  moreover have "hget (watchers l') h = None" if final: "\<exists>st\<in>set (reports_of h es). \<not> continue_watching st"
  proof -
    from final obtain st where "(h, st) \<in> set es" "terminal st"
      using continue_if_not_terminal by (fastforce simp: reports_of_def)
    with wf show ?thesis unfolding reports_wf_def by blast
  qed
  ultimately show ?thesis by blast
qed

text \<open>A concrete environment for the witnesses: numbers in unary, bytes as characters, one connection that accepts all.\<close>

definition unary :: "nat \<Rightarrow> bytes" where
  "unary n = replicate n 1 @ [0]"

definition read_unary :: "bytes \<Rightarrow> nat \<times> bytes" where
  "read_unary bs = (length (takeWhile (\<lambda>b. b = 1) bs), tl (dropWhile (\<lambda>b. b = 1) bs))"

fun status_number :: "direct_request_status \<Rightarrow> nat" where
  "status_number RequestOk = 0"
| "status_number RequestError = 1"
| "status_number (RequestTopStatus StSubmitted) = 2"
| "status_number (RequestTopStatus StFuture) = 3"
| "status_number (RequestTopStatus StReady) = 4"
| "status_number (RequestTopStatus StBroadcast) = 5"
| "status_number (RequestTopStatus StRetracted) = 6"
| "status_number (RequestTopStatus StFinalityTimeout) = 7"
| "status_number (RequestTopStatus StFinalized) = 8"
| "status_number (RequestTopStatus StUsurped) = 9"
| "status_number (RequestTopStatus StDropped) = 10"
| "status_number (RequestTopStatus StInvalid) = 11"
| "status_number (RequestTopStatus (StInSidechainBlock b)) = 12 + unat b"

definition number_status :: "nat \<Rightarrow> direct_request_status" where
  "number_status n =
     (if n < 12 then [RequestOk, RequestError, RequestTopStatus StSubmitted, RequestTopStatus StFuture, RequestTopStatus StReady,
        RequestTopStatus StBroadcast, RequestTopStatus StRetracted, RequestTopStatus StFinalityTimeout,
        RequestTopStatus StFinalized, RequestTopStatus StUsurped, RequestTopStatus StDropped, RequestTopStatus StInvalid] ! n
      else RequestTopStatus (StInSidechainBlock (of_nat (n - 12))))"

definition sample_env :: "unit rpc_env" where
  "sample_env = \<lparr>
     encode_return = (\<lambda>v. unary (status_number (return_status v)) @ (if do_watch v then 1 else 0) # return_value v),
     decode_return = (\<lambda>bs. case read_unary bs of (n, b # rest) \<Rightarrow>
         Some \<lparr>return_value = rest, do_watch = (b = 1), return_status = number_status n\<rparr> | _ \<Rightarrow> None),
     encode_str = map of_char, decode_hash = (\<lambda>bs. Some (of_nat (length bs))),
     hex_crate_encode = map (\<lambda>b. char_of (unat b)), hex_crate_decode = (\<lambda>s. Some (map (\<lambda>c. of_nat (of_char c)) s)),
     to_json = (\<lambda>resp. Some (response_result resp)), from_json = (\<lambda>s. Some \<lparr>jsonrpc = [], response_result = s, response_id = IdNumber 0\<rparr>),
     respond = (\<lambda>_ _. True), handle_request_sync = Some\<rparr>"

lemma read_unary_append: "read_unary (unary n @ bs) = (n, bs)"
  by (simp add: read_unary_def unary_def takeWhile_append dropWhile_append)

lemma number_status_number: "number_status (status_number s) = s"
  by (cases s rule: status_number.cases) (simp_all add: number_status_def)

lemma sample_env_wf: "rpc_env_wf sample_env"
proof -
  have "unat (b :: u8) mod 256 = unat b" for b using unsigned_less [where ?'a = nat, of b] by simp
  then show ?thesis by (simp add: rpc_env_wf_def sample_env_def read_unary_append number_status_number comp_def)
qed

definition sample_return :: rpc_return_value where
  "sample_return = \<lparr>return_value = [7], do_watch = True, return_status = RequestTopStatus StSubmitted\<rparr>"

definition sample_response :: rpc_response where
  "sample_response = \<lparr>jsonrpc = [], response_result = return_to_hex sample_env sample_return, response_id = IdNumber 1\<rparr>"

definition sample_responder :: "unit responder" where
  "sample_responder = \<lparr>connection_registry = [(7, ((), sample_response))], responses = []\<rparr>"

definition sample_listener :: listener where
  "sample_listener = create_watcher 7 listener_new"

lemma sample_watch:
  "listener_wf sample_listener" "hget (connection_registry sample_responder) 7 = Some ((), sample_response)"
  "return_from_hex sample_env (response_result sample_response) = Some sample_return" "only_watches () 7 sample_responder"
  by (simp_all add: sample_listener_def create_watcher_wf sample_responder_def sample_response_def only_watches_def
      return_from_to_hex [OF sample_env_wf])

lemma sample_respond: "respond sample_env () msg"
  by (simp add: sample_env_def)

theorem client_hears_all_statuses_witness:
  "messages_on () (deliver sample_env [(7, StFuture), (7, StReady), (7, StInvalid)] sample_responder)
     = map (status_message sample_env sample_response sample_return) [StFuture, StReady, StInvalid]"
proof -
  let ?l = "listener_invalid 7 (listener_ready 7 None (listener_future 7 sample_listener))"
  have reports: "sent ?l = sent sample_listener @ [(7, StFuture), (7, StReady), (7, StInvalid)]" by code_simp
  have ops: "notifies sample_listener ?l" 
    by (rule notifies_trans [OF notifies_trans [OF notifies_ops(3,2)] notifies_ops(5)])
  have "messages_on () sample_responder = []" by (simp add: messages_on_def sample_responder_def)
  then show ?thesis
    using client_hears_all_statuses [OF ops sample_watch(1) reports sample_env_wf sample_respond sample_watch(2,3,4), THEN conjunct1]
    by simp
qed

text \<open>C37: An operation that the pool drops because of its limits: the client is told Dropped together with the flag to go on
  watching and its connection stays registered, but the pool has removed the watcher, so that no notification that
  follows reports the operation to it.
\<close>

theorem dropped_client_waits_forever:
  assumes "listener_wf l" "hget (watchers l) h = Some w"
    and "rpc_env_wf env" "\<And>msg. respond env c msg"
    and "hget (connection_registry rr) h = Some (c, resp)" "return_from_hex env (response_result resp) = Some v"
  shows "\<exists>rr' resp'. update_status_event env h StDropped rr = (Ok (), rr')
    \<and> sent (listener_dropped h None l) = sent l @ [(h, StDropped)]
    \<and> hget (connection_registry rr') h = Some (c, resp')
    \<and> return_from_hex env (response_result resp') = Some (v\<lparr>do_watch := True, return_status := RequestTopStatus StDropped\<rparr>)
    \<and> (\<forall>l'. notifies (listener_dropped h None l) l' \<longrightarrow>
          (\<exists>es. sent l' = sent (listener_dropped h None l) @ es \<and> reports_of h es = []))"
proof -
  let ?l = "listener_dropped h None l"
  have w: "watcher_hash w = h" using assms(1,2) unfolding listener_wf_def by blast
  then have drop: "sent ?l = sent l @ [(h, StDropped)]" "hget (watchers ?l) h = None"
    using assms(2) by (simp_all add: listener_dropped_def fire_def watcher_dropped_def is_done_def)
  have wf: "listener_wf ?l" using notifies_ops(4) assms(1) by (rule notifies_wf)
  have "\<exists>es. sent l' = sent ?l @ es \<and> reports_of h es = []" if "notifies ?l l'" for l'
    using notifies_reports [OF that wf, of h] drop(2) unfolding reports_wf_def reports_of_def by auto
  moreover note update_status_watched [OF assms(3,5,6,4), of StDropped]
  moreover have "return_from_hex env (response_result (status_response env StDropped resp v))
      = Some (v\<lparr>do_watch := True, return_status := RequestTopStatus StDropped\<rparr>)"
    by (simp add: status_response_def return_from_to_hex [OF assms(3)])
  ultimately show ?thesis using drop(1) by simp
qed

theorem dropped_client_waits_forever_witness:
  "\<exists>rr' resp'. update_status_event sample_env 7 StDropped sample_responder = (Ok (), rr')
    \<and> sent (listener_dropped 7 None sample_listener) = sent sample_listener @ [(7, StDropped)]
    \<and> hget (connection_registry rr') 7 = Some ((), resp')
    \<and> return_from_hex sample_env (response_result resp') = Some (sample_return\<lparr>do_watch := True, return_status := RequestTopStatus StDropped\<rparr>)"
proof -
  have "hget (watchers sample_listener) 7 = Some (new_watcher 7)" by (simp add: sample_listener_def create_watcher_def)
  from dropped_client_waits_forever [OF sample_watch(1) this sample_env_wf sample_respond sample_watch(2,3)] show ?thesis by blast
qed

end
