(* ===== verification/Fork_Tree.thy ===== *)
theory Fork_Tree
  imports Worker_Prelude
begin

text \<open>
  The tree of forks (sidechain/fork-tree): nodes in several branches, searched depth first with an ancestry test given by the
  client. Loops over a stack or a queue of nodes are kept as such, with the top of a stack at the head of its list; the
  index usize::MAX that marks a root in the queues of \<open>map\<close> and \<open>drain_filter\<close> is \<^term>\<open>None\<close>. In-place changes through
  disjoint mutable references (\<open>rebalance\<close>) are a recursion over the tree. The ancestry test may fail.
\<close>

section \<open>Nodes\<close>

datatype 'e fork_error = Duplicate | UnfinalizedAncestor | Revert | ClientError 'e

datatype 'v finalization_result = Changed "'v option" | Unchanged

datatype filter_action = RemoveNode | KeepNode | KeepTree

datatype ('h, 'n, 'v) fork_node =
  ForkNode (fork_hash: 'h) (fork_number: 'n) (fork_data: 'v) (fork_children: "('h, 'n, 'v) fork_node list")

record ('h, 'n, 'v) fork_tree =
  fork_roots :: "('h, 'n, 'v) fork_node list"
  best_finalized_number :: "'n option"

definition fork_tree_new :: "('h, 'n, 'v) fork_tree" where
  "fork_tree_new = \<lparr>fork_roots = [], best_finalized_number = None\<rparr>"

text \<open>All nodes of a tree, parents first.\<close>

fun tree_nodes :: "('h, 'n, 'v) fork_node \<Rightarrow> ('h, 'n, 'v) fork_node list" where
  "tree_nodes (ForkNode h n v cs) = ForkNode h n v cs # concat (map tree_nodes cs)"

definition forest_nodes :: "('h, 'n, 'v) fork_node list \<Rightarrow> ('h, 'n, 'v) fork_node list" where
  "forest_nodes ts = concat (map tree_nodes ts)"

lemma forest_nodes_simps [simp]:
  "forest_nodes [] = []" "forest_nodes (t # ts) = tree_nodes t @ forest_nodes ts"
  "forest_nodes (ts @ us) = forest_nodes ts @ forest_nodes us"
  by (simp_all add: forest_nodes_def)

lemma tree_nodes_unfold: "tree_nodes t = t # forest_nodes (fork_children t)"
  by (cases t) (simp add: forest_nodes_def)

lemma length_forest_nodes_rev [simp]: "length (forest_nodes (rev ts)) = length (forest_nodes ts)"
  by (induction ts) simp_all

section \<open>Depth and balance\<close>

function depth_loop :: "nat \<Rightarrow> (('h, 'n, 'v) fork_node \<times> nat) list \<Rightarrow> nat" where
  "depth_loop m [] = m"
| "depth_loop m ((t, k) # stack) =
     depth_loop (if k > m then k else m) (rev (map (\<lambda>c. (c, k + 1)) (fork_children t)) @ stack)"
  by pat_completeness auto
termination
  by (relation "measure (\<lambda>(m, st). length (forest_nodes (map fst st)))") (simp_all add: rev_map comp_def tree_nodes_unfold)

definition max_depth :: "('h, 'n, 'v) fork_node \<Rightarrow> nat" where
  "max_depth t = depth_loop 0 [(t, 0)]"

definition sort_by_depth :: "('h, 'n, 'v) fork_node list \<Rightarrow> ('h, 'n, 'v) fork_node list" where
  "sort_by_depth ts = sort_key (\<lambda>t. - int (max_depth t)) ts"

lemma set_sort_by_depth [simp]: "set (sort_by_depth ts) = set ts"
  by (simp add: sort_by_depth_def)

function rebalance_node :: "('h, 'n, 'v) fork_node \<Rightarrow> ('h, 'n, 'v) fork_node" where
  "rebalance_node (ForkNode h n v cs) = ForkNode h n v (map rebalance_node (sort_by_depth cs))"
  by pat_completeness auto
termination
  by (relation "measure size") (simp_all add: size_list_estimation' less_Suc_eq_le)

definition rebalance :: "('h, 'n, 'v) fork_tree \<Rightarrow> ('h, 'n, 'v) fork_tree" where
  "rebalance t = t\<lparr>fork_roots := map rebalance_node (sort_by_depth (fork_roots t))\<rparr>"

section \<open>Search\<close>

type_synonym ('h, 'e) descendent_test = "'h \<Rightarrow> 'h \<Rightarrow> ('e, bool) result"

fun stack_weight :: "(('h, 'n, 'v) fork_node \<times> nat) list \<Rightarrow> nat" where
  "stack_weight [] = 0"
| "stack_weight ((t, i) # stack) = 1 + 2 * length (forest_nodes (drop i (fork_children t))) + stack_weight stack"

function search_stack ::
  "('h, 'e) descendent_test \<Rightarrow> ('v \<Rightarrow> bool) \<Rightarrow> 'h \<Rightarrow> 'n::linorder \<Rightarrow> (('h, 'n, 'v) fork_node \<times> nat) list \<Rightarrow> bool
     \<Rightarrow> ('e, bool \<times> bool \<times> (('h, 'n, 'v) fork_node \<times> nat) list) result" where
  "search_stack isd P h n [] is_descendent = Ok (False, is_descendent, [])"
| "search_stack isd P h n ((t, i) # stack) is_descendent =
     (if i < length (fork_children t) \<and> \<not> is_descendent
      then search_stack isd P h n
             ((if fork_number (fork_children t ! i) < n then [(fork_children t ! i, 0)] else []) @ (t, i + 1) # stack) False
      else case (if is_descendent then Ok True else isd (fork_hash t) h) of
             Err e \<Rightarrow> Err e
           | Ok False \<Rightarrow> search_stack isd P h n stack False
           | Ok True \<Rightarrow> if P (fork_data t) then Ok (True, True, stack) else search_stack isd P h n stack True)"
  by pat_completeness auto
termination
proof (relation "measure (\<lambda>(isd, P, h, n, st, d). stack_weight st)", goal_cases)
  case (2 isd P h n t i stack d)
  then have "forest_nodes (drop i (fork_children t)) = tree_nodes (fork_children t ! i) @ forest_nodes (drop (Suc i) (fork_children t))"
    by (simp add: Cons_nth_drop_Suc [symmetric])
  then show ?case by (simp add: tree_nodes_unfold)
qed simp_all

fun search_roots ::
  "('h, 'e) descendent_test \<Rightarrow> ('v \<Rightarrow> bool) \<Rightarrow> 'h \<Rightarrow> 'n::linorder \<Rightarrow> nat \<Rightarrow> ('h, 'n, 'v) fork_node list
     \<Rightarrow> ('e, nat list option) result" where
  "search_roots isd P h n root_idx [] = Ok None"
| "search_roots isd P h n root_idx (t # ts) =
     (if n \<le> fork_number t then search_roots isd P h n (Suc root_idx) ts
      else case search_stack isd P h n [(t, 0)] False of
             Err e \<Rightarrow> Err e
           | Ok (found, is_descendent, stack) \<Rightarrow>
               if is_descendent
               then Ok (if found then Some (root_idx # map (\<lambda>(_, i). i - 1) (rev stack)) else None)
               else search_roots isd P h n (Suc root_idx) ts)"

definition find_node_index_where ::
  "'h \<Rightarrow> 'n::linorder \<Rightarrow> ('h, 'e) descendent_test \<Rightarrow> ('v \<Rightarrow> bool) \<Rightarrow> ('h, 'n, 'v) fork_tree
     \<Rightarrow> ('e fork_error, nat list option) result" where
  "find_node_index_where h n isd P t = map_err ClientError (search_roots isd P h n 0 (fork_roots t))"

text \<open>The vector of children at a path of indices, and its replacement; an index out of range panics.\<close>

fun children_at :: "nat list \<Rightarrow> ('h, 'n, 'v) fork_node list \<Rightarrow> ('h, 'n, 'v) fork_node list option" where
  "children_at [] ts = Some ts"
| "children_at (i # p) ts = (if i < length ts then children_at p (fork_children (ts ! i)) else None)"

fun set_children :: "('h, 'n, 'v) fork_node list \<Rightarrow> ('h, 'n, 'v) fork_node \<Rightarrow> ('h, 'n, 'v) fork_node" where
  "set_children cs (ForkNode h n v _) = ForkNode h n v cs"

fun update_children :: "nat list \<Rightarrow> ('h, 'n, 'v) fork_node list \<Rightarrow> ('h, 'n, 'v) fork_node list \<Rightarrow> ('h, 'n, 'v) fork_node list" where
  "update_children [] us ts = us"
| "update_children (i # p) us ts = ts[i := set_children (update_children p us (fork_children (ts ! i))) (ts ! i)]"

definition node_at :: "nat list \<Rightarrow> ('h, 'n, 'v) fork_node list \<Rightarrow> ('h, 'n, 'v) fork_node option" where
  "node_at p ts = (if p = [] then None else Option.bind (children_at (butlast p) ts)
     (\<lambda>cs. if last p < length cs then Some (cs ! last p) else None))"

definition find_node_where ::
  "'h \<Rightarrow> 'n::linorder \<Rightarrow> ('h, 'e) descendent_test \<Rightarrow> ('v \<Rightarrow> bool) \<Rightarrow> ('h, 'n, 'v) fork_tree
     \<Rightarrow> ('e fork_error, ('h, 'n, 'v) fork_node option) result option" where
  "find_node_where h n isd P t =
     (case find_node_index_where h n isd P t of
        Err e \<Rightarrow> Some (Err e)
      | Ok None \<Rightarrow> Some (Ok None)
      | Ok (Some p) \<Rightarrow> map_option (Ok \<circ> Some) (node_at p (fork_roots t)))"

section \<open>Import\<close>

definition reverted :: "'n::linorder \<Rightarrow> ('h, 'n, 'v) fork_tree \<Rightarrow> bool" where
  "reverted n t \<longleftrightarrow> (case best_finalized_number t of Some b \<Rightarrow> n \<le> b | None \<Rightarrow> False)"

text \<open>The parent is found by its path; the path of the vector of roots is empty.\<close>

definition fork_import ::
  "'h \<Rightarrow> 'n::linorder \<Rightarrow> 'v \<Rightarrow> ('h, 'e) descendent_test \<Rightarrow> ('h, 'n, 'v) fork_tree
     \<Rightarrow> (('e fork_error, bool) result \<times> ('h, 'n, 'v) fork_tree) option" where
  "fork_import h n v isd t =
     (if reverted n t then Some (Err Revert, t)
      else case find_node_index_where h n isd (\<lambda>_. True) t of
             Err e \<Rightarrow> Some (Err e, t)
           | Ok parent \<Rightarrow>
               (let path = (case parent of Some p \<Rightarrow> p | None \<Rightarrow> [])
                in case children_at path (fork_roots t) of
                     None \<Rightarrow> None
                   | Some cs \<Rightarrow>
                       if \<exists>c\<in>set cs. fork_hash c = h then Some (Err Duplicate, t)
                       else let t' = t\<lparr>fork_roots := update_children path (cs @ [ForkNode h n v []]) (fork_roots t)\<rparr>
                            in Some (Ok (parent = None), if length cs = 0 then rebalance t' else t')))"

section \<open>Iteration\<close>

definition roots_hash_and_number :: "('h, 'n, 'v) fork_tree \<Rightarrow> ('h \<times> 'n) list" where
  "roots_hash_and_number t = map (\<lambda>r. (fork_hash r, fork_number r)) (fork_roots t)"

function iter_loop :: "('h, 'n, 'v) fork_node list \<Rightarrow> ('h, 'n, 'v) fork_node list" where
  "iter_loop [] = []"
| "iter_loop (t # stack) = t # iter_loop (fork_children t @ stack)"
  by pat_completeness auto
termination
  by (relation "measure (\<lambda>st. length (forest_nodes st))") (simp_all add: tree_nodes_unfold)

definition node_iter :: "('h, 'n, 'v) fork_tree \<Rightarrow> ('h, 'n, 'v) fork_node list" where
  "node_iter t = iter_loop (fork_roots t)"

fun node_entry :: "('h, 'n, 'v) fork_node \<Rightarrow> 'h \<times> 'n \<times> 'v" where
  "node_entry (ForkNode h n v _) = (h, n, v)"

definition fork_iter :: "('h, 'n, 'v) fork_tree \<Rightarrow> ('h \<times> 'n \<times> 'v) list" where
  "fork_iter t = map node_entry (node_iter t)"

text \<open>The iterator over removed nodes owns its stack, whose last element is popped first.\<close>

definition removed_iterator :: "('h, 'n, 'v) fork_node list \<Rightarrow> ('h \<times> 'n \<times> 'v) list" where
  "removed_iterator removed = map node_entry (iter_loop (rev removed))"

section \<open>Pruning\<close>

fun split_children ::
  "'h \<Rightarrow> 'n::linorder \<Rightarrow> ('h, 'e) descendent_test \<Rightarrow> bool \<Rightarrow> ('h, 'n, 'v) fork_node list
     \<Rightarrow> ('e, ('h, 'n, 'v) fork_node list \<times> ('h, 'n, 'v) fork_node list) result" where
  "split_children h n isd is_first [] = Ok ([], [])"
| "split_children h n isd is_first (c # cs) =
     (case (if \<not> is_first then Ok False
            else if fork_number c = n \<and> fork_hash c = h then Ok True
            else if fork_number c < n then isd (fork_hash c) h else Ok False) of
        Err e \<Rightarrow> Err e
      | Ok True \<Rightarrow> map_ok (\<lambda>(kept, removed). (c # kept, removed)) (split_children h n isd False cs)
      | Ok False \<Rightarrow> map_ok (\<lambda>(kept, removed). (kept, c # removed)) (split_children h n isd is_first cs))"

definition prune ::
  "'h \<Rightarrow> 'n::linorder \<Rightarrow> ('h, 'e) descendent_test \<Rightarrow> ('v \<Rightarrow> bool) \<Rightarrow> ('h, 'n, 'v) fork_tree
     \<Rightarrow> (('e fork_error, ('h \<times> 'n \<times> 'v) list) result \<times> ('h, 'n, 'v) fork_tree) option" where
  "prune h n isd P t =
     (case find_node_index_where h n isd P t of
        Err e \<Rightarrow> Some (Err e, t)
      | Ok None \<Rightarrow> Some (Ok [], t)
      | Ok (Some p) \<Rightarrow>
          (case (children_at (butlast p) (fork_roots t), node_at p (fork_roots t)) of
             (Some curr_children, Some root) \<Rightarrow>
               (let old_roots = update_children (butlast p) (take (last p) curr_children @ drop (Suc (last p)) curr_children) (fork_roots t)
                in case split_children h n isd True (fork_children root) of
                     Err e \<Rightarrow> Some (Err (ClientError e), t\<lparr>fork_roots := []\<rparr>)
                   | Ok (kept, removed) \<Rightarrow>
                       Some (Ok (removed_iterator (old_roots @ removed)),
                             rebalance (t\<lparr>fork_roots := [set_children kept root]\<rparr>)))
           | _ \<Rightarrow> None))"

section \<open>Finalization\<close>

definition finalize_root_at :: "nat \<Rightarrow> ('h, 'n, 'v) fork_tree \<Rightarrow> 'v \<times> ('h, 'n, 'v) fork_tree" where
  "finalize_root_at i t =
     (let r = fork_roots t ! i
      in (fork_data r, t\<lparr>fork_roots := fork_children r, best_finalized_number := Some (fork_number r)\<rparr>))"

definition finalize_root :: "'h \<Rightarrow> ('h, 'n, 'v) fork_tree \<Rightarrow> ('v \<times> ('h, 'n, 'v) fork_tree) option" where
  "finalize_root h t = map_option (\<lambda>i. finalize_root_at i t) (position (\<lambda>r. fork_hash r = h) (fork_roots t))"

fun any_ancestor :: "'h \<Rightarrow> 'n::linorder \<Rightarrow> ('h, 'e) descendent_test \<Rightarrow> ('h, 'n, 'v) fork_node list \<Rightarrow> ('e, bool) result" where
  "any_ancestor h n isd [] = Ok False"
| "any_ancestor h n isd (t # ts) =
     (case (if n > fork_number t then isd (fork_hash t) h else Ok False) of
        Err e \<Rightarrow> Err e
      | Ok True \<Rightarrow> Ok True
      | Ok False \<Rightarrow> any_ancestor h n isd ts)"

text \<open>The loops that keep some of the roots: when the test fails, the roots after the failure are lost.\<close>

fun retain_roots ::
  "(('h, 'n, 'v) fork_node \<Rightarrow> ('e, bool) result) \<Rightarrow> ('h, 'n, 'v) fork_node list
     \<Rightarrow> ('e, bool) result \<times> ('h, 'n, 'v) fork_node list" where
  "retain_roots retain [] = (Ok False, [])"
| "retain_roots retain (t # ts) =
     (case retain t of
        Err e \<Rightarrow> (Err e, [])
      | Ok True \<Rightarrow> (case retain_roots retain ts of (r, kept) \<Rightarrow> (r, t # kept))
      | Ok False \<Rightarrow> (case retain_roots retain ts of (r, kept) \<Rightarrow> (map_ok (\<lambda>_. True) r, kept)))"

definition descends_from :: "'h \<Rightarrow> 'n::linorder \<Rightarrow> ('h, 'e) descendent_test \<Rightarrow> ('h, 'n, 'v) fork_node \<Rightarrow> ('e, bool) result" where
  "descends_from h n isd t = (if fork_number t > n then isd h (fork_hash t) else Ok False)"

definition fork_finalize ::
  "'h \<Rightarrow> 'n::linorder \<Rightarrow> ('h, 'e) descendent_test \<Rightarrow> ('h, 'n, 'v) fork_tree
     \<Rightarrow> ('e fork_error, 'v finalization_result) result \<times> ('h, 'n, 'v) fork_tree" where
  "fork_finalize h n isd t =
     (if reverted n t then (Err Revert, t)
      else case finalize_root h t of
             Some (v, t') \<Rightarrow> (Ok (Changed (Some v)), t')
           | None \<Rightarrow>
               (case any_ancestor h n isd (fork_roots t) of
                  Err e \<Rightarrow> (Err (ClientError e), t)
                | Ok True \<Rightarrow> (Err UnfinalizedAncestor, t)
                | Ok False \<Rightarrow>
                    (case retain_roots (descends_from h n isd) (fork_roots t) of
                       (Err e, kept) \<Rightarrow> (Err (ClientError e), t\<lparr>fork_roots := kept\<rparr>)
                     | (Ok changed, kept) \<Rightarrow>
                         (Ok (if changed then Changed None else Unchanged),
                          t\<lparr>fork_roots := kept, best_finalized_number := Some n\<rparr>))))"

datatype root_kind = IsFinalized | IsDescendant | IsAncestor | IsUnrelated

definition root_kind_of :: "'h \<Rightarrow> 'n::linorder \<Rightarrow> ('h, 'e) descendent_test \<Rightarrow> ('h, 'n, 'v) fork_node \<Rightarrow> ('e, root_kind) result" where
  "root_kind_of h n isd t =
     (if fork_hash t = h then Ok IsFinalized
      else case descends_from h n isd t of
             Err e \<Rightarrow> Err e
           | Ok True \<Rightarrow> Ok IsDescendant
           | Ok False \<Rightarrow>
               map_ok (\<lambda>b. if b then IsAncestor else IsUnrelated)
                 (if fork_number t < n then isd (fork_hash t) h else Ok False))"

lemma forest_nodes_mset: "mset (forest_nodes ts) = (\<Sum>t\<in>#mset ts. mset (tree_nodes t))"
  by (induction ts) simp_all

lemma forest_nodes_swap_remove:
  assumes "i < length ts"
  shows "mset (forest_nodes ts) = mset (tree_nodes (ts ! i)) + mset (forest_nodes (swap_remove i ts))"
proof -
  have "mset ts = add_mset (ts ! i) (mset (swap_remove i ts))" using assms by (simp add: mset_swap_remove)
  then show ?thesis by (simp add: forest_nodes_mset)
qed

function open_roots ::
  "'h \<Rightarrow> 'n::linorder \<Rightarrow> ('h, 'e) descendent_test \<Rightarrow> nat \<Rightarrow> bool \<Rightarrow> ('h, 'n, 'v) fork_tree
     \<Rightarrow> ('e, 'v finalization_result) result \<times> ('h, 'n, 'v) fork_tree" where
  "open_roots h n isd idx changed t =
     (if idx \<ge> length (fork_roots t)
      then (Ok (if changed then Changed None else Unchanged), t\<lparr>best_finalized_number := Some n\<rparr>)
      else let r = fork_roots t ! idx
           in case root_kind_of h n isd r of
                Err e \<Rightarrow> (Err e, t)
              | Ok IsFinalized \<Rightarrow> (case finalize_root_at idx t of (v, t') \<Rightarrow> (Ok (Changed (Some v)), t'))
              | Ok IsDescendant \<Rightarrow> open_roots h n isd (Suc idx) changed t
              | Ok IsAncestor \<Rightarrow>
                  open_roots h n isd idx True (t\<lparr>fork_roots := swap_remove idx (fork_roots t) @ fork_children r\<rparr>)
              | Ok IsUnrelated \<Rightarrow> open_roots h n isd idx True (t\<lparr>fork_roots := swap_remove idx (fork_roots t)\<rparr>))"
  by pat_completeness auto
termination
proof (relation "measures [\<lambda>(h, n, isd, idx, c, t). length (forest_nodes (fork_roots t)), \<lambda>(h, n, isd, idx, c, t). length (fork_roots t) - idx]",
    goal_cases)
  case (3 h n isd idx changed t r k)
  then show ?case using forest_nodes_swap_remove [of idx "fork_roots t", THEN arg_cong, of size] by (simp add: tree_nodes_unfold)
next
  case (4 h n isd idx changed t r k)
  then show ?case using forest_nodes_swap_remove [of idx "fork_roots t", THEN arg_cong, of size] by (simp add: tree_nodes_unfold)
qed auto

definition finalize_with_ancestors ::
  "'h \<Rightarrow> 'n::linorder \<Rightarrow> ('h, 'e) descendent_test \<Rightarrow> ('h, 'n, 'v) fork_tree
     \<Rightarrow> ('e fork_error, 'v finalization_result) result \<times> ('h, 'n, 'v) fork_tree" where
  "finalize_with_ancestors h n isd t =
     (if reverted n t then (Err Revert, t)
      else case finalize_root h t of
             Some (v, t') \<Rightarrow> (Ok (Changed (Some v)), t')
           | None \<Rightarrow> (case open_roots h n isd 0 False t of (r, t') \<Rightarrow> (map_err ClientError r, t')))"

definition at_or_above :: "'h \<Rightarrow> ('h, 'e) descendent_test \<Rightarrow> ('h, 'n, 'v) fork_node \<Rightarrow> ('e, bool) result" where
  "at_or_above h isd t = (if fork_hash t = h then Ok True else isd (fork_hash t) h)"

fun passes_child :: "'h \<Rightarrow> 'n::linorder \<Rightarrow> ('h, 'e) descendent_test \<Rightarrow> ('h, 'n, 'v) fork_node list \<Rightarrow> ('e, bool) result" where
  "passes_child h n isd [] = Ok False"
| "passes_child h n isd (c # cs) =
     (case (if fork_number c \<le> n then at_or_above h isd c else Ok False) of
        Err e \<Rightarrow> Err e
      | Ok True \<Rightarrow> Ok True
      | Ok False \<Rightarrow> passes_child h n isd cs)"

text \<open>The first node that passes the predicate and is finalized, unless a child of it would be passed over.\<close>

fun finalized_node ::
  "'h \<Rightarrow> 'n::linorder \<Rightarrow> ('h, 'e) descendent_test \<Rightarrow> ('v \<Rightarrow> bool) \<Rightarrow> nat \<Rightarrow> ('h, 'n, 'v) fork_node list
     \<Rightarrow> ('e fork_error, (nat \<times> ('h, 'n, 'v) fork_node) option) result" where
  "finalized_node h n isd P i [] = Ok None"
| "finalized_node h n isd P i (t # ts) =
     (case (if P (fork_data t) then at_or_above h isd t else Ok False) of
        Err e \<Rightarrow> Err (ClientError e)
      | Ok False \<Rightarrow> finalized_node h n isd P (Suc i) ts
      | Ok True \<Rightarrow>
          (case passes_child h n isd (fork_children t) of
             Err e \<Rightarrow> Err (ClientError e)
           | Ok True \<Rightarrow> Err UnfinalizedAncestor
           | Ok False \<Rightarrow> Ok (Some (i, t))))"

definition finalizes_any_with_descendent_if ::
  "'h \<Rightarrow> 'n::linorder \<Rightarrow> ('h, 'e) descendent_test \<Rightarrow> ('v \<Rightarrow> bool) \<Rightarrow> ('h, 'n, 'v) fork_tree \<Rightarrow> ('e fork_error, bool option) result" where
  "finalizes_any_with_descendent_if h n isd P t =
     (if reverted n t then Err Revert
      else map_ok (map_option (\<lambda>(_, x). \<exists>r\<in>set (fork_roots t). fork_hash r = fork_hash x))
             (finalized_node h n isd P 0 (node_iter t)))"

definition retain_related ::
  "'h \<Rightarrow> 'n::linorder \<Rightarrow> ('h, 'e) descendent_test \<Rightarrow> ('h, 'n, 'v) fork_node \<Rightarrow> ('e, bool) result" where
  "retain_related h n isd t =
     (case descends_from h n isd t of
        Err e \<Rightarrow> Err e
      | Ok True \<Rightarrow> Ok True
      | Ok False \<Rightarrow> if fork_number t = n \<and> fork_hash t = h then Ok True else isd (fork_hash t) h)"

definition finalize_with_descendent_if ::
  "'h \<Rightarrow> 'n::linorder \<Rightarrow> ('h, 'e) descendent_test \<Rightarrow> ('v \<Rightarrow> bool) \<Rightarrow> ('h, 'n, 'v) fork_tree
     \<Rightarrow> ('e fork_error, 'v finalization_result) result \<times> ('h, 'n, 'v) fork_tree" where
  "finalize_with_descendent_if h n isd P t =
     (if reverted n t then (Err Revert, t)
      else case finalized_node h n isd P 0 (fork_roots t) of
             Err e \<Rightarrow> (Err e, t)
           | Ok found \<Rightarrow>
               (case (case found of
                        Some (i, _) \<Rightarrow> (case finalize_root_at i t of (v, t1) \<Rightarrow> (Some v, t1))
                      | None \<Rightarrow> (None, t)) of
                  (node_data, t1) \<Rightarrow>
                    (case retain_roots (retain_related h n isd) (fork_roots t1) of
                       (Err e, kept) \<Rightarrow> (Err (ClientError e), t1\<lparr>fork_roots := kept\<rparr>)
                     | (Ok changed, kept) \<Rightarrow>
                         (Ok (case node_data of
                                Some v \<Rightarrow> Changed (Some v)
                              | None \<Rightarrow> if changed then Changed None else Unchanged),
                          t1\<lparr>fork_roots := kept, best_finalized_number := Some n\<rparr>))))"

section \<open>Mapping and filtering\<close>

text \<open>
  \<open>map\<close> and \<open>drain_filter\<close> share the shape of their loops: a breadth first pass that lists the retained nodes with the index of
  their parent, and a second pass from the end of that list that gives each node back to its parent. What is done with a
  visited node is the argument \<open>visit\<close>; a retained node may leave its children to the next round.
\<close>

datatype ('h, 'n, 'w) visit_result = Retain "('h, 'n, 'w) fork_node" bool | Discard

type_synonym ('h, 'n, 'v, 'w) visitor = "('h, 'n, 'v) fork_node \<Rightarrow> ('h, 'n, 'w) visit_result"

type_synonym ('h, 'n, 'v) fork_queue = "(nat option \<times> ('h, 'n, 'v) fork_node) list"

fun bfs_level ::
  "('h, 'n, 'v, 'w) visitor \<Rightarrow> ('h, 'n, 'v) fork_queue \<Rightarrow> ('h, 'n, 'w) fork_queue \<Rightarrow> ('h, 'n, 'v) fork_node list \<Rightarrow> ('h, 'n, 'v) fork_queue
     \<Rightarrow> ('h, 'n, 'w) fork_queue \<times> ('h, 'n, 'v) fork_node list \<times> ('h, 'n, 'v) fork_queue" where
  "bfs_level visit [] retained removed next_queue = (retained, removed, next_queue)"
| "bfs_level visit ((parent, t) # queue) retained removed next_queue =
     (case visit t of
        Retain t' descend \<Rightarrow>
          bfs_level visit queue (retained @ [(parent, t')]) removed
            (next_queue @ (if descend then map (Pair (Some (length retained))) (rev (fork_children t)) else []))
      | Discard \<Rightarrow> bfs_level visit queue retained (removed @ [t]) next_queue)"

lemma bfs_level_size:
  "bfs_level visit queue retained removed next_queue = (retained', removed', next_queue') \<Longrightarrow>
     length (forest_nodes (map snd next_queue')) + length queue \<le> length (forest_nodes (map snd next_queue)) + length (forest_nodes (map snd queue))"
proof (induction visit queue retained removed next_queue rule: bfs_level.induct)
  case (2 visit parent t queue retained removed next_queue)
  show ?case
  proof (cases "visit t")
    case (Retain t' descend)
    show ?thesis
      using "2.IH"(1) [OF Retain] "2.prems" Retain by (cases descend) (simp_all add: tree_nodes_unfold [of t] comp_def)
  next
    case Discard
    then show ?thesis using "2.IH"(2) [OF Discard] "2.prems" by (simp add: tree_nodes_unfold [of t])
  qed
qed simp

function bfs_loop ::
  "('h, 'n, 'v, 'w) visitor \<Rightarrow> ('h, 'n, 'v) fork_queue \<Rightarrow> ('h, 'n, 'w) fork_queue \<Rightarrow> ('h, 'n, 'v) fork_node list
     \<Rightarrow> ('h, 'n, 'w) fork_queue \<times> ('h, 'n, 'v) fork_node list" where
  "bfs_loop visit queue retained removed =
     (if queue = [] then (retained, removed)
      else case bfs_level visit queue retained removed [] of
             (retained', removed', next_queue) \<Rightarrow> bfs_loop visit next_queue retained' removed')"
  by pat_completeness auto
termination
  by (relation "measure (\<lambda>(visit, queue, _, _). length (forest_nodes (map snd queue)))") (auto dest!: bfs_level_size [OF sym] simp: neq_Nil_conv)

declare bfs_loop.simps [simp del]

fun push_child :: "('h, 'n, 'v) fork_node \<Rightarrow> 'i \<times> ('h, 'n, 'v) fork_node \<Rightarrow> 'i \<times> ('h, 'n, 'v) fork_node" where
  "push_child c (parent, t) = (parent, set_children (fork_children t @ [c]) t)"

function rebuild_loop ::
  "('h, 'n, 'v) fork_queue \<Rightarrow> ('h, 'n, 'v) fork_node list \<Rightarrow> ('h, 'n, 'v) fork_node list option" where
  "rebuild_loop output roots =
     (if output = [] then Some roots
      else case last output of
             (None, t) \<Rightarrow> rebuild_loop (butlast output) (roots @ [t])
           | (Some i, t) \<Rightarrow>
               if i < length (butlast output)
               then rebuild_loop ((butlast output)[i := push_child t (butlast output ! i)]) roots
               else None)"
  by pat_completeness auto
termination
  by (relation "measure (\<lambda>(output, _). length output)") auto

declare rebuild_loop.simps [simp del]

definition map_visit :: "('h \<Rightarrow> 'n \<Rightarrow> 'v \<Rightarrow> 'w) \<Rightarrow> ('h, 'n, 'v, 'w) visitor" where
  "map_visit f t = Retain (ForkNode (fork_hash t) (fork_number t) (f (fork_hash t) (fork_number t) (fork_data t)) []) True"

definition fork_map :: "('h \<Rightarrow> 'n \<Rightarrow> 'v \<Rightarrow> 'w) \<Rightarrow> ('h, 'n, 'v) fork_tree \<Rightarrow> ('h, 'n, 'w) fork_tree option" where
  "fork_map f t =
     map_option (\<lambda>roots. \<lparr>fork_roots = roots, best_finalized_number = best_finalized_number t\<rparr>)
       (rebuild_loop (fst (bfs_loop (map_visit f) (map (Pair None) (rev (fork_roots t))) [] [])) [])"

definition filter_visit :: "('h \<Rightarrow> 'n \<Rightarrow> 'v \<Rightarrow> filter_action) \<Rightarrow> ('h, 'n, 'v, 'v) visitor" where
  "filter_visit flt t =
     (case flt (fork_hash t) (fork_number t) (fork_data t) of
        KeepNode \<Rightarrow> Retain (set_children [] t) True
      | KeepTree \<Rightarrow> Retain t False
      | RemoveNode \<Rightarrow> Discard)"

definition drain_filter ::
  "('h \<Rightarrow> 'n \<Rightarrow> 'v \<Rightarrow> filter_action) \<Rightarrow> ('h, 'n, 'v) fork_tree \<Rightarrow> (('h \<times> 'n \<times> 'v) list \<times> ('h, 'n, 'v) fork_tree) option" where
  "drain_filter flt t =
     (case bfs_loop (filter_visit flt) (map (Pair None) (rev (fork_roots t))) [] [] of
        (retained, removed) \<Rightarrow>
          map_option (\<lambda>roots. (removed_iterator removed,
              if removed \<noteq> [] then rebalance (t\<lparr>fork_roots := roots\<rparr>) else t\<lparr>fork_roots := roots\<rparr>))
            (rebuild_loop retained []))"

section \<open>The breadth first passes compute a recursion over the tree\<close>

fun keep_tree :: "('h, 'n, 'v, 'w) visitor \<Rightarrow> ('h, 'n, 'v) fork_node \<Rightarrow> ('h, 'n, 'w) fork_node list" where
  "keep_tree visit (ForkNode h n v cs) =
     (case visit (ForkNode h n v cs) of
        Retain t' descend \<Rightarrow> [if descend then set_children (fork_children t' @ concat (map (keep_tree visit) cs)) t' else t']
      | Discard \<Rightarrow> [])"

lemma keep_tree_unfold:
  "keep_tree visit t = (case visit t of
     Retain t' descend \<Rightarrow> [if descend then set_children (fork_children t' @ concat (map (keep_tree visit) (fork_children t))) t' else t']
   | Discard \<Rightarrow> [])"
  by (cases t) (simp split: visit_result.split)

definition keep_queue :: "('h, 'n, 'v, 'w) visitor \<Rightarrow> ('h, 'n, 'v) fork_queue \<Rightarrow> ('h, 'n, 'w) fork_queue" where
  "keep_queue visit queue = concat (map (\<lambda>(parent, t). map (Pair parent) (keep_tree visit t)) queue)"

lemma keep_queue_simps [simp]:
  "keep_queue visit [] = []"
  "keep_queue visit ((parent, t) # queue) = map (Pair parent) (keep_tree visit t) @ keep_queue visit queue"
  "keep_queue visit (q @ q') = keep_queue visit q @ keep_queue visit q'"
  by (simp_all add: keep_queue_def)

lemma rev_keep_queue: "rev (keep_queue visit queue) = keep_queue visit (rev queue)"
proof (induction queue)
  case (Cons e queue)
  then show ?case by (cases e) (simp add: keep_tree_unfold split: visit_result.splits)
qed simp

fun attach :: "('h, 'n, 'v) fork_queue \<Rightarrow> ('h, 'n, 'v) fork_queue \<times> ('h, 'n, 'v) fork_node list \<Rightarrow> ('h, 'n, 'v) fork_queue \<times> ('h, 'n, 'v) fork_node list" where
  "attach [] s = s"
| "attach ((None, t) # es) (out, roots) = attach es (out, roots @ [t])"
| "attach ((Some i, t) # es) (out, roots) = attach es (out[i := push_child t (out ! i)], roots)"

lemma attach_append [simp]: "attach (es @ es') s = attach es' (attach es s)"
  by (induction es s rule: attach.induct) simp_all

definition parents_below :: "nat \<Rightarrow> ('h, 'n, 'v) fork_queue \<Rightarrow> bool" where
  "parents_below k es \<longleftrightarrow> (\<forall>(parent, t)\<in>set es. \<forall>i. parent = Some i \<longrightarrow> i < k)"

lemma rebuild_attach:
  "parents_below (length out) es \<Longrightarrow> rebuild_loop (out @ es) roots = (case attach (rev es) (out, roots) of (o', r') \<Rightarrow> rebuild_loop o' r')"
proof (induction es arbitrary: out roots rule: rev_induct)
  case (snoc e es)
  obtain parent t where e: "e = (parent, t)" by fastforce
  have below: "parents_below (length out) es" using snoc.prems by (auto simp: parents_below_def)
  show ?case
  proof (cases parent)
    case None
    then show ?thesis using snoc.IH [OF below] by (subst rebuild_loop.simps) (simp add: e butlast_append)
  next
    case (Some i)
    then have i: "i < length out" using snoc.prems by (simp add: e parents_below_def)
    have below': "parents_below (length (out[i := push_child t (out ! i)])) es" using below by simp
    show ?thesis using Some i snoc.IH [OF below'] by (subst rebuild_loop.simps) (simp add: e butlast_append list_update_append nth_append)
  qed
qed simp

lemma attach_children:
  "attach (map (Pair (Some (length out))) cs) (out @ (parent, t) # out', roots)
     = (out @ (parent, set_children (fork_children t @ cs) t) # out', roots)"
proof (induction cs arbitrary: t)
  case Nil
  then show ?case by (cases t) simp
next
  case (Cons c cs)
  show ?case using Cons.IH [of "set_children (fork_children t @ [c]) t"] by (cases t) simp
qed

lemma attach_roots: "attach (map (Pair None) ts) (out, roots) = (out, roots @ ts)"
  by (induction ts arbitrary: roots) simp_all

lemma bfs_level_attach:
  assumes "bfs_level visit queue retained removed next_queue = (retained', removed', next_queue')"
  shows "\<exists>nq. next_queue' = next_queue @ nq \<and> length retained \<le> length retained' \<and> parents_below (length retained') nq
    \<and> (\<forall>roots. attach (keep_queue visit (rev nq)) (retained', roots) = (retained @ keep_queue visit queue, roots))"
  using assms
proof (induction visit queue retained removed next_queue rule: bfs_level.induct)
  case (1 visit retained removed next_queue)
  then show ?case by (auto simp: parents_below_def)
next
  case (2 visit parent t queue retained removed next_queue)
  show ?case
  proof (cases "visit t")
    case Discard
    then show ?thesis using 2 by (simp add: keep_tree_unfold)
  next
    case (Retain t' descend)
    let ?cs = "if descend then map (Pair (Some (length retained))) (rev (fork_children t)) else []"
    from "2.IH"(1) [OF Retain] "2.prems" Retain obtain nq where nq: "next_queue' = next_queue @ ?cs @ nq"
        "Suc (length retained) \<le> length retained'" "parents_below (length retained') nq"
        "\<And>roots. attach (keep_queue visit (rev nq)) (retained', roots) = (retained @ (parent, t') # keep_queue visit queue, roots)"
      by auto
    have "keep_queue visit (rev (map (Pair (Some k)) (rev cs))) = map (Pair (Some k)) (concat (map (keep_tree visit) cs))" for k cs
      by (induction cs) simp_all
    then have "attach (keep_queue visit (rev (?cs @ nq))) (retained', roots) = (retained @ keep_queue visit ((parent, t) # queue), roots)" for roots
      using nq(4) Retain by (simp add: attach_children keep_tree_unfold [of visit t])
    moreover have "parents_below (length retained') (?cs @ nq)" using nq(2,3) by (auto simp: parents_below_def)
    ultimately show ?thesis using nq(1,2) by (intro exI [of _ "?cs @ nq"]) auto
  qed
qed

lemma bfs_rebuild:
  assumes "parents_below (length retained) queue" "bfs_loop visit queue retained removed = (retained', removed')"
  shows "rebuild_loop retained' roots = (case attach (keep_queue visit (rev queue)) (retained, roots) of (o', r') \<Rightarrow> rebuild_loop o' r')"
  using assms
proof (induction visit queue retained removed rule: bfs_loop.induct)
  case (1 visit queue retained removed)
  show ?case
  proof (cases "queue = []")
    case True
    then show ?thesis using "1.prems" by (simp add: bfs_loop.simps)
  next
    case False
    obtain ret rem nq where level: "bfs_level visit queue retained removed [] = (ret, rem, nq)" by (metis prod_cases3)
    from bfs_level_attach [OF this] have nq: "parents_below (length ret) nq"
      "attach (keep_queue visit (rev nq)) (ret, roots) = (retained @ keep_queue visit queue, roots)" by auto
    have "bfs_loop visit nq ret rem = (retained', removed')" using "1.prems"(2) False level by (simp add: bfs_loop.simps [of visit queue])
    from "1.IH" [OF False level [symmetric] refl nq(1) this] nq(2)
    have "rebuild_loop retained' roots = rebuild_loop (retained @ keep_queue visit queue) roots" by simp
    moreover have "parents_below (length retained) (keep_queue visit queue)"
      using "1.prems"(1) by (fastforce simp: parents_below_def keep_queue_def)
    ultimately show ?thesis by (simp add: rebuild_attach rev_keep_queue)
  qed
qed

lemma bfs_rebuild_roots:
  "bfs_loop visit (map (Pair None) (rev ts)) [] [] = (retained, removed) \<Longrightarrow> rebuild_loop retained [] = Some (concat (map (keep_tree visit) ts))"
proof -
  assume loop: "bfs_loop visit (map (Pair None) (rev ts)) [] [] = (retained, removed)"
  have "keep_queue visit (map (Pair None) ts) = map (Pair None) (concat (map (keep_tree visit) ts))"
    by (induction ts) simp_all
  then show ?thesis
    using bfs_rebuild [OF _ loop, of "[]"] by (simp add: parents_below_def rev_map attach_roots rebuild_loop.simps [of "[]"])
qed

fun dropped_trees :: "('h, 'n, 'v, 'w) visitor \<Rightarrow> ('h, 'n, 'v) fork_node \<Rightarrow> ('h, 'n, 'v) fork_node list" where
  "dropped_trees visit (ForkNode h n v cs) =
     (case visit (ForkNode h n v cs) of
        Retain _ descend \<Rightarrow> if descend then concat (map (dropped_trees visit) cs) else []
      | Discard \<Rightarrow> [ForkNode h n v cs])"

lemma dropped_trees_unfold:
  "dropped_trees visit t = (case visit t of
     Retain _ descend \<Rightarrow> if descend then concat (map (dropped_trees visit) (fork_children t)) else [] | Discard \<Rightarrow> [t])"
  by (cases t) (simp split: visit_result.split)

lemma mset_concat_rev: "mset (concat (map f (rev xs))) = mset (concat (map f xs))"
  by (induction xs) simp_all

lemma bfs_level_removed:
  "bfs_level visit queue retained removed next_queue = (retained', removed', next_queue') \<Longrightarrow>
     mset removed' + mset (concat (map (dropped_trees visit) (map snd next_queue')))
       = mset removed + mset (concat (map (dropped_trees visit) (map snd next_queue))) + mset (concat (map (dropped_trees visit) (map snd queue)))"
proof (induction visit queue retained removed next_queue rule: bfs_level.induct)
  case (2 visit parent t queue retained removed next_queue)
  show ?case
  proof (cases "visit t")
    case (Retain t' descend)
    then show ?thesis
      using "2.IH"(1) [OF Retain] "2.prems" by (cases descend) (simp_all add: dropped_trees_unfold [of visit t] comp_def mset_concat_rev)
  next
    case Discard
    then show ?thesis using "2.IH"(2) [OF Discard] "2.prems" by (simp add: dropped_trees_unfold [of visit t])
  qed
qed simp

lemma bfs_loop_removed:
  "bfs_loop visit queue retained removed = (retained', removed') \<Longrightarrow>
     mset removed' = mset removed + mset (concat (map (dropped_trees visit) (map snd queue)))"
proof (induction visit queue retained removed rule: bfs_loop.induct)
  case (1 visit queue retained removed)
  show ?case
  proof (cases "queue = []")
    case True
    then show ?thesis using "1.prems" by (simp add: bfs_loop.simps)
  next
    case False
    obtain ret rem nq where level: "bfs_level visit queue retained removed [] = (ret, rem, nq)" by (metis prod_cases3)
    then have "bfs_loop visit nq ret rem = (retained', removed')" using "1.prems" False by (simp add: bfs_loop.simps [of visit queue])
    from "1.IH" [OF False level [symmetric] refl this] bfs_level_removed [OF level] show ?thesis by simp
  qed
qed

lemma iter_loop_forest: "iter_loop ts = forest_nodes ts"
  by (induction ts rule: iter_loop.induct) (simp_all add: tree_nodes_unfold)

text \<open>The recursions.\<close>

fun map_tree :: "('h \<Rightarrow> 'n \<Rightarrow> 'v \<Rightarrow> 'w) \<Rightarrow> ('h, 'n, 'v) fork_node \<Rightarrow> ('h, 'n, 'w) fork_node" where
  "map_tree f (ForkNode h n v cs) = ForkNode h n (f h n v) (map (map_tree f) cs)"

fun filter_tree :: "('h \<Rightarrow> 'n \<Rightarrow> 'v \<Rightarrow> filter_action) \<Rightarrow> ('h, 'n, 'v) fork_node \<Rightarrow> ('h, 'n, 'v) fork_node list" where
  "filter_tree flt (ForkNode h n v cs) =
     (case flt h n v of
        KeepNode \<Rightarrow> [ForkNode h n v (concat (map (filter_tree flt) cs))]
      | KeepTree \<Rightarrow> [ForkNode h n v cs]
      | RemoveNode \<Rightarrow> [])"

fun filtered_out :: "('h \<Rightarrow> 'n \<Rightarrow> 'v \<Rightarrow> filter_action) \<Rightarrow> ('h, 'n, 'v) fork_node \<Rightarrow> ('h, 'n, 'v) fork_node list" where
  "filtered_out flt (ForkNode h n v cs) =
     (case flt h n v of
        KeepNode \<Rightarrow> concat (map (filtered_out flt) cs)
      | KeepTree \<Rightarrow> []
      | RemoveNode \<Rightarrow> tree_nodes (ForkNode h n v cs))"

lemma keep_tree_map_visit: "keep_tree (map_visit f) t = [map_tree f t]"
proof (induction t)
  case (ForkNode h n v cs)
  then have "concat (map (keep_tree (map_visit f)) cs) = map (map_tree f) cs" by (induction cs) simp_all
  then show ?case by (simp add: map_visit_def [of f "ForkNode h n v cs"])
qed

lemma keep_tree_filter_visit: "keep_tree (filter_visit flt) t = filter_tree flt t"
proof (induction t)
  case (ForkNode h n v cs)
  then have "concat (map (keep_tree (filter_visit flt)) cs) = concat (map (filter_tree flt) cs)" by (simp cong: map_cong)
  then show ?case by (simp add: filter_visit_def [of flt "ForkNode h n v cs"] split: filter_action.split)
qed

lemma forest_nodes_dropped: "forest_nodes (dropped_trees (filter_visit flt) t) = filtered_out flt t"
proof (induction t)
  case (ForkNode h n v cs)
  then have "forest_nodes (concat (map (dropped_trees (filter_visit flt)) cs)) = concat (map (filtered_out flt) cs)"
    by (induction cs) simp_all
  then show ?case by (simp add: filter_visit_def [of flt "ForkNode h n v cs"] split: filter_action.split)
qed

lemma filter_tree_id: "filtered_out flt t = [] \<Longrightarrow> filter_tree flt t = [t]"
proof (induction t)
  case (ForkNode h n v cs)
  have "concat (map (filter_tree flt) cs) = cs" if "\<forall>c\<in>set cs. filtered_out flt c = []"
    using that ForkNode.IH by (induction cs) simp_all
  then show ?case using ForkNode.prems by (simp split: filter_action.splits)
qed

lemma mset_removed_iterator:
  "mset removed = mset ts \<Longrightarrow> mset (removed_iterator removed) = mset (map node_entry (forest_nodes ts))"
  by (simp add: removed_iterator_def iter_loop_forest forest_nodes_mset)

text \<open>C20: The breadth first passes of map and drain_filter with their parent indices end without an index out of range and compute
  the plain recursions over the tree. Mapping keeps the shape and the order of all branches; filtering keeps the nodes
  that the filter keeps, under the parents that are kept, hands out each removed node once, and rebalances the tree if
  and only if it removed something.\<close>

theorem fork_passes_are_recursions:
  "fork_map f t = Some \<lparr>fork_roots = map (map_tree f) (fork_roots t), best_finalized_number = best_finalized_number t\<rparr>
   \<and> (\<exists>removed. drain_filter flt t = Some (removed,
          if removed = [] then t else rebalance (t\<lparr>fork_roots := concat (map (filter_tree flt) (fork_roots t))\<rparr>))
        \<and> mset removed = mset (map node_entry (concat (map (filtered_out flt) (fork_roots t)))))"
proof
  obtain ret rem where loop: "bfs_loop (map_visit f) (map (Pair None) (rev (fork_roots t))) [] [] = (ret, rem)" by fastforce
  show "fork_map f t = Some \<lparr>fork_roots = map (map_tree f) (fork_roots t), best_finalized_number = best_finalized_number t\<rparr>"
    using bfs_rebuild_roots [OF loop] by (simp add: fork_map_def loop keep_tree_map_visit [abs_def] concat_map_singleton)
next
  let ?ts = "fork_roots t" and ?drop = "dropped_trees (filter_visit flt)"
  obtain ret rem where loop: "bfs_loop (filter_visit flt) (map (Pair None) (rev ?ts)) [] [] = (ret, rem)" by fastforce
  have kept: "rebuild_loop ret [] = Some (concat (map (filter_tree flt) ?ts))"
    using bfs_rebuild_roots [OF loop] by (simp add: keep_tree_filter_visit [abs_def])
  have "mset rem = mset (concat (map ?drop (rev ?ts)))" using bfs_loop_removed [OF loop] by (simp add: comp_def)
  then have rem: "mset rem = mset (concat (map ?drop ?ts))" by (simp only: mset_concat_rev)
  have "forest_nodes (concat (map ?drop us)) = concat (map (filtered_out flt) us)" for us
    by (induction us) (simp_all add: forest_nodes_dropped)
  with mset_removed_iterator [OF rem] have removed: "mset (removed_iterator rem) = mset (map node_entry (concat (map (filtered_out flt) ?ts)))"
    by simp
  have empty: "removed_iterator rem = [] \<longleftrightarrow> rem = []"
    by (cases rem rule: rev_cases) (simp_all add: removed_iterator_def iter_loop_forest tree_nodes_unfold)
  have "concat (map (filter_tree flt) ?ts) = ?ts" if "rem = []"
  proof -
    from that removed have "\<forall>u\<in>set ?ts. filtered_out flt u = []" by (simp add: removed_iterator_def)
    then show ?thesis by (induction "fork_roots t" arbitrary: t) (simp_all add: filter_tree_id concat_map_singleton map_idI cong: map_cong)
  qed
  then show "\<exists>removed. drain_filter flt t = Some (removed,
      if removed = [] then t else rebalance (t\<lparr>fork_roots := concat (map (filter_tree flt) ?ts)\<rparr>))
    \<and> mset removed = mset (map node_entry (concat (map (filtered_out flt) ?ts)))"
    using kept removed empty by (intro exI [of _ "removed_iterator rem"]) (simp add: drain_filter_def loop)
qed

end
