(* ===== verification/Spec2Isabelle.thy ===== *)
theory Spec2Isabelle
  imports Block_Sync Sidechain_Storage Aura Top_Order Top_Author Rpc_Responder Fork_Tree
begin

text \<open>
  A model of the integritee worker and its correctness theorems.

  \<^bold>\<open>The program.\<close> A worker runs a trusted part inside an SGX enclave and an untrusted service around it.
  Users send encrypted trusted calls; the enclave collects them in a pool, executes them on the state of
  a shard and, as a validateer of the sidechain, proposes the result as a signed sidechain block when a
  slot is its own. Other validateers verify the block, replay its encrypted state diff and confirm it to
  the parentchain. All of them follow the parentchain through queues of finalised blocks. State snapshots
  are encrypted files; blocks are kept by the service in a database.

  \<^bold>\<open>Theories and sources.\<close> Paths are under src/.
  \<^item> \<open>Worker_Prelude\<close>, \<open>Ordered_Map\<close>: machine integers, results, HashMap, BTreeMap and Vec operations of
    the Rust standard library.
  \<^item> \<open>Import_Queue\<close> (core-primitives/import-queue) and \<open>Parentchain_Dispatcher\<close>
    (core/parentchain/block-import-dispatcher): queues of parentchain blocks and events and their import.
    Blocks reach the importer exactly once and in order with their events; the one error path that
    drops blocks is stated as such.
  \<^item> \<open>Storage_Keys\<close> (core-primitives/storage), \<open>Externalities\<close> (core-primitives/substrate-sgx/externalities
    and sp-io) and \<open>Sidechain_State\<close> (sidechain/state): the key-value state of the runtime with its diff.
    Replaying a diff reproduces the state.
  \<^item> \<open>State_File_Io\<close>, \<open>State_Snapshots\<close>, \<open>State_Handler\<close> (core-primitives/stf-state-handler and
    stf-state-observer): encrypted snapshot files, the bounded history of snapshots, and the in-memory
    states of the shards. The repository refines a bounded stack of versions and survives a restart.
  \<^item> \<open>Sidechain_Primitives\<close> (sidechain/primitives), \<open>Block_Verification\<close> (sidechain/block-verification),
    \<open>Block_Composer\<close> (sidechain/block-composer): blocks, the exact condition under which a block
    verifies, and that a composed block verifies against its parent.
  \<^item> \<open>Stf_Primitives\<close> (core-primitives/stf-primitives) and \<open>Stf_Executor\<close> (core-primitives/stf-executor):
    trusted operations and their execution on a copy of the state within a deadline.
  \<^item> \<open>Top_Future\<close>, \<open>Top_Ready\<close>, \<open>Top_Base_Pool\<close>, \<open>Top_Order\<close> (core-primitives/top-pool): the trusted operation
    pool, with one record for the maps of a shard, stacks with their last element first and the best set
    as a list without equivalent entries. No sequence of operations fails an assertion or breaks an
    index, the limits hold once enforced, and the iterator respects the dependencies of operations with
    one tag; for operations with several required tags a removal can break that order, which is stated.
  \<^item> \<open>Top_Listener\<close>, \<open>Top_Validated_Pool\<close>, \<open>Top_Pool\<close> (core-primitives/top-pool): the ban list and the watchers, the
    pool that validates, bans and notifies, and its asynchronous front with futures run to completion.
    \<open>Top_Fifo\<close> shows that for operations as the worker validates them (no required tags, one priority, one
    tag per sender and nonce) the pool is a bounded first-in first-out queue.
  \<^item> \<open>Top_Author\<close> (core-primitives/top-pool-author): decryption, filtering and submission of operations, the
    pending calls and their removal. Runs of the author refine that queue and never panic.
  \<^item> \<open>Rpc_Responder\<close> (core/direct-rpc-server): connections that watch an operation. A client hears every
    status the pool reports; after a drop it is told to wait for more, which is stated.
  \<^item> \<open>Slots\<close> (sidechain/consensus/slots) and \<open>Aura\<close> (sidechain/consensus/aura): the slot schedule, the slot
    worker and the proposer. What the worker proposes is accepted by its peers and replays to the state
    the proposer computed.
  \<^item> \<open>Block_Import\<close> and \<open>Block_Sync\<close> (sidechain/consensus/common): block import, synchronisation with a
    peer and the queue worker. Processing a queue extends the chain by verified blocks only, and does
    not depend on the order of arrival.
  \<^item> \<open>Sidechain_Storage\<close> (sidechain/storage): the block database of the service, refining a list of blocks
    per shard.
  \<^item> \<open>Fork_Tree\<close> (sidechain/fork-tree): the tree of forks with its import, search, pruning and finalization.
    The passes that map and filter a tree breadth first are recursions over it.

  \<^bold>\<open>Conventions.\<close> A struct is a record, an enum a datatype, a trait a record of functions. A method that
  changes its object returns the new state. A panic is \<^term>\<open>None\<close>, an Err of the source an \<open>Err\<close>. Locks
  are modelled where poisoning is an error of the source. A u64 is a 64 bit word; usize is a natural
  number, since lengths of vectors in memory do not reach its bound. Durations are numbers of
  nanoseconds and the clock is a sequence of readings. Loops that follow data of the database or the
  pool limits are partial functions, and their theorems show that they return.

  \<^bold>\<open>Parameters.\<close> Hashing, signatures, ciphers and SCALE are records of functions (\<open>crypto\<close>, \<open>hashers\<close>,
  \<open>scale\<close>, \<open>chain_env\<close>), with the round trips and the injectivity the code relies on as named hypotheses
  of the theorems. So are the state transition function (\<open>stf_env\<close>), rocksdb (\<open>rocksdb\<close>), the file system
  (\<open>State_File_Io\<close>) and floating point scaling of durations (\<open>proposal_portion\<close>). Each theorem with such a
  hypothesis has a witness with concrete functions.

  \<^bold>\<open>Not modelled.\<close> Network servers and clients, remote attestation and sealing through the SGX SDK, the
  foreign function interface of the enclave, the command line and the wiring of the service, and code
  that only forwards to third-party crates (light client proofs, trie access, runtime pallets). The file
  block_production_suspension.rs of the consensus commons belongs to no module and is left out.
\<close>

end
